(* ===== verification/Prelude.thy ===== *)
theory Prelude
  imports Main "HOL-Library.Word"
begin

unbundle bit_operations_syntax

text \<open>
  Shared vocabulary of the development: the C types as they are compiled on the target
  (LP64: \<open>int\<close> 32 bits, \<open>long\<close> 64 bits), the ways a C computation ends other than by
  returning (\<open>fault\<close>), sequencing of computations that may end that way, the choices the
  build makes where the C standard leaves them open (\<open>build\<close>), and generic lemmas.
\<close>

section \<open>Machine types\<close>

type_synonym byte = "8 word"
type_synonym ulong = "64 word"
type_synonym addr = nat

text \<open>
  Values of C type \<open>int\<close> and \<open>long\<close> are modelled as HOL integers; \<open>s32\<close> and \<open>s64\<close> are the
  conversions (and the two's complement wrap-around) to those types. \<open>unsigned long\<close> is a
  64-bit word, a byte of a file or of a buffer an 8-bit word.
\<close>

definition s32 :: "int \<Rightarrow> int" where
  "s32 x = signed_take_bit 31 x"

definition s64 :: "int \<Rightarrow> int" where
  "s64 x = signed_take_bit 63 x"

lemma s32_id: "- (2 ^ 31) \<le> x \<Longrightarrow> x < 2 ^ 31 \<Longrightarrow> s32 x = x"
  by (simp add: s32_def signed_take_bit_int_eq_self)

lemma s64_id: "- (2 ^ 63) \<le> x \<Longrightarrow> x < 2 ^ 63 \<Longrightarrow> s64 x = x"
  by (simp add: s64_def signed_take_bit_int_eq_self)

text \<open>A \<open>char\<close> is signed on the target; passing a byte through \<open>unsigned char\<close> gives it back.\<close>

definition schar :: "byte \<Rightarrow> int" where
  "schar b = sint b"

text \<open>The standard library's end-of-file value.\<close>

definition EOF_c :: int where
  "EOF_c = -1"

subsection \<open>Words read as numbers\<close>

lemma unat_drop_bit_div: "unat (drop_bit n w) = unat w div 2 ^ n"
  by (rule trans [OF unat_drop_bit_eq drop_bit_eq_div])

lemma unat_take_bit_mod: "unat (take_bit n w) = unat w mod 2 ^ n"
  by (rule trans [OF unsigned_take_bit_eq take_bit_eq_mod])

lemma unat_and_127: "unat ((w::64 word) AND 0x7f) = unat w mod 128"
  using unat_take_bit_mod [of 7 w] by (simp add: take_bit_eq_mask mask_eq_exp_minus_1)

lemma unat_and_255: "unat ((w::64 word) AND 0xff) = unat w mod 256"
  using unat_take_bit_mod [of 8 w] by (simp add: take_bit_eq_mask mask_eq_exp_minus_1)

lemma mod_256_bit_7: "128 \<le> n mod 256 \<longleftrightarrow> odd (n div 128)" for n :: nat
proof -
  have "n mod 256 = 128 * (n div 128 mod 2) + n mod 128"
    using mod_mult2_eq [of n 128 2] by simp
  moreover have "n mod 128 < 128" by simp
  ultimately show ?thesis by (cases "even (n div 128)") (auto simp: odd_iff_mod_2_eq_one even_iff_mod_2_eq_zero)
qed

lemma and_0x80_iff: "((w::64 word) AND 0x80 \<noteq> 0) \<longleftrightarrow> 128 \<le> unat w mod 256"
proof -
  have "(w AND 0x80 \<noteq> 0) \<longleftrightarrow> bit w 7"
    using and_exp_eq_0_iff_not_bit [of w 7] by simp
  also have "\<dots> \<longleftrightarrow> bit (unat w) 7"
    by (simp add: bit_unsigned_iff)
  also have "\<dots> \<longleftrightarrow> odd (unat w div 128)"
    by (simp add: bit_nat_iff bit_iff_odd)
  finally show ?thesis by (simp add: mod_256_bit_7)
qed

text \<open>One step of packing seven bits below a word that holds groups already.\<close>

lemma pack_word: "unat ((push_bit 8 (b::64 word) OR 0x80) + (v AND 0x7f))
    = (unat b * 256 + 128 + unat v mod 128) mod 2 ^ 64"
proof -
  have "push_bit 8 b OR 0x80 = push_bit 8 b + 0x80"
  proof (rule disjunctive_add_eq_or [symmetric])
    have "(0x80 :: 64 word) = push_bit 7 1" by simp
    moreover have "push_bit 8 b AND push_bit 7 1 = 0"
    proof (rule bit_word_eqI)
      fix n
      show "bit (push_bit 8 b AND push_bit 7 1) n = bit 0 n"
        unfolding bit_and_iff bit_push_bit_iff by (cases "n = 7") (simp_all add: bit_1_iff)
    qed
    ultimately show "push_bit 8 b AND 0x80 = 0" by metis
  qed
  then show ?thesis
    by (simp add: unat_word_ariths unat_and_127 push_bit_eq_mult  mod_simps unsigned_push_bit_eq take_bit_eq_mod)
qed

text \<open>Masks and bits of C integers.\<close>

lemma int_and_127: "(x :: int) AND 0x7f = x mod 128"
  using take_bit_eq_mod [of 7 x] by (simp add: take_bit_eq_mask mask_eq_exp_minus_1)

lemma int_and_255: "(x :: int) AND 0xff = x mod 256"
  using take_bit_eq_mod [of 8 x] by (simp add: take_bit_eq_mask mask_eq_exp_minus_1)

lemma int_and_15: "(x :: int) AND 0xf = x mod 16"
  using take_bit_eq_mod [of 4 x] by (simp add: take_bit_eq_mask mask_eq_exp_minus_1)

lemma int_and_128: "(x :: int) AND 0x80 \<noteq> 0 \<longleftrightarrow> odd (x div 128)"
proof -
  have "(x AND 0x80 \<noteq> 0) \<longleftrightarrow> bit x 7"
    using and_exp_eq_0_iff_not_bit [of x 7] by simp
  then show ?thesis by (simp add: bit_iff_odd)
qed

lemma uint_byte_bounds: "0 \<le> uint (b :: byte)" "uint (b :: byte) < 256"
  using uint_ge_0 [of b] uint_bounded [of b] by simp_all

lemma uint_not_EOF [simp]: "uint (b :: byte) \<noteq> -1"
  using uint_ge_0 [of b] by linarith

lemma uint_low_byte: "unat (b :: byte) < 128 \<Longrightarrow> uint b div 128 = 0"
  unfolding uint_nat by (rule div_pos_pos_trivial, rule of_nat_0_le_iff) (simp only: of_nat_less_numeral_iff)

section \<open>Ways a computation ends\<close>

text \<open>
  \<open>Exit c msg\<close>: the process ended through \<open>exit (c)\<close> after reporting \<open>msg\<close>.
  \<open>Assert_Failed\<close>: an \<open>assert\<close> aborted the process. The others are the undefined behaviours
  the sources can reach: they are values of the model, so that their absence can be proved.
  \<open>Diverges\<close>: a loop that follows pointers round a cycle.
\<close>

datatype fault =
    Exit int string
  | Assert_Failed
  | Null_Deref
  | Out_Of_Bounds
  | Use_After_Free
  | Double_Free
  | Uninitialised
  | Div_By_Zero
  | Signed_Overflow
  | No_Return
  | Diverges

type_synonym 'a res = "fault + 'a"

definition andThen :: "'a res \<Rightarrow> ('a \<Rightarrow> 'b res) \<Rightarrow> 'b res" where
  "andThen m f = (case m of Inl e \<Rightarrow> Inl e | Inr x \<Rightarrow> f x)"

named_theorems res_iff "when a sequence of computations returns"

lemma andThen_Inr [simp]: "andThen (Inr x) f = f x"
  by (simp add: andThen_def)

lemma andThen_Inl [simp]: "andThen (Inl e) f = Inl e"
  by (simp add: andThen_def)

lemma andThen_cong [fundef_cong]:
  "m = m' \<Longrightarrow> (\<And>x. m' = Inr x \<Longrightarrow> f x = g x) \<Longrightarrow> andThen m f = andThen m' g"
  by (cases m') (simp_all add: andThen_def)

lemma andThen_eq_Inr [res_iff]: "andThen m f = Inr y \<longleftrightarrow> (\<exists>x. m = Inr x \<and> f x = Inr y)"
  by (cases m) simp_all

lemma andThen_eq_Inl:
  "andThen m f = Inl e \<longleftrightarrow> m = Inl e \<or> (\<exists>x. m = Inr x \<and> f x = Inl e)"
  by (cases m) simp_all

lemma andThen_assoc: "andThen (andThen m f) g = andThen m (\<lambda>x. andThen (f x) g)"
  by (cases m) simp_all

lemma if_eq_Inr [res_iff]:
  "(if b then Inr x else Inl e) = Inr y \<longleftrightarrow> b \<and> x = y"
  "(if b then Inl e else Inr x) = Inr y \<longleftrightarrow> \<not> b \<and> x = y"
  by auto

section \<open>The build\<close>

text \<open>
  What the C standard or the Makefile decides and the sources do not:
  \<open>bd_accumulator\<close>: falling off the end of a function that should return a pointer leaves the
  pointer it last worked on in the return register, as gcc does without optimisation (the
  Makefile passes none); otherwise using the result is undefined.
  \<open>bd_left_first\<close>: the left operand of a binary operator is evaluated before the right one.
  \<open>bd_noplay\<close>: \<open>SERVER_NOPLAY\<close> is defined (it is, in the Makefile).
  \<open>bd_ndebug\<close>: \<open>NDEBUG\<close> is defined, so that \<open>assert\<close> checks nothing.
\<close>

record build =
  bd_accumulator :: bool
  bd_left_first :: bool
  bd_noplay :: bool
  bd_ndebug :: bool

definition makefile_build :: build where
  "makefile_build = \<lparr>bd_accumulator = True, bd_left_first = True, bd_noplay = True, bd_ndebug = False\<rparr>"

definition fall_off :: "build \<Rightarrow> 'a \<Rightarrow> 'a res" where
  "fall_off B x = (if bd_accumulator B then Inr x else Inl No_Return)"

definition assert_c :: "build \<Rightarrow> bool \<Rightarrow> unit res" where
  "assert_c B P = (if P \<or> bd_ndebug B then Inr () else Inl Assert_Failed)"

lemma fall_off_Inr [res_iff]: "fall_off B x = Inr y \<longleftrightarrow> bd_accumulator B \<and> y = x"
  by (auto simp: fall_off_def)

lemma assert_c_Inr [res_iff]: "assert_c B P = Inr u \<longleftrightarrow> P \<or> bd_ndebug B"
  by (auto simp: assert_c_def)

lemma assert_c_holds [simp]: "P \<Longrightarrow> assert_c B P = Inr ()"
  by (simp add: assert_c_def)

lemma fall_off_accumulator [simp]: "bd_accumulator B \<Longrightarrow> fall_off B x = Inr x"
  by (simp add: fall_off_def)

section \<open>Buffers and C strings\<close>

text \<open>\<open>read_buf n b\<close>: the first \<open>n\<close> bytes of the buffer a pointer leads to.\<close>

definition read_buf :: "nat \<Rightarrow> byte list \<Rightarrow> byte list res" where
  "read_buf n b = (if n \<le> length b then Inr (take n b) else Inl (if b = [] then Null_Deref else Out_Of_Bounds))"

text \<open>
  \<open>strdup\<close>: the bytes up to the first zero, copied; reading on when the buffer holds no
  zero is out of bounds. The copy is returned with its terminating zero.
\<close>

definition strdup_c :: "byte list \<Rightarrow> byte list res" where
  "strdup_c b = (if 0 \<in> set b then Inr (takeWhile (\<lambda>x. x \<noteq> 0) b @ [0]) else Inl Out_Of_Bounds)"

lemma read_buf_Inr [res_iff]: "read_buf n b = Inr x \<longleftrightarrow> n \<le> length b \<and> x = take n b"
  by (auto simp: read_buf_def)

lemma read_buf_ok [simp]: "n \<le> length b \<Longrightarrow> read_buf n b = Inr (take n b)"
  by (simp add: read_buf_def)

lemma strdup_c_terminated [simp]: "0 \<notin> set s \<Longrightarrow> strdup_c (s @ 0 # r) = Inr (s @ [0])"
proof -
  assume "0 \<notin> set s"
  then have "takeWhile (\<lambda>x. x \<noteq> 0) (s @ 0 # r) = s"
    by (subst takeWhile_append2) auto
  then show ?thesis by (simp add: strdup_c_def)
qed

section \<open>Division in C\<close>

text \<open>The quotient is rounded towards zero; dividing by zero is undefined.\<close>

definition c_div :: "int \<Rightarrow> int \<Rightarrow> int res" where
  "c_div a b = (if b = 0 then Inl Div_By_Zero else Inr (sgn a * sgn b * (\<bar>a\<bar> div \<bar>b\<bar>)))"

definition c_rem :: "int \<Rightarrow> int \<Rightarrow> int res" where
  "c_rem a b = andThen (c_div a b) (\<lambda>q. Inr (a - b * q))"

lemma c_div_pos [simp]: "0 \<le> a \<Longrightarrow> 0 < b \<Longrightarrow> c_div a b = Inr (a div b)"
  by (cases "a = 0") (simp_all add: c_div_def)

lemma c_rem_pos [simp]: "0 \<le> a \<Longrightarrow> 0 < b \<Longrightarrow> c_rem a b = Inr (a mod b)"
  by (simp add: c_rem_def minus_mult_div_eq_mod)

lemma c_div_zero [simp]: "c_div a 0 = Inl Div_By_Zero" "c_rem a 0 = Inl Div_By_Zero"
  by (simp_all add: c_div_def c_rem_def)

section \<open>Sequences of appends\<close>

text \<open>
  Two components keep a singly linked list with a pointer to its last node and only ever add
  at the end: the events of a track and the client threads of the server. The contract they
  share: adding a value to a list in good order succeeds, keeps it in good order and puts the
  value (as \<open>view\<close> shows it) behind the values that were there.
\<close>

fun add_all :: "('st \<Rightarrow> 'v \<Rightarrow> 'st res) \<Rightarrow> 'st \<Rightarrow> 'v list \<Rightarrow> 'st res" where
  "add_all add s [] = Inr s"
| "add_all add s (v # vs) = andThen (add s v) (\<lambda>s'. add_all add s' vs)"

locale append_list =
  fixes add :: "'st \<Rightarrow> 'v \<Rightarrow> 'st res"
    and items :: "'st \<Rightarrow> 'i list"
    and inv :: "'st \<Rightarrow> bool"
    and view :: "'v \<Rightarrow> 'i"
    and ok :: "'v \<Rightarrow> bool"
  assumes add_ok:
    "inv s \<Longrightarrow> ok v \<Longrightarrow> \<exists>s'. add s v = Inr s' \<and> inv s' \<and> items s' = items s @ [view v]"
begin

lemma add_inv: "inv s \<Longrightarrow> ok v \<Longrightarrow> add s v = Inr s' \<Longrightarrow> inv s'"
  using add_ok [of s v] by auto

lemma add_items: "inv s \<Longrightarrow> ok v \<Longrightarrow> add s v = Inr s' \<Longrightarrow> items s' = items s @ [view v]"
  using add_ok [of s v] by auto

lemma add_all_ok:
  "inv s \<Longrightarrow> list_all ok vs \<Longrightarrow>
     \<exists>s'. add_all add s vs = Inr s' \<and> inv s' \<and> items s' = items s @ map view vs"
proof (induction vs arbitrary: s)
  case Nil
  then show ?case by simp
next
  case (Cons v vs)
  from Cons.prems have ok: "ok v" "list_all ok vs" by auto
  from add_ok [OF Cons.prems(1) ok(1)] obtain s1
    where s1: "add s v = Inr s1" "inv s1" "items s1 = items s @ [view v]" by blast
  from Cons.IH [OF s1(2) ok(2)] s1 show ?case by auto
qed

end

end
