(* ===== verification/Midi.thy ===== *)
theory Midi
  imports Prelude
begin

text \<open>
  \<open>server/midi.h\<close> and \<open>server/midi.c\<close>: the in-memory form of a MIDI file. Events and the byte
  buffers they point to live in a store of addressed cells, because the code links events by
  pointers and \<open>Mevent_copy\<close> shares a buffer between two events. A track and a file are records
  that hold pointers into the store.
\<close>

section \<open>The structures of midi.h\<close>

record Mevent_regular =
  reg_type :: int
  reg_chan :: int
  reg_data0 :: byte
  reg_data1 :: byte
  reg_len :: int

record Mevent_sysex =
  sx_msg :: "addr option"
  sx_len :: int

record Mevent_meta =
  mt_type :: int
  mt_len :: int
  mt_data :: "addr option"

text \<open>The union \<open>Mevent_data\<close> together with its tag \<open>enum Mtype\<close>.\<close>

datatype Mevent_data =
    MEVENT_REG Mevent_regular
  | MEVENT_SYSEX Mevent_sysex
  | MEVENT_META Mevent_meta

record Mevent =
  deltatime :: ulong
  curtime :: ulong
  event_data :: Mevent_data
  nxt :: "addr option"

record Mtrack =
  is_tempotrack :: int
  trk_first :: "addr option"
  trk_last :: "addr option"
  trk_len :: int
  trk_name :: "byte list option"
  trk_text :: "byte list option"
  trk_instrument :: "byte list option"

record Mfile =
  mf_format :: int
  mf_division :: int
  has_tempotrack :: int
  ntracks :: int
  tracks :: "Mtrack option list"
  cur_track :: "Mtrack option"
  cur_track_index :: int
  filename :: "byte list option"
  fullpath :: "byte list option"
  music_name :: "byte list option"
  info_text :: "byte list option"
  copyright_info :: "byte list option"

section \<open>The store\<close>

text \<open>
  \<open>evs\<close> holds the events, \<open>bufs\<close> the byte buffers; \<open>brk\<close> is the next address \<open>malloc\<close> gives
  out. A freed address is not given out again, so reading one is seen as a use after free.
\<close>

record heap =
  evs :: "addr \<Rightarrow> Mevent option"
  bufs :: "addr \<Rightarrow> byte list option"
  brk :: addr

definition empty_heap :: heap where
  "empty_heap = \<lparr>evs = (\<lambda>_. None), bufs = (\<lambda>_. None), brk = 0\<rparr>"

definition heap_ok :: "heap \<Rightarrow> bool" where
  "heap_ok h \<longleftrightarrow> (\<forall>a \<ge> brk h. evs h a = None \<and> bufs h a = None)"

definition alloc_event :: "heap \<Rightarrow> Mevent \<Rightarrow> heap \<times> addr" where
  "alloc_event h e = (h\<lparr>evs := (evs h)(brk h \<mapsto> e), brk := Suc (brk h)\<rparr>, brk h)"

definition alloc_buf :: "heap \<Rightarrow> byte list \<Rightarrow> heap \<times> addr" where
  "alloc_buf h b = (h\<lparr>bufs := (bufs h)(brk h \<mapsto> b), brk := Suc (brk h)\<rparr>, brk h)"

definition get_event :: "heap \<Rightarrow> addr \<Rightarrow> Mevent res" where
  "get_event h a = (case evs h a of None \<Rightarrow> Inl Use_After_Free | Some e \<Rightarrow> Inr e)"

definition put_event :: "heap \<Rightarrow> addr \<Rightarrow> Mevent \<Rightarrow> heap" where
  "put_event h a e = h\<lparr>evs := (evs h)(a \<mapsto> e)\<rparr>"

definition get_buf :: "heap \<Rightarrow> addr option \<Rightarrow> byte list res" where
  "get_buf h p = (case p of None \<Rightarrow> Inr []
     | Some a \<Rightarrow> (case bufs h a of None \<Rightarrow> Inl Use_After_Free | Some b \<Rightarrow> Inr b))"

text \<open>\<open>free\<close> of a buffer pointer (\<open>free (NULL)\<close> does nothing) and of an event.\<close>

definition free_buf :: "heap \<Rightarrow> addr option \<Rightarrow> heap res" where
  "free_buf h p = (case p of None \<Rightarrow> Inr h
     | Some a \<Rightarrow> (if bufs h a = None then Inl Double_Free
                  else Inr (h\<lparr>bufs := (bufs h)(a := None)\<rparr>)))"

definition free_event_cell :: "heap \<Rightarrow> addr \<Rightarrow> heap res" where
  "free_event_cell h a = (if evs h a = None then Inl Double_Free
     else Inr (h\<lparr>evs := (evs h)(a := None)\<rparr>))"

section \<open>Constructors\<close>

text \<open>\<open>calloc\<close>: every field zero or \<open>NULL\<close>.\<close>

definition new_mfile :: Mfile where
  "new_mfile = \<lparr>mf_format = 0, mf_division = 0, has_tempotrack = 0, ntracks = 0, tracks = [],
     cur_track = None, cur_track_index = 0, filename = None, fullpath = None, music_name = None,
     info_text = None, copyright_info = None\<rparr>"

definition new_mtrack :: Mtrack where
  "new_mtrack = \<lparr>is_tempotrack = 0, trk_first = None, trk_last = None, trk_len = 0,
     trk_name = None, trk_text = None, trk_instrument = None\<rparr>"

definition cstrdup :: "byte list option \<Rightarrow> byte list option res" where
  "cstrdup s = (case s of None \<Rightarrow> Inr None | Some b \<Rightarrow> andThen (strdup_c b) (\<lambda>d. Inr (Some d)))"

text \<open>\<open>Mfile_from_headers\<close> has no \<open>return\<close> statement.\<close>

definition Mfile_from_headers ::
  "build \<Rightarrow> int \<Rightarrow> int \<Rightarrow> byte list option \<Rightarrow> byte list option \<Rightarrow> byte list option
     \<Rightarrow> byte list option \<Rightarrow> Mfile res" where
  "Mfile_from_headers B format division fname mname info cpr =
     andThen (cstrdup fname) (\<lambda>f. andThen (cstrdup mname) (\<lambda>m.
     andThen (cstrdup info) (\<lambda>i. andThen (cstrdup cpr) (\<lambda>c.
       fall_off B (new_mfile\<lparr>mf_format := format, mf_division := division, filename := f,
                     music_name := m, info_text := i, copyright_info := c\<rparr>)))))"

text \<open>Status values of \<open>midifile.h\<close>.\<close>

definition note_off :: int where "note_off = 0x80"
definition note_on :: int where "note_on = 0x90"
definition poly_aftertouch :: int where "poly_aftertouch = 0xa0"
definition control_change :: int where "control_change = 0xb0"
definition program_chng :: int where "program_chng = 0xc0"
definition channel_aftertouch :: int where "channel_aftertouch = 0xd0"
definition pitch_wheel :: int where "pitch_wheel = 0xe0"
definition system_exclusive :: int where "system_exclusive = 0xf0"

lemmas status_defs = note_off_def note_on_def poly_aftertouch_def control_change_def
  program_chng_def channel_aftertouch_def pitch_wheel_def system_exclusive_def

definition new_mreg_event :: "heap \<Rightarrow> ulong \<Rightarrow> int \<Rightarrow> int \<Rightarrow> int \<Rightarrow> int \<Rightarrow> heap \<times> addr" where
  "new_mreg_event h ct type chan param1 param2 =
     alloc_event h \<lparr>deltatime = 0, curtime = ct,
       event_data = MEVENT_REG \<lparr>reg_type = type, reg_chan = chan,
         reg_data0 = word_of_int param1, reg_data1 = word_of_int param2,
         reg_len = (if type = program_chng \<or> type = channel_aftertouch then 1 else 2)\<rparr>,
       nxt = None\<rparr>"

text \<open>
  A message pointer is the list of the bytes it leads to; the empty list is \<open>NULL\<close>. The copy
  is made with \<open>strdup\<close>, which stops at the first zero byte.
\<close>

definition new_msysex_event :: "heap \<Rightarrow> ulong \<Rightarrow> int \<Rightarrow> byte list \<Rightarrow> (heap \<times> addr) res" where
  "new_msysex_event h ct len msg =
     (let ev = (\<lambda>p. \<lparr>deltatime = 0, curtime = ct,
                      event_data = MEVENT_SYSEX \<lparr>sx_msg = p, sx_len = len\<rparr>, nxt = None\<rparr>)
      in if msg = [] then Inr (alloc_event h (ev None))
         else andThen (strdup_c msg) (\<lambda>d.
           (let (h1, a) = alloc_buf h d in Inr (alloc_event h1 (ev (Some a))))))"

definition new_mmeta_event :: "heap \<Rightarrow> ulong \<Rightarrow> int \<Rightarrow> nat \<Rightarrow> byte list \<Rightarrow> (heap \<times> addr) res" where
  "new_mmeta_event h ct type len data =
     (let ev = (\<lambda>p. \<lparr>deltatime = 0, curtime = ct,
                      event_data = MEVENT_META \<lparr>mt_type = type mod 256, mt_len = s32 (int len), mt_data = p\<rparr>,
                      nxt = None\<rparr>)
      in if len = 0 then Inr (alloc_event h (ev None))
         else andThen (read_buf len data) (\<lambda>d.
           (let (h1, a) = alloc_buf h d in Inr (alloc_event h1 (ev (Some a))))))"

section \<open>Appending, copying and freeing\<close>

definition append_mevent :: "heap \<Rightarrow> Mtrack \<Rightarrow> addr \<Rightarrow> (heap \<times> Mtrack) res" where
  "append_mevent h t a =
     (if trk_len t = 0
      then Inr (h, t\<lparr>trk_first := Some a, trk_last := Some a, trk_len := 1\<rparr>)
      else case trk_last t of
        None \<Rightarrow> Inl Null_Deref
      | Some l \<Rightarrow>
          andThen (get_event h a) (\<lambda>e. andThen (get_event h l) (\<lambda>le.
            let h1 = put_event h a (e\<lparr>deltatime := curtime e - curtime le\<rparr>)
            in andThen (get_event h1 l) (\<lambda>le1.
                 Inr (put_event h1 l (le1\<lparr>nxt := Some a\<rparr>),
                      t\<lparr>trk_last := Some a, trk_len := trk_len t + 1\<rparr>)))))"

text \<open>\<open>Mevent_copy\<close> has no \<open>return\<close> statement either, and copies the data pointer.\<close>

definition Mevent_copy :: "build \<Rightarrow> heap \<Rightarrow> addr \<Rightarrow> (heap \<times> addr) res" where
  "Mevent_copy B h a = andThen (get_event h a) (\<lambda>e. fall_off B (alloc_event h (e\<lparr>nxt := None\<rparr>)))"

text \<open>
  A loop \<open>while (e)\<close> along the \<open>next\<close> pointers. All live events lie below \<open>brk\<close>, so a walk of
  more than \<open>brk\<close> steps has entered a cycle and does not end.
\<close>

fun copy_events :: "build \<Rightarrow> nat \<Rightarrow> heap \<Rightarrow> Mtrack \<Rightarrow> addr option \<Rightarrow> (heap \<times> Mtrack) res" where
  "copy_events B fuel h copy None = Inr (h, copy)"
| "copy_events B 0 h copy (Some a) = Inl Diverges"
| "copy_events B (Suc fuel) h copy (Some a) =
     andThen (Mevent_copy B h a) (\<lambda>(h1, c). andThen (append_mevent h1 copy c) (\<lambda>(h2, copy').
       andThen (get_event h2 a) (\<lambda>e. copy_events B fuel h2 copy' (nxt e))))"

definition Mtrack_copy :: "build \<Rightarrow> heap \<Rightarrow> Mtrack \<Rightarrow> (heap \<times> Mtrack) res" where
  "Mtrack_copy B h t =
     andThen (cstrdup (trk_name t)) (\<lambda>n. andThen (cstrdup (trk_instrument t)) (\<lambda>i.
     andThen (cstrdup (trk_text t)) (\<lambda>x.
       copy_events B (Suc (brk h)) h
         (new_mtrack\<lparr>trk_name := n, trk_instrument := i, trk_text := x,
            is_tempotrack := is_tempotrack t\<rparr>) (trk_first t))))"

definition free_Mevent :: "heap \<Rightarrow> addr \<Rightarrow> heap res" where
  "free_Mevent h a =
     andThen (get_event h a) (\<lambda>e.
     andThen (case event_data e of
         MEVENT_REG _ \<Rightarrow> Inr h
       | MEVENT_META m \<Rightarrow> free_buf h (mt_data m)
       | MEVENT_SYSEX s \<Rightarrow> free_buf h (sx_msg s)) (\<lambda>h1. free_event_cell h1 a))"

fun free_events :: "nat \<Rightarrow> heap \<Rightarrow> addr option \<Rightarrow> heap res" where
  "free_events fuel h None = Inr h"
| "free_events 0 h (Some a) = Inl Diverges"
| "free_events (Suc fuel) h (Some a) =
     andThen (get_event h a) (\<lambda>e. andThen (free_Mevent h a) (\<lambda>h1. free_events fuel h1 (nxt e)))"

definition free_Mtrack :: "heap \<Rightarrow> Mtrack \<Rightarrow> heap res" where
  "free_Mtrack h t = free_events (Suc (brk h)) h (trk_first t)"

text \<open>
  \<open>free_Mfile\<close> walks the first \<open>ntracks\<close> entries of the track array. The strings of a file or a
  track have no other owner, so freeing them (\<open>sfree\<close>) leaves no trace in the store.
\<close>

fun free_tracks :: "nat \<Rightarrow> heap \<Rightarrow> Mtrack option list \<Rightarrow> heap res" where
  "free_tracks 0 h ts = Inr h"
| "free_tracks (Suc n) h [] = Inl Out_Of_Bounds"
| "free_tracks (Suc n) h (None # ts) = Inl Null_Deref"
| "free_tracks (Suc n) h (Some t # ts) = andThen (free_Mtrack h t) (\<lambda>h1. free_tracks n h1 ts)"

definition free_Mfile :: "heap \<Rightarrow> Mfile \<Rightarrow> heap res" where
  "free_Mfile h m = free_tracks (nat (ntracks m)) h (tracks m)"

text \<open>\<open>reverse_memcpy\<close>: copies \<open>n\<close> bytes to the mirrored positions of \<open>dest\<close>.\<close>

fun reverse_memcpy_loop :: "nat \<Rightarrow> nat \<Rightarrow> byte list \<Rightarrow> byte list \<Rightarrow> byte list" where
  "reverse_memcpy_loop 0 n dest src = dest"
| "reverse_memcpy_loop (Suc k) n dest src =
     (let i = n - Suc k in reverse_memcpy_loop k n (dest[n - 1 - i := src ! i]) src)"

definition reverse_memcpy :: "byte list \<Rightarrow> byte list \<Rightarrow> nat \<Rightarrow> byte list res" where
  "reverse_memcpy dest src n =
     (if n \<le> length dest \<and> n \<le> length src then Inr (reverse_memcpy_loop n n dest src)
      else Inl Out_Of_Bounds)"

section \<open>Lists of events\<close>

text \<open>
  \<open>chain h p as\<close>: following \<open>next\<close> from the pointer \<open>p\<close> visits the live events at \<open>as\<close> and then
  ends. \<open>walk\<close> computes that list.
\<close>

fun chain :: "heap \<Rightarrow> addr option \<Rightarrow> addr list \<Rightarrow> bool" where
  "chain h p [] \<longleftrightarrow> p = None"
| "chain h p (a # as) \<longleftrightarrow> p = Some a \<and> (case evs h a of None \<Rightarrow> False | Some e \<Rightarrow> chain h (nxt e) as)"

fun walk :: "heap \<Rightarrow> nat \<Rightarrow> addr option \<Rightarrow> addr list" where
  "walk h fuel None = []"
| "walk h 0 (Some a) = []"
| "walk h (Suc fuel) (Some a) = a # (case evs h a of None \<Rightarrow> [] | Some e \<Rightarrow> walk h fuel (nxt e))"

definition track_addrs :: "heap \<Rightarrow> Mtrack \<Rightarrow> addr list" where
  "track_addrs h t = walk h (brk h) (trk_first t)"

definition track_ok :: "heap \<Rightarrow> Mtrack \<Rightarrow> bool" where
  "track_ok h t \<longleftrightarrow> (let as = track_addrs h t in
     chain h (trk_first t) as \<and> distinct as \<and> trk_len t = int (length as)
     \<and> (as \<noteq> [] \<longrightarrow> trk_last t = Some (last as)))"

lemma chain_walk: "chain h p as \<Longrightarrow> length as \<le> fuel \<Longrightarrow> walk h fuel p = as"
proof (induction as arbitrary: p fuel)
  case Nil
  then show ?case by simp
next
  case (Cons a as)
  from Cons.prems obtain f where "fuel = Suc f" by (cases fuel) auto
  with Cons show ?case by (auto split: option.splits)
qed

lemma chain_frame:
  "(\<And>a. a \<in> set as \<Longrightarrow> map_option nxt (evs h' a) = map_option nxt (evs h a)) \<Longrightarrow> chain h' p as = chain h p as"
proof (induction as arbitrary: p)
  case Nil
  then show ?case by simp
next
  case (Cons a as)
  have "map_option nxt (evs h' a) = map_option nxt (evs h a)"
    by (rule Cons.prems) simp
  moreover have "\<And>q. chain h' q as = chain h q as"
    by (rule Cons.IH, rule Cons.prems) simp
  ultimately show ?case by (cases "evs h a"; cases "evs h' a") simp_all
qed

lemma chain_live: "chain h p as \<Longrightarrow> a \<in> set as \<Longrightarrow> evs h a \<noteq> None"
  by (induction as arbitrary: p) (auto split: option.splits)

lemma chain_below: "heap_ok h \<Longrightarrow> chain h p as \<Longrightarrow> a \<in> set as \<Longrightarrow> a < brk h"
  by (metis chain_live heap_ok_def linorder_not_le)

lemma chain_length:
  assumes "heap_ok h" "chain h p as" "distinct as"
  shows "length as \<le> brk h"
proof -
  from assms have "set as \<subseteq> {..<brk h}" by (auto dest: chain_below)
  then have "card (set as) \<le> card {..<brk h}" by (rule card_mono [rotated]) simp
  with assms(3) show ?thesis by (simp add: distinct_card)
qed

lemma track_ok_rep:
  assumes "heap_ok h"
  shows "track_ok h t \<and> track_addrs h t = as \<longleftrightarrow>
    chain h (trk_first t) as \<and> distinct as \<and> trk_len t = int (length as)
     \<and> (as \<noteq> [] \<longrightarrow> trk_last t = Some (last as))"
proof -
  have "chain h (trk_first t) as \<Longrightarrow> distinct as \<Longrightarrow> walk h (brk h) (trk_first t) = as"
    using assms by (intro chain_walk chain_length) auto
  then show ?thesis by (auto simp: track_ok_def track_addrs_def Let_def)
qed

lemmas track_ok_repI = track_ok_rep [THEN iffD2]

lemma chain_snoc:
  assumes "chain h p as" "distinct as" "as \<noteq> []"
    and "evs h' (last as) = Some le" "nxt le = Some a"
    and "evs h' a = Some e" "nxt e = None"
    and "\<And>x. x \<in> set (butlast as) \<Longrightarrow> evs h' x = evs h x"
  shows "chain h' p (as @ [a])"
  using assms
proof (induction as arbitrary: p)
  case Nil
  then show ?case by simp
next
  case (Cons b as)
  show ?case
  proof (cases "as = []")
    case True
    with Cons.prems show ?thesis by auto
  next
    case False
    from Cons.prems(1) obtain eb where eb: "evs h b = Some eb" "chain h (nxt eb) as" "p = Some b"
      by (auto split: option.splits)
    have "chain h' (nxt eb) (as @ [a])"
    proof (rule Cons.IH [OF eb(2)])
      show "distinct as" "as \<noteq> []" using Cons.prems(2) False by auto
      show "evs h' (last as) = Some le" using Cons.prems(4) False by simp
      show "nxt le = Some a" "evs h' a = Some e" "nxt e = None"
        using Cons.prems(5-7) by auto
      show "evs h' x = evs h x" if "x \<in> set (butlast as)" for x
        using Cons.prems(8) [of x] that False by simp
    qed
    moreover have "evs h' b = evs h b"
      using Cons.prems(8) False by simp
    ultimately show ?thesis using eb by simp
  qed
qed

text \<open>
  What an event says, apart from its place in the list: \<open>buf_of\<close> reads the buffer behind a data
  pointer; \<open>event_body\<close> is the content of the event with its data spelled out.
\<close>

definition buf_of :: "heap \<Rightarrow> addr option \<Rightarrow> byte list" where
  "buf_of h p = (case p of None \<Rightarrow> [] | Some a \<Rightarrow> (case bufs h a of None \<Rightarrow> [] | Some b \<Rightarrow> b))"

datatype body =
    Reg_body int int byte byte int
  | Sysex_body int "byte list"
  | Meta_body int int "byte list"

definition event_body :: "heap \<Rightarrow> Mevent \<Rightarrow> body" where
  "event_body h e = (case event_data e of
      MEVENT_REG r \<Rightarrow> Reg_body (reg_type r) (reg_chan r) (reg_data0 r) (reg_data1 r) (reg_len r)
    | MEVENT_SYSEX s \<Rightarrow> Sysex_body (sx_len s) (buf_of h (sx_msg s))
    | MEVENT_META m \<Rightarrow> Meta_body (mt_type m) (mt_len m) (buf_of h (mt_data m)))"

definition data_ptr :: "Mevent \<Rightarrow> addr option" where
  "data_ptr e = (case event_data e of MEVENT_REG _ \<Rightarrow> None | MEVENT_SYSEX s \<Rightarrow> sx_msg s
     | MEVENT_META m \<Rightarrow> mt_data m)"

definition buf_live :: "heap \<Rightarrow> Mevent \<Rightarrow> bool" where
  "buf_live h e \<longleftrightarrow> (case data_ptr e of None \<Rightarrow> True | Some b \<Rightarrow> bufs h b \<noteq> None)"

definition event_at :: "heap \<Rightarrow> addr \<Rightarrow> Mevent" where
  "event_at h a = the (evs h a)"

definition track_events :: "heap \<Rightarrow> Mtrack \<Rightarrow> Mevent list" where
  "track_events h t = map (event_at h) (track_addrs h t)"

text \<open>The items of a track: current time and content of each event; and the delta times.\<close>

definition track_items :: "heap \<Rightarrow> Mtrack \<Rightarrow> (ulong \<times> body) list" where
  "track_items h t = map (\<lambda>e. (curtime e, event_body h e)) (track_events h t)"

definition track_deltas :: "heap \<Rightarrow> Mtrack \<Rightarrow> ulong list" where
  "track_deltas h t = map deltatime (track_events h t)"

text \<open>The delta times the code computes from the current times.\<close>

fun diffs :: "ulong \<Rightarrow> ulong list \<Rightarrow> ulong list" where
  "diffs p [] = []"
| "diffs p (c # cs) = (c - p) # diffs c cs"

fun deltas_of :: "ulong list \<Rightarrow> ulong list" where
  "deltas_of [] = []"
| "deltas_of (c # cs) = 0 # diffs c cs"

lemma diffs_snoc: "diffs p (cs @ [c]) = diffs p cs @ [c - last (p # cs)]"
  by (induction cs arbitrary: p) auto

lemma deltas_of_snoc: "cs \<noteq> [] \<Longrightarrow> deltas_of (cs @ [c]) = deltas_of cs @ [c - last cs]"
  by (cases cs) (auto simp: diffs_snoc)

text \<open>The store facts that a track's operations keep for every other track.\<close>

definition same_elsewhere :: "addr set \<Rightarrow> heap \<Rightarrow> heap \<Rightarrow> bool" where
  "same_elsewhere A h h' \<longleftrightarrow> (\<forall>x. x \<notin> A \<longrightarrow> evs h' x = evs h x)
     \<and> (\<forall>x. bufs h x \<noteq> None \<longrightarrow> bufs h' x = bufs h x) \<and> brk h \<le> brk h'"

lemma same_elsewhere_refl [simp]: "same_elsewhere A h h"
  by (simp add: same_elsewhere_def)

lemma same_elsewhere_trans:
  "same_elsewhere A h h1 \<Longrightarrow> same_elsewhere B h1 h2 \<Longrightarrow> A \<union> B \<subseteq> C \<Longrightarrow> same_elsewhere C h h2"
  by (auto simp: same_elsewhere_def subset_iff) (metis option.distinct(1))+

lemma event_body_frame:
  "buf_live h e \<Longrightarrow> same_elsewhere A h h' \<Longrightarrow> event_body h' e = event_body h e"
  by (auto simp: same_elsewhere_def event_body_def buf_of_def buf_live_def data_ptr_def
      split: Mevent_data.splits option.splits)

lemma buf_live_frame: "buf_live h e \<Longrightarrow> same_elsewhere A h h' \<Longrightarrow> buf_live h' e"
  by (auto simp: same_elsewhere_def buf_live_def split: option.splits)

lemma track_frame:
  assumes ok: "track_ok h t" "heap_ok h" "heap_ok h'"
    and same: "same_elsewhere A h h'" and disj: "set (track_addrs h t) \<inter> A = {}"
  shows "track_ok h' t" and "track_addrs h' t = track_addrs h t"
    and "track_events h' t = track_events h t"
proof -
  let ?as = "track_addrs h t"
  have eq: "evs h' a = evs h a" if "a \<in> set ?as" for a
    using same disj that by (auto simp: same_elsewhere_def)
  have rep: "chain h (trk_first t) ?as" "distinct ?as" "trk_len t = int (length ?as)"
    "?as \<noteq> [] \<longrightarrow> trk_last t = Some (last ?as)"
    using ok(1) by (auto simp: track_ok_def Let_def)
  have "chain h' (trk_first t) ?as = chain h (trk_first t) ?as"
    by (rule chain_frame) (simp add: eq)
  with rep have "track_ok h' t \<and> track_addrs h' t = ?as"
    by (intro track_ok_repI [OF ok(3)]) simp
  then show "track_ok h' t" and addrs: "track_addrs h' t = ?as" by auto
  show "track_events h' t = track_events h t"
    by (simp add: track_events_def addrs event_at_def eq)
qed

text \<open>The descriptive fields of a track, which no list operation touches.\<close>

definition same_header :: "Mtrack \<Rightarrow> Mtrack \<Rightarrow> bool" where
  "same_header t' t \<longleftrightarrow> is_tempotrack t' = is_tempotrack t \<and> trk_name t' = trk_name t
     \<and> trk_text t' = trk_text t \<and> trk_instrument t' = trk_instrument t"

lemma same_header_trans: "same_header t'' t' \<Longrightarrow> same_header t' t \<Longrightarrow> same_header t'' t"
  by (simp add: same_header_def)

lemma same_header_refl [simp]: "same_header t t"
  by (simp add: same_header_def)

lemma body_cong:
  assumes "event_data e' = event_data e" "bufs h' = bufs h"
  shows "event_body h' e' = event_body h e" "buf_live h' e' = buf_live h e"
  using assms by (auto simp: event_body_def buf_of_def buf_live_def data_ptr_def
      split: Mevent_data.splits option.splits)

definition bufs_live :: "heap \<Rightarrow> Mtrack \<Rightarrow> bool" where
  "bufs_live h t \<longleftrightarrow> list_all (buf_live h) (track_events h t)"

lemma track_frame_items:
  assumes "track_ok h t" "heap_ok h" "heap_ok h'" "bufs_live h t"
    and "same_elsewhere A h h'" "set (track_addrs h t) \<inter> A = {}"
  shows "track_items h' t = track_items h t" "track_deltas h' t = track_deltas h t" "bufs_live h' t"
proof -
  note ev = track_frame(3) [OF assms(1,2,3,5,6)]
  show "track_items h' t = track_items h t"
    using assms(4,5) by (auto simp: track_items_def ev bufs_live_def list_all_iff event_body_frame)
  show "track_deltas h' t = track_deltas h t" by (simp add: track_deltas_def ev)
  show "bufs_live h' t"
    using assms(4,5) by (auto simp: bufs_live_def ev list_all_iff buf_live_frame)
qed

lemma heap_ok_alloc [intro]:
  "heap_ok h \<Longrightarrow> heap_ok (fst (alloc_event h e))"
  "heap_ok h \<Longrightarrow> heap_ok (fst (alloc_buf h b))"
  by (auto simp: heap_ok_def alloc_event_def alloc_buf_def)

text \<open>
  Appending a new event: the list grows at its end, the new event's delta time is the distance
  to the last event before it, and nothing outside the track and the new event changes.
\<close>

lemma append_mevent_ok:
  assumes h: "heap_ok h" and t: "track_ok h t"
    and e: "evs h a = Some e" "nxt e = None" and fresh: "a \<notin> set (track_addrs h t)"
  shows "\<exists>h' t'. append_mevent h t a = Inr (h', t') \<and> heap_ok h' \<and> track_ok h' t'
    \<and> track_addrs h' t' = track_addrs h t @ [a]
    \<and> map (\<lambda>x. (curtime (event_at h' x), event_data (event_at h' x))) (track_addrs h t @ [a])
      = map (\<lambda>x. (curtime (event_at h x), event_data (event_at h x))) (track_addrs h t @ [a])
    \<and> map deltatime (track_events h' t') = map deltatime (track_events h t) @
        [if track_addrs h t = [] then deltatime e
         else curtime e - curtime (event_at h (last (track_addrs h t)))]
    \<and> same_elsewhere (insert a (set (track_addrs h t))) h h' \<and> bufs h' = bufs h \<and> brk h' = brk h
    \<and> same_header t' t"
proof -
  let ?as = "track_addrs h t"
  have rep: "chain h (trk_first t) ?as" "distinct ?as" "trk_len t = int (length ?as)"
    "?as \<noteq> [] \<longrightarrow> trk_last t = Some (last ?as)"
    using t by (auto simp: track_ok_def Let_def)
  show ?thesis
  proof (cases "?as = []")
    case True
    let ?t = "t\<lparr>trk_first := Some a, trk_last := Some a, trk_len := 1\<rparr>"
    have app: "append_mevent h t a = Inr (h, ?t)"
      using True rep by (simp add: append_mevent_def)
    have "track_ok h ?t \<and> track_addrs h ?t = [a]"
      using e by (intro track_ok_repI [OF h]) simp
    then show ?thesis
      using True app h e by (auto simp: track_events_def event_at_def same_header_def)
  next
    case False
    let ?l = "last ?as"
    have last: "trk_last t = Some ?l" and len: "trk_len t \<noteq> 0" using rep False by auto
    from False have lin: "?l \<in> set ?as" by simp
    with rep(1) obtain le where le: "evs h ?l = Some le" by (auto dest: chain_live)
    from lin fresh have ne: "?l \<noteq> a" by auto
    let ?e = "e\<lparr>deltatime := curtime e - curtime le\<rparr>" and ?le = "le\<lparr>nxt := Some a\<rparr>"
    let ?h = "put_event (put_event h a ?e) ?l ?le"
    let ?t = "t\<lparr>trk_last := Some a, trk_len := trk_len t + 1\<rparr>"
    have app: "append_mevent h t a = Inr (?h, ?t)"
      using len last le e ne by (simp add: append_mevent_def get_event_def put_event_def)
    have h': "heap_ok ?h"
      using h e le by (auto simp: heap_ok_def put_event_def)
    have at: "evs ?h a = Some ?e" "evs ?h ?l = Some ?le"
      "\<And>x. x \<noteq> a \<Longrightarrow> x \<noteq> ?l \<Longrightarrow> evs ?h x = evs h x"
      using ne by (auto simp: put_event_def)
    have before: "x \<noteq> a \<and> x \<noteq> ?l" if "x \<in> set (butlast ?as)" for x
      using that fresh rep(2) False
      by (metis append_butlast_last_id distinct_butlast in_set_butlastD not_distinct_conv_prefix
          distinct_append disjoint_insert(1) list.simps(15))
    have "chain ?h (trk_first t) (?as @ [a])"
      by (rule chain_snoc [OF rep(1,2) False at(2) _ at(1)]) (use e at(3) before in auto)
    then have ok: "track_ok ?h ?t \<and> track_addrs ?h ?t = ?as @ [a]"
      using rep fresh by (intro track_ok_repI [OF h']) auto
    have split_as: "?as = butlast ?as @ [?l]" using False by simp
    have same: "event_at ?h x = event_at h x" if "x \<in> set (butlast ?as)" for x
      using before [OF that] at(3) by (simp add: event_at_def)
    have evl: "event_at ?h ?l = ?le" "event_at ?h a = ?e" "event_at h ?l = le" "event_at h a = e"
      using at le e by (simp_all add: event_at_def)
    have deltas: "map deltatime (track_events ?h ?t) = map deltatime (track_events h t) @
        [curtime e - curtime le]"
    proof -
      have "map (deltatime \<circ> event_at ?h) ?as = map (deltatime \<circ> event_at h) ?as"
        by (subst (1 2) split_as) (simp add: same evl)
      then show ?thesis using ok evl by (simp add: track_events_def)
    qed
    have core: "map (\<lambda>x. (curtime (event_at ?h x), event_data (event_at ?h x))) (?as @ [a])
      = map (\<lambda>x. (curtime (event_at h x), event_data (event_at h x))) (?as @ [a])"
      by (subst (1 2) split_as) (simp add: same evl)
    have "same_elsewhere (insert a (set ?as)) h ?h"
      using at(3) lin by (auto simp: same_elsewhere_def put_event_def)
    with app h' ok core deltas False evl(3) show ?thesis
      by (auto simp: put_event_def same_header_def)
  qed
qed

text \<open>
  The three constructors as requests for a new event, and the step every parser handler makes:
  build the event, then append it to the track.
\<close>

datatype new_event =
    New_reg ulong int int int int
  | New_sysex ulong int "byte list"
  | New_meta ulong int nat "byte list"

fun make_event :: "heap \<Rightarrow> new_event \<Rightarrow> (heap \<times> addr) res" where
  "make_event h (New_reg ct type chan p1 p2) = Inr (new_mreg_event h ct type chan p1 p2)"
| "make_event h (New_sysex ct len msg) = new_msysex_event h ct len msg"
| "make_event h (New_meta ct type len data) = new_mmeta_event h ct type len data"

fun add_event :: "heap \<times> Mtrack \<Rightarrow> new_event \<Rightarrow> (heap \<times> Mtrack) res" where
  "add_event (h, t) v = andThen (make_event h v) (\<lambda>(h1, a). append_mevent h1 t a)"

fun new_ok :: "new_event \<Rightarrow> bool" where
  "new_ok (New_reg ct type chan p1 p2) = True"
| "new_ok (New_sysex ct len msg) = (msg = [] \<or> 0 \<in> set msg)"
| "new_ok (New_meta ct type len data) = (len \<le> length data)"

definition reg_params :: "int \<Rightarrow> int" where
  "reg_params type = (if type = program_chng \<or> type = channel_aftertouch then 1 else 2)"

fun new_view :: "new_event \<Rightarrow> ulong \<times> body" where
  "new_view (New_reg ct type chan p1 p2) =
     (ct, Reg_body type chan (word_of_int p1) (word_of_int p2) (reg_params type))"
| "new_view (New_sysex ct len msg) =
     (ct, Sysex_body len (if msg = [] then [] else takeWhile (\<lambda>x. x \<noteq> 0) msg @ [0]))"
| "new_view (New_meta ct type len data) = (ct, Meta_body (type mod 256) (s32 (int len)) (take len data))"

text \<open>The events of a track being built: linked, live, with the computed delta times.\<close>

definition deltas_ok :: "heap \<Rightarrow> Mtrack \<Rightarrow> bool" where
  "deltas_ok h t \<longleftrightarrow> track_deltas h t = deltas_of (map curtime (track_events h t))"

fun building :: "heap \<times> Mtrack \<Rightarrow> bool" where
  "building (h, t) \<longleftrightarrow> heap_ok h \<and> track_ok h t \<and> bufs_live h t \<and> deltas_ok h t"

text \<open>A constructor allocates one fresh, unlinked event; no other event changes.\<close>

lemma make_event_ok:
  assumes "heap_ok h" "new_ok v"
  shows "\<exists>h1 a e. make_event h v = Inr (h1, a) \<and> heap_ok h1 \<and> evs h a = None \<and> brk h \<le> a \<and> a < brk h1
    \<and> evs h1 = (evs h)(a \<mapsto> e) \<and> nxt e = None \<and> deltatime e = 0 \<and> buf_live h1 e
    \<and> (curtime e, event_body h1 e) = new_view v \<and> same_elsewhere {a} h h1"
proof -
  have free: "evs h x = None" "bufs h x = None" if "brk h \<le> x" for x
    using assms(1) that by (auto simp: heap_ok_def)
  have ne: "bufs h x \<noteq> None \<Longrightarrow> x \<noteq> brk h" for x
    using free by auto
  show ?thesis
  proof (cases v)
    case (New_reg ct type chan p1 p2)
    then show ?thesis using free assms(1)
      by (auto simp: new_mreg_event_def alloc_event_def heap_ok_def buf_live_def data_ptr_def
          event_body_def same_elsewhere_def reg_params_def)
  next
    case (New_sysex ct len msg)
    then show ?thesis using free ne assms
      by (auto simp: new_msysex_event_def alloc_event_def alloc_buf_def heap_ok_def buf_live_def
          data_ptr_def event_body_def same_elsewhere_def buf_of_def strdup_c_def Let_def)
  next
    case (New_meta ct type len data)
    then show ?thesis using free ne assms
      by (auto simp: new_mmeta_event_def alloc_event_def alloc_buf_def heap_ok_def buf_live_def
          data_ptr_def event_body_def same_elsewhere_def buf_of_def Let_def)
  qed
qed

lemma track_curtimes: "map curtime (track_events h t) = map fst (track_items h t)"
  by (simp add: track_items_def o_def)

text \<open>Appending, seen on the items and the delta times.\<close>

lemma append_mevent_items:
  assumes h: "heap_ok h" "track_ok h t" "bufs_live h t"
    and e: "evs h a = Some e" "nxt e = None" "a \<notin> set (track_addrs h t)" "buf_live h e"
    and A: "append_mevent h t a = Inr (h', t')"
  shows "track_items h' t' = track_items h t @ [(curtime e, event_body h e)]"
    and "track_deltas h' t' = track_deltas h t @
      [if track_addrs h t = [] then deltatime e else curtime e - last (map curtime (track_events h t))]"
    and "bufs_live h' t'"
proof -
  let ?as = "track_addrs h t @ [a]"
  from append_mevent_ok [OF h(1,2) e(1-3)] A have A':
    "track_addrs h' t' = ?as" "bufs h' = bufs h"
    "map (\<lambda>x. (curtime (event_at h' x), event_data (event_at h' x))) ?as
      = map (\<lambda>x. (curtime (event_at h x), event_data (event_at h x))) ?as"
    "map deltatime (track_events h' t') = map deltatime (track_events h t) @
        [if track_addrs h t = [] then deltatime e
         else curtime e - curtime (event_at h (last (track_addrs h t)))]"
    by auto
  have core: "curtime (event_at h' x) = curtime (event_at h x)"
    "event_data (event_at h' x) = event_data (event_at h x)" if "x \<in> set ?as" for x
    using A'(3) that by (auto simp: map_eq_conv)
  have body: "event_body h' (event_at h' x) = event_body h (event_at h x)"
    "buf_live h' (event_at h' x) = buf_live h (event_at h x)" if "x \<in> set ?as" for x
    by (rule body_cong [OF core(2) [OF that] A'(2)])+
  have eva: "event_at h a = e" using e(1) by (simp add: event_at_def)
  have "track_items h' t' = map (\<lambda>x. (curtime (event_at h x), event_body h (event_at h x))) ?as"
    unfolding track_items_def track_events_def A'(1) map_map o_def
    by (rule map_cong) (auto simp: core body)
  then show "track_items h' t' = track_items h t @ [(curtime e, event_body h e)]"
    using eva by (simp add: track_items_def track_events_def o_def)
  show "track_deltas h' t' = track_deltas h t @
      [if track_addrs h t = [] then deltatime e else curtime e - last (map curtime (track_events h t))]"
    unfolding track_deltas_def A'(4) by (simp add: track_events_def last_map)
  show "bufs_live h' t'"
    using h(3) e(4) body(2) eva
    by (auto simp: bufs_live_def track_events_def A'(1) list_all_iff)
qed

lemma add_event_ok:
  assumes "building (h, t)" "new_ok v"
  shows "\<exists>h' t' a. add_event (h, t) v = Inr (h', t') \<and> building (h', t')
    \<and> track_items h' t' = track_items h t @ [new_view v]
    \<and> track_addrs h' t' = track_addrs h t @ [a] \<and> brk h \<le> a \<and> a < brk h'
    \<and> same_elsewhere (insert a (set (track_addrs h t))) h h'
    \<and> same_header t' t"
proof -
  from assms have b: "heap_ok h" "track_ok h t" "bufs_live h t" "deltas_ok h t" by auto
  from make_event_ok [OF b(1) assms(2)] obtain h1 a e where m:
    "make_event h v = Inr (h1, a)" "heap_ok h1" "evs h a = None" "brk h \<le> a" "a < brk h1"
    "evs h1 = (evs h)(a \<mapsto> e)" "nxt e = None" "deltatime e = 0" "buf_live h1 e"
    "(curtime e, event_body h1 e) = new_view v" "same_elsewhere {a} h h1" by blast
  have rep: "chain h (trk_first t) (track_addrs h t)"
    using b(2) by (auto simp: track_ok_def Let_def)
  have fresh: "a \<notin> set (track_addrs h t)"
    using chain_live [OF rep] m(3) by blast
  from track_frame [OF b(2,1) m(2,11)] track_frame_items [OF b(2,1) m(2) b(3) m(11)] fresh
  have t1: "track_ok h1 t" "track_addrs h1 t = track_addrs h t" "track_events h1 t = track_events h t"
    "track_items h1 t = track_items h t" "track_deltas h1 t = track_deltas h t" "bufs_live h1 t"
    by auto
  have ea: "evs h1 a = Some e" using m(6) by simp
  have fresh1: "a \<notin> set (track_addrs h1 t)" using fresh t1(2) by simp
  from append_mevent_ok [OF m(2) t1(1) ea m(7) fresh1] obtain h' t' where A:
    "append_mevent h1 t a = Inr (h', t')" "heap_ok h'" "track_ok h' t'"
    "track_addrs h' t' = track_addrs h1 t @ [a]"
    "same_elsewhere (insert a (set (track_addrs h1 t))) h1 h'" "brk h' = brk h1"
    "same_header t' t"
    by blast
  note I = append_mevent_items [OF m(2) t1(1,6) ea m(7) fresh1 m(9) A(1)]
  have "deltas_ok h' t'"
    using b(4) unfolding deltas_ok_def I(2) track_curtimes I(1) t1(3,4,5)
    by (cases "track_addrs h1 t = []")
       (simp_all add: m(8) t1(2) track_items_def track_events_def track_deltas_def deltas_of_snoc last_map)
  moreover have "same_elsewhere (insert a (set (track_addrs h t))) h h'"
    by (rule same_elsewhere_trans [OF m(11) A(5)]) (simp add: t1(2))
  ultimately show ?thesis
    using A m(1,4,5,10) I(1,3) t1(2,4)
    by (intro exI [of _ h'] exI [of _ t'] exI [of _ a]) simp
qed

interpretation track_list: append_list add_event "\<lambda>(h, t). track_items h t" building new_view new_ok
proof unfold_locales
  fix s :: "heap \<times> Mtrack" and v
  assume "building s" "new_ok v"
  then show "\<exists>s'. add_event s v = Inr s' \<and> building s'
      \<and> (case s' of (h, t) \<Rightarrow> track_items h t) = (case s of (h, t) \<Rightarrow> track_items h t) @ [new_view v]"
    using add_event_ok [of "fst s" "snd s" v] by (cases s) fastforce
qed

section \<open>Copying a track\<close>

fun relinked :: "ulong option \<Rightarrow> Mevent list \<Rightarrow> ulong list" where
  "relinked (Some p) es = diffs p (map curtime es)"
| "relinked None [] = []"
| "relinked None (e # es) = deltatime e # diffs (curtime e) (map curtime es)"

definition track_data :: "heap \<Rightarrow> Mtrack \<Rightarrow> Mevent_data list" where
  "track_data h t = map event_data (track_events h t)"

definition last_time :: "heap \<Rightarrow> Mtrack \<Rightarrow> ulong option" where
  "last_time h t = (if track_events h t = [] then None else Some (curtime (last (track_events h t))))"

lemma relinked_Cons:
  "relinked p (e # es) =
     (case p of None \<Rightarrow> deltatime e | Some q \<Rightarrow> curtime e - q) # relinked (Some (curtime e)) es"
  by (cases p) simp_all

definition item_at :: "heap \<Rightarrow> addr \<Rightarrow> ulong \<times> body" where
  "item_at h a = (curtime (event_at h a), event_body h (event_at h a))"

lemma track_items_at: "track_items h t = map (item_at h) (track_addrs h t)"
  by (simp add: track_items_def track_events_def item_at_def o_def)

lemma item_at_frame:
  "buf_live h (event_at h a) \<Longrightarrow> same_elsewhere A h h' \<Longrightarrow> a \<notin> A \<Longrightarrow> item_at h' a = item_at h a"
  using event_body_frame [of h "event_at h a" A h']
  by (simp add: item_at_def event_at_def) (simp add: same_elsewhere_def)

text \<open>One round of the copying loop: a fresh event with the source's content at the end of the copy.\<close>

lemma copy_step:
  assumes B: "bd_accumulator B" and h: "heap_ok h" "track_ok h copy" "bufs_live h copy"
    and a: "evs h a = Some e" "buf_live h e" "a \<notin> set (track_addrs h copy)"
  shows "\<exists>h1 c h2 copy'. Mevent_copy B h a = Inr (h1, c) \<and> append_mevent h1 copy c = Inr (h2, copy')
    \<and> heap_ok h2 \<and> track_ok h2 copy' \<and> bufs_live h2 copy'
    \<and> track_addrs h2 copy' = track_addrs h copy @ [brk h] \<and> bufs h2 = bufs h
    \<and> same_elsewhere (insert (brk h) (set (track_addrs h copy))) h h2
    \<and> track_items h2 copy' = track_items h copy @ [item_at h a]
    \<and> track_deltas h2 copy' = track_deltas h copy @ relinked (last_time h copy) [e]
    \<and> track_data h2 copy' = track_data h copy @ [event_data e]
    \<and> last_time h2 copy' = Some (curtime e)
    \<and> same_header copy' copy"
proof -
  let ?e = "e\<lparr>nxt := None\<rparr>"
  let ?h1 = "fst (alloc_event h ?e)" and ?c = "brk h"
  have mc: "Mevent_copy B h a = Inr (?h1, ?c)"
    using B a(1) by (simp add: Mevent_copy_def get_event_def alloc_event_def)
  have h1: "heap_ok ?h1" using h(1) by blast
  have free: "evs h ?c = None" using h(1) by (simp add: heap_ok_def)
  have fr1: "same_elsewhere {?c} h ?h1"
    by (auto simp: same_elsewhere_def alloc_event_def)
  have ec: "evs ?h1 ?c = Some ?e" by (simp add: alloc_event_def)
  have live: "buf_live ?h1 ?e" and bodyc: "event_body ?h1 ?e = event_body h e"
    using a(2) body_cong [of ?e e ?h1 h] by (simp_all add: alloc_event_def)
  have "chain h (trk_first copy) (track_addrs h copy)"
    using h(2) by (auto simp: track_ok_def Let_def)
  then have fresh: "?c \<notin> set (track_addrs h copy)" using chain_live free by blast
  from track_frame [OF h(2,1) h1 fr1] track_frame_items [OF h(2,1) h1 h(3) fr1] fresh
  have t1: "track_ok ?h1 copy" "track_addrs ?h1 copy = track_addrs h copy"
    "track_events ?h1 copy = track_events h copy" "track_items ?h1 copy = track_items h copy"
    "track_deltas ?h1 copy = track_deltas h copy" "bufs_live ?h1 copy" by auto
  have fresh1: "?c \<notin> set (track_addrs ?h1 copy)" using fresh t1(2) by simp
  have nx: "nxt ?e = None" by simp
  from append_mevent_ok [OF h1 t1(1) ec nx fresh1] obtain h2 copy' where A:
    "append_mevent ?h1 copy ?c = Inr (h2, copy')"
    "map (\<lambda>x. (curtime (event_at h2 x), event_data (event_at h2 x))) (track_addrs ?h1 copy @ [?c])
      = map (\<lambda>x. (curtime (event_at ?h1 x), event_data (event_at ?h1 x))) (track_addrs ?h1 copy @ [?c])"
    "heap_ok h2" "track_ok h2 copy'"
    "track_addrs h2 copy' = track_addrs ?h1 copy @ [?c]"
    "same_elsewhere (insert ?c (set (track_addrs ?h1 copy))) ?h1 h2" "bufs h2 = bufs ?h1"
    "same_header copy' copy"
    by blast
  note I = append_mevent_items [OF h1 t1(1,6) ec nx fresh1 live A(1)]
  have item: "item_at h a = (curtime e, event_body h e)"
    using a(1) by (simp add: item_at_def event_at_def)
  have "map fst (track_items h2 copy') = map fst (track_items h copy) @ [curtime e]"
    using I(1) t1(4) by simp
  then have lt: "last_time h2 copy' = Some (curtime e)"
    unfolding track_curtimes [symmetric] last_time_def
    by (metis last_map last_snoc map_is_Nil_conv snoc_eq_iff_butlast)
  have fr: "same_elsewhere (insert ?c (set (track_addrs h copy))) h h2"
    by (rule same_elsewhere_trans [OF fr1 A(6)]) (simp add: t1(2))
  have "map (snd \<circ> (\<lambda>x. (curtime (event_at h2 x), event_data (event_at h2 x)))) (track_addrs ?h1 copy @ [?c])
      = map (snd \<circ> (\<lambda>x. (curtime (event_at ?h1 x), event_data (event_at ?h1 x)))) (track_addrs ?h1 copy @ [?c])"
    using arg_cong [OF A(2), of "map snd"] by (simp only: map_map)
  then have "track_data h2 copy' = map (event_data \<circ> event_at ?h1) (track_addrs ?h1 copy @ [?c])"
    by (simp add: track_data_def track_events_def A(5) o_def)
  also have "\<dots> = track_data ?h1 copy @ [event_data e]"
    using ec by (simp add: track_data_def track_events_def event_at_def)
  finally have dt: "track_data h2 copy' = track_data h copy @ [event_data e]"
    by (simp add: track_data_def t1(3))
  have dl: "track_deltas h2 copy' = track_deltas h copy @ relinked (last_time h copy) [e]"
    using I(2) t1 by (auto simp: last_time_def track_events_def last_map)
  have bufs2: "bufs h2 = bufs h" using A(7) by (simp add: alloc_event_def)
  show ?thesis
    using mc A(1,3,4,8) I(1,3) t1(2,4) lt item bodyc fr dl dt bufs2 A(5)
    by (intro exI [of _ ?h1] exI [of _ ?c] exI [of _ h2] exI [of _ copy']) simp
qed

text \<open>
  The loop: every event from \<open>p\<close> on is copied to a fresh cell, the data pointer shared; the
  source list is left as it was.
\<close>

lemma copy_events_ok:
  assumes B: "bd_accumulator B" and h: "heap_ok h" "track_ok h copy" "bufs_live h copy"
    and src: "chain h p as" "list_all (\<lambda>a. buf_live h (event_at h a)) as"
      "set as \<inter> set (track_addrs h copy) = {}" and fuel: "length as \<le> fuel"
  shows "\<exists>h' copy'. copy_events B fuel h copy p = Inr (h', copy') \<and> heap_ok h' \<and> track_ok h' copy'
    \<and> bufs_live h' copy'
    \<and> track_addrs h' copy' = track_addrs h copy @ [brk h..<brk h + length as]
    \<and> bufs h' = bufs h \<and> same_elsewhere ({brk h..} \<union> set (track_addrs h copy)) h h'
    \<and> track_items h' copy' = track_items h copy @ map (item_at h) as
    \<and> track_deltas h' copy' = track_deltas h copy @ relinked (last_time h copy) (map (event_at h) as)
    \<and> track_data h' copy' = track_data h copy @ map (event_data \<circ> event_at h) as
    \<and> same_header copy' copy"
  using h src fuel
proof (induction as arbitrary: h copy p fuel)
  case Nil
  then show ?case by (cases "last_time h copy") auto
next
  case (Cons a as)
  from Cons.prems(4) obtain e where e: "evs h a = Some e" "chain h (nxt e) as" "p = Some a"
    by (auto split: option.splits)
  from Cons.prems(7) obtain f where f: "fuel = Suc f" "length as \<le> f" by (cases fuel) auto
  have ea: "event_at h a = e" using e(1) by (simp add: event_at_def)
  have live: "buf_live h e" "list_all (\<lambda>a. buf_live h (event_at h a)) as"
    using Cons.prems(5) ea by auto
  have notin: "a \<notin> set (track_addrs h copy)" using Cons.prems(6) by auto
  from copy_step [OF B Cons.prems(1-3) e(1) live(1) notin] obtain h1 c h2 copy1 where S:
    "Mevent_copy B h a = Inr (h1, c)" "append_mevent h1 copy c = Inr (h2, copy1)"
    "heap_ok h2" "track_ok h2 copy1" "bufs_live h2 copy1"
    "track_addrs h2 copy1 = track_addrs h copy @ [brk h]" "bufs h2 = bufs h"
    "same_elsewhere (insert (brk h) (set (track_addrs h copy))) h h2"
    "track_items h2 copy1 = track_items h copy @ [item_at h a]"
    "track_deltas h2 copy1 = track_deltas h copy @ relinked (last_time h copy) [e]"
    "last_time h2 copy1 = Some (curtime e)"
    "same_header copy1 copy"
    "track_data h2 copy1 = track_data h copy @ [event_data e]"
    by blast
  let ?A = "insert (brk h) (set (track_addrs h copy))"
  have below: "x < brk h" if "x \<in> set (a # as)" for x
    using chain_below [OF Cons.prems(1,4)] that by blast
  have out: "x \<notin> ?A" if "x \<in> set (a # as)" for x
    using below [OF that] that Cons.prems(6) by auto
  have same: "evs h2 x = evs h x" "event_at h2 x = event_at h x" if "x \<in> set (a # as)" for x
    using S(8) out [OF that] by (simp_all add: same_elsewhere_def event_at_def)
  have brk2: "brk h2 = Suc (brk h)"
  proof -
    have "Mevent_copy B h a = Inr (alloc_event h (e\<lparr>nxt := None\<rparr>))"
      using B e(1) by (simp add: Mevent_copy_def get_event_def)
    with S(1) have "brk h1 = Suc (brk h)" by (auto simp: alloc_event_def)
    with S(2) show ?thesis
      by (auto simp: append_mevent_def put_event_def res_iff Let_def split: if_splits option.splits)
  qed
  have chain2: "chain h2 (nxt e) as"
    using e(2) by (subst chain_frame [of as h2 h]) (auto simp: same)
  have live2: "list_all (\<lambda>a. buf_live h2 (event_at h2 a)) as"
    using live(2) S(8) by (auto simp: list_all_iff same intro: buf_live_frame)
  have "brk h \<notin> set as" "a \<notin> set (track_addrs h2 copy1)"
    using below notin below [of a] S(6) by auto
  then have disj2: "set as \<inter> set (track_addrs h2 copy1) = {}"
    using Cons.prems(6) S(6) by auto
  from Cons.IH [OF S(3-5) chain2 live2 disj2 f(2)] obtain h' copy' where R:
    "copy_events B f h2 copy1 (nxt e) = Inr (h', copy')" "heap_ok h'" "track_ok h' copy'"
    "bufs_live h' copy'"
    "track_addrs h' copy' = track_addrs h2 copy1 @ [brk h2..<brk h2 + length as]"
    "bufs h' = bufs h2" "same_elsewhere ({brk h2..} \<union> set (track_addrs h2 copy1)) h2 h'"
    "track_items h' copy' = track_items h2 copy1 @ map (item_at h2) as"
    "track_deltas h' copy' = track_deltas h2 copy1 @ relinked (last_time h2 copy1) (map (event_at h2) as)"
    "same_header copy' copy1"
    "track_data h' copy' = track_data h2 copy1 @ map (event_data \<circ> event_at h2) as"
    by blast
  have items: "map (item_at h2) as = map (item_at h) as"
    using live(2) S(8) out by (auto simp: list_all_iff intro!: item_at_frame)
  have events: "map (event_at h2) as = map (event_at h) as"
    by (simp add: same)
  have data: "map (event_data \<circ> event_at h2) as = map (event_data \<circ> event_at h) as"
    by (simp add: same)
  have run: "copy_events B fuel h copy p = Inr (h', copy')"
    using f(1) e(3) S(1,2) R(1) same(1) [of a] e(1) by (simp add: get_event_def)
  have fr: "same_elsewhere ({brk h..} \<union> set (track_addrs h copy)) h h'"
    by (rule same_elsewhere_trans [OF S(8) R(7)]) (auto simp: S(6) brk2)
  have strs: "same_header copy' copy"
    using R(10) S(12) by (rule same_header_trans)
  have addrs: "track_addrs h' copy' = track_addrs h copy @ [brk h..<brk h + length (a # as)]"
    using R(5) S(6) by (simp add: brk2 upt_conv_Cons del: upt_Suc)
  show ?case
    using run R(2-4) addrs R(6) S(7) fr R(8) S(9) items R(9,11) S(10,11,13) events strs data
    by (intro exI [of _ h'] exI [of _ copy']) (simp add: relinked_Cons ea)
qed


lemma Mtrack_copy_ok:
  assumes B: "bd_accumulator B" and h: "heap_ok h" "track_ok h t" "bufs_live h t"
    and n: "cstrdup (trk_name t) = Inr n" and i: "cstrdup (trk_instrument t) = Inr i"
    and x: "cstrdup (trk_text t) = Inr x"
  shows "\<exists>h' c. Mtrack_copy B h t = Inr (h', c) \<and> heap_ok h' \<and> track_ok h' c \<and> bufs_live h' c
    \<and> track_addrs h' c = [brk h..<brk h + length (track_addrs h t)]
    \<and> bufs h' = bufs h \<and> same_elsewhere {brk h..} h h'
    \<and> track_items h' c = track_items h t \<and> track_deltas h' c = relinked None (track_events h t)
    \<and> track_data h' c = track_data h t
    \<and> is_tempotrack c = is_tempotrack t \<and> trk_name c = n \<and> trk_instrument c = i \<and> trk_text c = x"
proof -
  let ?c = "new_mtrack\<lparr>trk_name := n, trk_instrument := i, trk_text := x, is_tempotrack := is_tempotrack t\<rparr>"
  have rep: "chain h (trk_first t) (track_addrs h t)" "distinct (track_addrs h t)"
    using h(2) by (auto simp: track_ok_def Let_def)
  have c: "track_ok h ?c \<and> track_addrs h ?c = []"
    by (rule track_ok_repI [OF h(1)]) (simp add: new_mtrack_def)
  then have c': "bufs_live h ?c" "track_items h ?c = []" "track_deltas h ?c = []" "last_time h ?c = None" "track_data h ?c = []"
    by (simp_all add: track_data_def bufs_live_def track_events_def track_items_def track_deltas_def last_time_def)
  have "length (track_addrs h t) \<le> Suc (brk h)"
    using chain_length [OF h(1) rep] by simp
  moreover have "list_all (\<lambda>a. buf_live h (event_at h a)) (track_addrs h t)"
    using h(3) by (simp add: bufs_live_def track_events_def list_all_iff)
  ultimately obtain h' c where
    "copy_events B (Suc (brk h)) h ?c (trk_first t) = Inr (h', c)" "heap_ok h'" "track_ok h' c"
    "bufs_live h' c" "track_addrs h' c = [brk h..<brk h + length (track_addrs h t)]"
    "bufs h' = bufs h" "same_elsewhere {brk h..} h h'"
    "track_items h' c = map (item_at h) (track_addrs h t)"
    "track_deltas h' c = relinked None (map (event_at h) (track_addrs h t))" "same_header c ?c"
    "track_data h' c = map (event_data \<circ> event_at h) (track_addrs h t)"
    using copy_events_ok [OF B h(1) conjunct1 [OF c] c'(1) rep(1), of "Suc (brk h)"] c c' by auto
  then show ?thesis
    using n i x
    by (auto simp: Mtrack_copy_def track_items_at track_events_def track_data_def same_header_def)
qed

section \<open>Freeing a track\<close>

definition event_bufs :: "heap \<Rightarrow> addr \<Rightarrow> addr list" where
  "event_bufs h a = (case data_ptr (event_at h a) of None \<Rightarrow> [] | Some b \<Rightarrow> [b])"

definition track_bufs :: "heap \<Rightarrow> Mtrack \<Rightarrow> addr list" where
  "track_bufs h t = concat (map (event_bufs h) (track_addrs h t))"

text \<open>The store without the events at \<open>A\<close> and the buffers at \<open>B\<close>.\<close>

definition without :: "addr set \<Rightarrow> addr set \<Rightarrow> heap \<Rightarrow> heap" where
  "without A B h = h\<lparr>evs := (\<lambda>x. if x \<in> A then None else evs h x),
                    bufs := (\<lambda>x. if x \<in> B then None else bufs h x)\<rparr>"

lemma without_without: "without A B (without A' B' h) = without (A \<union> A') (B \<union> B') h"
  by (auto simp: without_def fun_eq_iff)

lemma free_Mevent_ok:
  assumes "evs h a = Some e" "buf_live h e"
  shows "free_Mevent h a = Inr (without {a} (set (event_bufs h a)) h)"
proof -
  have "event_at h a = e" using assms(1) by (simp add: event_at_def)
  with assms show ?thesis
    by (auto simp: free_Mevent_def get_event_def event_bufs_def data_ptr_def buf_live_def free_buf_def
        free_event_cell_def without_def fun_upd_def intro!: heap.equality
        split: Mevent_data.splits option.splits)
qed

lemma free_events_ok:
  assumes "chain h p as" "distinct as" "list_all (\<lambda>a. buf_live h (event_at h a)) as"
    and "distinct (concat (map (event_bufs h) as))" and "length as \<le> fuel"
  shows "free_events fuel h p = Inr (without (set as) (set (concat (map (event_bufs h) as))) h)"
  using assms
proof (induction as arbitrary: h p fuel)
  case Nil
  then show ?case by (simp add: without_def)
next
  case (Cons a as)
  from Cons.prems(1) obtain e where e: "evs h a = Some e" "chain h (nxt e) as" "p = Some a"
    by (auto split: option.splits)
  from Cons.prems(5) obtain f where f: "fuel = Suc f" "length as \<le> f" by (cases fuel) auto
  have ea: "event_at h a = e" using e(1) by (simp add: event_at_def)
  let ?h1 = "without {a} (set (event_bufs h a)) h"
  have fe: "free_Mevent h a = Inr ?h1"
    using Cons.prems(3) ea by (intro free_Mevent_ok [OF e(1)]) simp
  have ev: "evs ?h1 x = evs h x" "event_at ?h1 x = event_at h x" "event_bufs ?h1 x = event_bufs h x"
    if "x \<in> set as" for x
    using that Cons.prems(2) by (auto simp: without_def event_at_def event_bufs_def)
  have "chain ?h1 (nxt e) as"
    using e(2) by (subst chain_frame [of as ?h1 h]) (auto simp: ev)
  moreover have "list_all (\<lambda>a. buf_live ?h1 (event_at ?h1 a)) as"
  proof -
    have "buf_live ?h1 (event_at h x)" if "x \<in> set as" for x
      using that Cons.prems(3,4)
      by (auto simp: list_all_iff buf_live_def without_def event_bufs_def split: option.splits)
    then show ?thesis by (simp add: list_all_iff ev)
  qed
  moreover have bufs_eq: "map (event_bufs ?h1) as = map (event_bufs h) as"
    by (simp add: ev)
  moreover have "distinct (concat (map (event_bufs ?h1) as))"
    using Cons.prems(4) by (simp only: bufs_eq) simp
  ultimately have "free_events f ?h1 (nxt e)
      = Inr (without (set as) (set (concat (map (event_bufs h) as))) ?h1)"
    using Cons.IH [of ?h1 "nxt e" f] Cons.prems(2) f(2) by simp
  then show ?case
    using f(1) e(1,3) fe by (simp add: get_event_def without_without Un_commute)
qed


definition track_owned :: "heap \<Rightarrow> Mtrack \<Rightarrow> bool" where
  "track_owned h t \<longleftrightarrow> heap_ok h \<and> track_ok h t \<and> bufs_live h t \<and> distinct (track_bufs h t)"

lemma free_Mtrack_ok:
  assumes "track_owned h t"
  shows "free_Mtrack h t = Inr (without (set (track_addrs h t)) (set (track_bufs h t)) h)"
proof -
  have rep: "chain h (trk_first t) (track_addrs h t)" "distinct (track_addrs h t)" "heap_ok h"
    using assms by (auto simp: track_owned_def track_ok_def Let_def)
  have "length (track_addrs h t) \<le> Suc (brk h)"
    using chain_length [OF rep(3,1,2)] by simp
  with assms rep show ?thesis
    unfolding free_Mtrack_def track_bufs_def
    by (intro free_events_ok) (auto simp: track_owned_def track_bufs_def bufs_live_def track_events_def list_all_iff)
qed

text \<open>Freeing a list whose buffers have been freed already.\<close>

lemma free_events_dangling:
  assumes "chain h p as" "distinct as" "length as \<le> fuel"
    and "\<And>a b. a \<in> set as \<Longrightarrow> data_ptr (event_at h a) = Some b \<Longrightarrow> bufs h b = None"
    and "\<exists>a \<in> set as. data_ptr (event_at h a) \<noteq> None"
  shows "free_events fuel h p = Inl Double_Free"
  using assms
proof (induction as arbitrary: h p fuel)
  case Nil
  then show ?case by simp
next
  case (Cons a as)
  from Cons.prems(1) obtain e where e: "evs h a = Some e" "chain h (nxt e) as" "p = Some a"
    by (auto split: option.splits)
  from Cons.prems(3) obtain f where f: "fuel = Suc f" "length as \<le> f" by (cases fuel) auto
  have ea: "event_at h a = e" using e(1) by (simp add: event_at_def)
  show ?case
  proof (cases "data_ptr e")
    case (Some b)
    then have "bufs h b = None" using Cons.prems(4) [of a b] ea by simp
    with Some have "free_Mevent h a = Inl Double_Free"
      using e(1) by (auto simp: free_Mevent_def get_event_def data_ptr_def free_buf_def
          split: Mevent_data.splits)
    then show ?thesis using f e by (simp add: get_event_def)
  next
    case None
    let ?h1 = "without {a} (set (event_bufs h a)) h"
    have fe: "free_Mevent h a = Inr ?h1"
      using None by (intro free_Mevent_ok [OF e(1)]) (simp add: buf_live_def)
    have ev: "evs ?h1 x = evs h x" "event_at ?h1 x = event_at h x" if "x \<in> set as" for x
      using that Cons.prems(2) by (auto simp: without_def event_at_def)
    have "chain ?h1 (nxt e) as"
      using e(2) by (subst chain_frame [of as ?h1 h]) (auto simp: ev)
    moreover have "\<exists>x \<in> set as. data_ptr (event_at ?h1 x) \<noteq> None"
      using Cons.prems(5) None ea ev(2) by auto
    moreover have "bufs ?h1 b = None" if "x \<in> set as" "data_ptr (event_at ?h1 x) = Some b" for x b
      using that Cons.prems(4) [of x b] ev(2) by (simp add: without_def)
    ultimately have "free_events f ?h1 (nxt e) = Inl Double_Free"
      using Cons.prems(2) f(2) by (intro Cons.IH) auto
    then show ?thesis using f(1) e(1,3) fe by (simp add: get_event_def)
  qed
qed

fun data_bufs :: "Mevent_data \<Rightarrow> addr list" where
  "data_bufs (MEVENT_REG _) = []"
| "data_bufs (MEVENT_SYSEX s) = (case sx_msg s of None \<Rightarrow> [] | Some b \<Rightarrow> [b])"
| "data_bufs (MEVENT_META m) = (case mt_data m of None \<Rightarrow> [] | Some b \<Rightarrow> [b])"

lemma track_bufs_data: "track_bufs h t = concat (map data_bufs (track_data h t))"
  unfolding track_bufs_def track_data_def track_events_def map_map
  by (rule arg_cong [where f = concat], rule map_cong)
     (auto simp: event_bufs_def data_ptr_def split: Mevent_data.splits)

text \<open>A copy has events of its own and the data of the original, which is left as it was.\<close>

lemma Mtrack_copy_shares:
  assumes B: "bd_accumulator B" and t: "track_owned h t" and copy: "Mtrack_copy B h t = Inr (h1, c)"
  shows "heap_ok h1" "track_ok h1 c" "track_owned h1 t" "track_addrs h1 t = track_addrs h t"
    "track_bufs h1 t = track_bufs h t" "track_bufs h1 c = track_bufs h t"
    "set (track_addrs h1 c) \<inter> set (track_addrs h t) = {}"
proof -
  have h: "heap_ok h" "track_ok h t" "bufs_live h t" using t by (auto simp: track_owned_def)
  from copy obtain n i x where strs: "cstrdup (trk_name t) = Inr n"
    "cstrdup (trk_instrument t) = Inr i" "cstrdup (trk_text t) = Inr x"
    by (auto simp: Mtrack_copy_def res_iff)
  from Mtrack_copy_ok [OF B h strs] copy have C: "heap_ok h1" "track_ok h1 c" "bufs_live h1 c"
    "track_addrs h1 c = [brk h..<brk h + length (track_addrs h t)]" "bufs h1 = bufs h"
    "same_elsewhere {brk h..} h h1" "track_data h1 c = track_data h t" by auto
  have rep: "chain h (trk_first t) (track_addrs h t)" using h(2) by (auto simp: track_ok_def Let_def)
  have disj: "set (track_addrs h t) \<inter> {brk h..} = {}"
    using chain_below [OF h(1) rep] by force
  from track_frame [OF h(2,1) C(1,6) disj] track_frame_items(3) [OF h(2,1) C(1) h(3) C(6) disj]
  have t1: "track_ok h1 t" "track_addrs h1 t = track_addrs h t" "track_events h1 t = track_events h t"
    "bufs_live h1 t" by auto
  show "heap_ok h1" "track_ok h1 c" "track_addrs h1 t = track_addrs h t" by fact+
  show b: "track_bufs h1 t = track_bufs h t" and "track_bufs h1 c = track_bufs h t"
    unfolding track_bufs_data C(7) by (simp_all add: track_data_def t1(3))
  then show "track_owned h1 t" using t C(1) t1 by (simp add: track_owned_def)
  show "set (track_addrs h1 c) \<inter> set (track_addrs h t) = {}" using disj C(4) by auto
qed

lemma copy_free_both:
  assumes B: "bd_accumulator B" and t: "track_owned h t" "track_bufs h t \<noteq> []"
    and copy: "Mtrack_copy B h t = Inr (h1, c)" and free: "free_Mtrack h1 t = Inr h2"
  shows "free_Mtrack h2 c = Inl Double_Free"
proof -
  note C = Mtrack_copy_shares [OF B t(1) copy]
  from free_Mtrack_ok [OF C(3)] free have h2: "h2 = without (set (track_addrs h t)) (set (track_bufs h t)) h1"
    by (simp add: C)
  let ?cs = "track_addrs h1 c"
  have repc: "chain h1 (trk_first c) ?cs" "distinct ?cs" using C(2) by (auto simp: track_ok_def Let_def)
  have sep: "x \<notin> set (track_addrs h t)" if "x \<in> set ?cs" for x
    using that C(7) by auto
  have ev: "evs h2 x = evs h1 x" "event_at h2 x = event_at h1 x" if "x \<in> set ?cs" for x
    using sep [OF that] by (simp_all add: h2 without_def event_at_def)
  have "chain h2 (trk_first c) ?cs"
    using repc(1) by (subst chain_frame [of _ h2 h1]) (auto simp: ev)
  moreover have "length ?cs \<le> Suc (brk h2)"
    using chain_length [OF C(1) repc] by (simp add: h2 without_def)
  moreover have "\<And>a b. a \<in> set ?cs \<Longrightarrow> data_ptr (event_at h2 a) = Some b \<Longrightarrow> bufs h2 b = None"
  proof -
    fix a b assume a: "a \<in> set ?cs" "data_ptr (event_at h2 a) = Some b"
    then have "b \<in> set (track_bufs h1 c)"
      using ev(2) [OF a(1)] by (auto simp: track_bufs_def event_bufs_def intro!: bexI [of _ a])
    then show "bufs h2 b = None" by (simp add: h2 without_def C(6))
  qed
  moreover have "\<exists>a \<in> set ?cs. data_ptr (event_at h2 a) \<noteq> None"
  proof -
    from t(2) C(6) have "track_bufs h1 c \<noteq> []" by simp
    then show ?thesis using ev(2)
      by (fastforce simp: track_bufs_def event_bufs_def split: option.splits)
  qed
  ultimately show ?thesis
    unfolding free_Mtrack_def using repc(2) by (intro free_events_dangling)
qed

end
