(* ===== verification/Mf_Read.thy ===== *)
theory Mf_Read
  imports Midi
begin

text \<open>
  The reading half of \<open>server/midifile.c\<close>: the parser of Standard MIDI Files that calls the
  functions bound to its \<open>Mf_\<close> pointers. It is polymorphic in the state \<open>'s\<close> those functions
  work on; every call of \<open>exit\<close> is a value of the result type, and every loop is shown to end
  because it consumes input.
\<close>

section \<open>The state of the parser\<close>

text \<open>
  \<open>inp\<close>: the bytes \<open>Mf_getc\<close> has still to deliver. \<open>Msgbuff\<close> is the message buffer with its
  allocated size as length, \<open>Msgindex\<close> the fill. \<open>malloc_max\<close> is the largest message buffer
  \<open>malloc\<close> grants and \<open>junk\<close> the contents of fresh memory: facts about the allocator that no
  theorem fixes. \<open>left_first\<close> is the build's order of evaluation of operands.
\<close>

record rd =
  inp :: "byte list"
  Mf_toberead :: int
  Mf_currtime :: int
  Mf_nomerge :: int
  Msgbuff :: "byte list"
  Msgindex :: nat
  malloc_max :: nat
  junk :: "nat \<Rightarrow> byte"
  left_first :: bool

text \<open>
  The functions to be called while reading; \<open>None\<close> is \<open>NULLFUNC\<close>. Handlers of events get the
  current time (the global \<open>Mf_currtime\<close>) as their first argument. \<open>Mf_getc_set\<close> tells whether
  \<open>Mf_getc\<close> is bound.
\<close>

type_synonym 's handler = "'s \<Rightarrow> 's res"

record 's mf_handlers =
  Mf_getc_set :: bool
  Mf_error :: "(string \<Rightarrow> fault) option"
  Mf_header :: "(int \<Rightarrow> int \<Rightarrow> int \<Rightarrow> 's handler) option"
  Mf_trackstart :: "'s handler option"
  Mf_trackend :: "'s handler option"
  Mf_noteon :: "(int \<Rightarrow> int \<Rightarrow> int \<Rightarrow> int \<Rightarrow> 's handler) option"
  Mf_noteoff :: "(int \<Rightarrow> int \<Rightarrow> int \<Rightarrow> int \<Rightarrow> 's handler) option"
  Mf_pressure :: "(int \<Rightarrow> int \<Rightarrow> int \<Rightarrow> int \<Rightarrow> 's handler) option"
  Mf_parameter :: "(int \<Rightarrow> int \<Rightarrow> int \<Rightarrow> int \<Rightarrow> 's handler) option"
  Mf_pitchbend :: "(int \<Rightarrow> int \<Rightarrow> int \<Rightarrow> int \<Rightarrow> 's handler) option"
  Mf_program :: "(int \<Rightarrow> int \<Rightarrow> int \<Rightarrow> 's handler) option"
  Mf_chanpressure :: "(int \<Rightarrow> int \<Rightarrow> int \<Rightarrow> 's handler) option"
  Mf_sysex :: "(int \<Rightarrow> int \<Rightarrow> byte list \<Rightarrow> 's handler) option"
  Mf_arbitrary :: "(int \<Rightarrow> int \<Rightarrow> byte list \<Rightarrow> 's handler) option"
  Mf_metamisc :: "(int \<Rightarrow> int \<Rightarrow> int \<Rightarrow> byte list \<Rightarrow> 's handler) option"
  Mf_seqnum :: "(int \<Rightarrow> int \<Rightarrow> 's handler) option"
  Mf_eot :: "(int \<Rightarrow> 's handler) option"
  Mf_smpte :: "(int \<Rightarrow> int \<Rightarrow> int \<Rightarrow> int \<Rightarrow> int \<Rightarrow> int \<Rightarrow> 's handler) option"
  Mf_tempo :: "(int \<Rightarrow> int \<Rightarrow> 's handler) option"
  Mf_timesig :: "(int \<Rightarrow> int \<Rightarrow> int \<Rightarrow> int \<Rightarrow> int \<Rightarrow> 's handler) option"
  Mf_keysig :: "(int \<Rightarrow> int \<Rightarrow> int \<Rightarrow> 's handler) option"
  Mf_seqspecific :: "(int \<Rightarrow> int \<Rightarrow> byte list \<Rightarrow> 's handler) option"
  Mf_text :: "(int \<Rightarrow> int \<Rightarrow> int \<Rightarrow> byte list \<Rightarrow> 's handler) option"
  My_seqnum :: "(int \<Rightarrow> byte list \<Rightarrow> 's handler) option"
  My_tempo :: "(int \<Rightarrow> byte list \<Rightarrow> 's handler) option"
  My_smpte :: "(int \<Rightarrow> byte list \<Rightarrow> 's handler) option"
  My_timesig :: "(int \<Rightarrow> byte list \<Rightarrow> 's handler) option"
  My_keysig :: "(int \<Rightarrow> byte list \<Rightarrow> 's handler) option"

definition call :: "('f \<Rightarrow> 's handler) \<Rightarrow> 'f option \<Rightarrow> 's handler" where
  "call args f s = (case f of None \<Rightarrow> Inr s | Some g \<Rightarrow> args g s)"

lemma call_simps [simp]: "call args None s = Inr s" "call args (Some g) s = args g s"
  by (simp_all add: call_def)

text \<open>\<open>mferror\<close> reports through \<open>Mf_error\<close> (which may itself end the process) and exits.\<close>

definition mferror :: "(string \<Rightarrow> fault) option \<Rightarrow> string \<Rightarrow> 'a res" where
  "mferror f msg = Inl (case f of None \<Rightarrow> Exit 1 [] | Some g \<Rightarrow> g msg)"

lemma mferror_Inr [simp]: "mferror f msg \<noteq> Inr x"
  by (simp add: mferror_def)

section \<open>Characters and numbers\<close>

definition egetc :: "'s mf_handlers \<Rightarrow> rd \<Rightarrow> (int \<times> rd) res" where
  "egetc H r = (case inp r of
      [] \<Rightarrow> mferror (Mf_error H) ''premature EOF''
    | b # bs \<Rightarrow> Inr (uint b, r\<lparr>inp := bs, Mf_toberead := Mf_toberead r - 1\<rparr>))"

definition to32bit :: "int \<Rightarrow> int \<Rightarrow> int \<Rightarrow> int \<Rightarrow> int" where
  "to32bit c1 c2 c3 c4 =
     (let v1 = c1 AND 0xff; v2 = push_bit 8 v1 + (c2 AND 0xff); v3 = push_bit 8 v2 + (c3 AND 0xff)
      in push_bit 8 v3 + (c4 AND 0xff))"

definition to16bit :: "int \<Rightarrow> int \<Rightarrow> int" where
  "to16bit c1 c2 = push_bit 8 (c1 AND 0xff) + (c2 AND 0xff)"

definition read32bit :: "'s mf_handlers \<Rightarrow> rd \<Rightarrow> (int \<times> rd) res" where
  "read32bit H r =
     andThen (egetc H r) (\<lambda>(c1, r1). andThen (egetc H r1) (\<lambda>(c2, r2).
     andThen (egetc H r2) (\<lambda>(c3, r3). andThen (egetc H r3) (\<lambda>(c4, r4).
       Inr (to32bit c1 c2 c3 c4, r4)))))"

definition read16bit :: "'s mf_handlers \<Rightarrow> rd \<Rightarrow> (int \<times> rd) res" where
  "read16bit H r =
     andThen (egetc H r) (\<lambda>(c1, r1). andThen (egetc H r1) (\<lambda>(c2, r2). Inr (to16bit c1 c2, r2)))"

lemma egetc_shorter: "egetc H r = Inr (c, r') \<Longrightarrow> length (inp r) = Suc (length (inp r'))"
  by (auto simp: egetc_def split: list.splits)

text \<open>The loop of \<open>readvarinum\<close>: seven bits per byte while the top bit is set.\<close>

function varinum_loop :: "'s mf_handlers \<Rightarrow> int \<Rightarrow> rd \<Rightarrow> (int \<times> rd) res" where
  "varinum_loop H value r =
     andThen (egetc H r) (\<lambda>(c, r1).
       let v = s64 (push_bit 7 value + (c AND 0x7f))
       in if c AND 0x80 \<noteq> 0 then varinum_loop H v r1 else Inr (v, r1))"
  by pat_completeness auto
termination
  by (relation "measure (\<lambda>(H, v, r). length (inp r))") (auto dest: egetc_shorter)

declare varinum_loop.simps [simp del]

definition readvarinum :: "'s mf_handlers \<Rightarrow> rd \<Rightarrow> (int \<times> rd) res" where
  "readvarinum H r =
     andThen (egetc H r) (\<lambda>(c, r1).
       if c AND 0x80 \<noteq> 0 then varinum_loop H (c AND 0x7f) r1 else Inr (c, r1))"

text \<open>\<open>readmt\<close>: reads through a four-character chunk type; \<open>EOF\<close> at the end of the file.\<close>

fun readmt_loop :: "'s mf_handlers \<Rightarrow> string \<Rightarrow> string \<Rightarrow> int \<Rightarrow> rd \<Rightarrow> (int \<times> rd) res" where
  "readmt_loop H s [] c r = Inr (c, r)"
| "readmt_loop H s (p # ps) c r = (case inp r of
      [] \<Rightarrow> Inr (EOF_c, r)
    | b # bs \<Rightarrow>
        if uint b \<noteq> int (of_char p) then mferror (Mf_error H) (''expecting '' @ s)
        else readmt_loop H s ps (uint b) (r\<lparr>inp := bs\<rparr>))"

definition readmt :: "'s mf_handlers \<Rightarrow> string \<Rightarrow> rd \<Rightarrow> (int \<times> rd) res" where
  "readmt H s r = readmt_loop H s s 0 r"

section \<open>The message buffer\<close>

definition MSGINCREMENT :: nat where
  "MSGINCREMENT = 128"

definition biggermsg :: "'s mf_handlers \<Rightarrow> rd \<Rightarrow> rd res" where
  "biggermsg H r =
     (let old = length (Msgbuff r); size' = old + MSGINCREMENT
      in if malloc_max r < size' then mferror (Mf_error H) ''malloc error!''
         else Inr (r\<lparr>Msgbuff := Msgbuff r @ map (junk r) [old..<size']\<rparr>))"

definition msginit :: "rd \<Rightarrow> rd" where
  "msginit r = r\<lparr>Msgindex := 0\<rparr>"

definition msgadd :: "'s mf_handlers \<Rightarrow> int \<Rightarrow> rd \<Rightarrow> rd res" where
  "msgadd H c r =
     andThen (if length (Msgbuff r) \<le> Msgindex r then biggermsg H r else Inr r) (\<lambda>r1.
       Inr (r1\<lparr>Msgbuff := (Msgbuff r1)[Msgindex r1 := word_of_int c], Msgindex := Suc (Msgindex r1)\<rparr>))"

lemma msgadd_inp: "msgadd H c r = Inr r' \<Longrightarrow> inp r' = inp r"
  by (auto simp: msgadd_def biggermsg_def Let_def res_iff split: if_splits)

text \<open>The loop \<open>while (Mf_toberead > lookfor) msgadd (c = egetc ())\<close>; gives the last \<open>c\<close>.\<close>

function collect :: "'s mf_handlers \<Rightarrow> int \<Rightarrow> int \<Rightarrow> rd \<Rightarrow> (int \<times> rd) res" where
  "collect H lookfor c r =
     (if Mf_toberead r > lookfor
      then andThen (egetc H r) (\<lambda>(c', r1). andThen (msgadd H c' r1) (\<lambda>r2. collect H lookfor c' r2))
      else Inr (c, r))"
  by pat_completeness auto
termination
  by (relation "measure (\<lambda>(H, l, c, r). length (inp r))") (auto dest!: egetc_shorter msgadd_inp)

declare collect.simps [simp del]

section \<open>Dispatch to the handlers\<close>

definition chanmessage :: "'s mf_handlers \<Rightarrow> int \<Rightarrow> int \<Rightarrow> int \<Rightarrow> int \<Rightarrow> 's handler" where
  "chanmessage H t status c1 c2 s =
     (let chan = status AND 0xf; k = status AND 0xf0
      in if k = 0x80 then call (\<lambda>g. g t chan c1 c2) (Mf_noteoff H) s
         else if k = 0x90 then call (\<lambda>g. g t chan c1 c2) (Mf_noteon H) s
         else if k = 0xa0 then call (\<lambda>g. g t chan c1 c2) (Mf_pressure H) s
         else if k = 0xb0 then call (\<lambda>g. g t chan c1 c2) (Mf_parameter H) s
         else if k = 0xe0 then call (\<lambda>g. g t chan c1 c2) (Mf_pitchbend H) s
         else if k = 0xc0 then call (\<lambda>g. g t chan c1) (Mf_program H) s
         else if k = 0xd0 then call (\<lambda>g. g t chan c1) (Mf_chanpressure H) s
         else Inr s)"

text \<open>
  \<open>metaevent\<close>: the unpacking handlers (\<open>Mf_seqnum\<close>, \<dots>) read fixed positions of the message
  buffer, the packed ones (\<open>My_seqnum\<close>, \<dots>) get the buffer itself.
\<close>

definition with_msg :: "nat \<Rightarrow> byte list \<Rightarrow> 'f option \<Rightarrow> (byte list \<Rightarrow> 'f \<Rightarrow> 's handler) \<Rightarrow> 's handler" where
  "with_msg n m f args s =
     (case f of None \<Rightarrow> Inr s | Some g \<Rightarrow> andThen (read_buf n m) (\<lambda>bs. args bs g s))"

lemma with_msg_None [simp]: "with_msg n m None args s = Inr s"
  by (simp add: with_msg_def)

definition metaevent :: "'s mf_handlers \<Rightarrow> rd \<Rightarrow> int \<Rightarrow> 's handler" where
  "metaevent H r type s =
     (let leng = int (Msgindex r); m = Msgbuff r; t = Mf_currtime r
      in if type = 0x00 then
           andThen (with_msg 2 m (Mf_seqnum H) (\<lambda>b g. g t (to16bit (schar (b!0)) (schar (b!1)))) s)
             (call (\<lambda>g. g t m) (My_seqnum H))
         else if 0x01 \<le> type \<and> type \<le> 0x0f then call (\<lambda>g. g t type leng m) (Mf_text H) s
         else if type = 0x2f then call (\<lambda>g. g t) (Mf_eot H) s
         else if type = 0x51 then
           andThen (with_msg 3 m (Mf_tempo H)
               (\<lambda>b g. g t (to32bit 0 (schar (b!0)) (schar (b!1)) (schar (b!2)))) s)
             (call (\<lambda>g. g t m) (My_tempo H))
         else if type = 0x54 then
           andThen (with_msg 5 m (Mf_smpte H)
               (\<lambda>b g. g t (schar (b!0)) (schar (b!1)) (schar (b!2)) (schar (b!3)) (schar (b!4))) s)
             (call (\<lambda>g. g t m) (My_smpte H))
         else if type = 0x58 then
           andThen (with_msg 4 m (Mf_timesig H)
               (\<lambda>b g. g t (schar (b!0)) (schar (b!1)) (schar (b!2)) (schar (b!3))) s)
             (call (\<lambda>g. g t m) (My_timesig H))
         else if type = 0x59 then
           andThen (with_msg 2 m (Mf_keysig H) (\<lambda>b g. g t (schar (b!0)) (schar (b!1))) s)
             (call (\<lambda>g. g t m) (My_keysig H))
         else if type = 0x7f then call (\<lambda>g. g t leng m) (Mf_seqspecific H) s
         else call (\<lambda>g. g t type leng m) (Mf_metamisc H) s)"

definition sysex :: "'s mf_handlers \<Rightarrow> rd \<Rightarrow> 's handler" where
  "sysex H r s = call (\<lambda>g. g (Mf_currtime r) (int (Msgindex r)) (Msgbuff r)) (Mf_sysex H) s"

definition hex_digit :: "int \<Rightarrow> char" where
  "hex_digit n = (if n < 10 then char_of (48 + nat n) else char_of (87 + nat n))"

definition badbyte :: "'s mf_handlers \<Rightarrow> int \<Rightarrow> 'a res" where
  "badbyte H c =
     mferror (Mf_error H) (''unexpected byte: 0x'' @ [hex_digit (c div 16), hex_digit (c mod 16)])"

section \<open>Chunks\<close>

text \<open>Bytes needed by a message, indexed by the high half of its status byte.\<close>

definition chantype :: "nat list" where
  "chantype = [0, 0, 0, 0, 0, 0, 0, 0, 2, 2, 2, 2, 1, 1, 2, 0]"

text \<open>
  The three kinds of message that are not channel messages. The subtraction
  \<open>Mf_toberead - readvarinum ()\<close> of the third leaves open which operand is evaluated first.
\<close>

definition meta_message :: "'s mf_handlers \<Rightarrow> rd \<Rightarrow> 's \<Rightarrow> (rd \<times> 's) res" where
  "meta_message H r s =
     andThen (egetc H r) (\<lambda>(type, r1). andThen (readvarinum H r1) (\<lambda>(v, r2).
       let lookfor = Mf_toberead r2 - s32 v
       in andThen (collect H lookfor type (msginit r2)) (\<lambda>(c, r3).
          andThen (metaevent H r3 type s) (\<lambda>s'. Inr (r3, s')))))"

definition sysex_message :: "'s mf_handlers \<Rightarrow> rd \<Rightarrow> 's \<Rightarrow> (rd \<times> bool \<times> 's) res" where
  "sysex_message H r s =
     andThen (readvarinum H r) (\<lambda>(v, r1).
       let lookfor = Mf_toberead r1 - s32 v
       in andThen (msgadd H 0xf0 (msginit r1)) (\<lambda>r2.
          andThen (collect H lookfor 0xf0 r2) (\<lambda>(c, r3).
            if c = 0xf7 \<or> Mf_nomerge r3 = 0
            then andThen (sysex H r3 s) (\<lambda>s'. Inr (r3, False, s'))
            else Inr (r3, True, s))))"

definition continuation_message ::
  "'s mf_handlers \<Rightarrow> rd \<Rightarrow> bool \<Rightarrow> 's \<Rightarrow> (rd \<times> bool \<times> 's) res" where
  "continuation_message H r sysexcontinue s =
     andThen (readvarinum H r) (\<lambda>(v, r1).
       let lookfor = (if left_first r1 then Mf_toberead r else Mf_toberead r1) - v;
           r2 = (if sysexcontinue then r1 else msginit r1)
       in andThen (collect H lookfor 0xf7 r2) (\<lambda>(c, r3).
            if \<not> sysexcontinue then
              andThen (call (\<lambda>g. g (Mf_currtime r3) (int (Msgindex r3)) (Msgbuff r3)) (Mf_arbitrary H) s)
                (\<lambda>s'. Inr (r3, False, s'))
            else if c = 0xf7 then andThen (sysex H r3 s) (\<lambda>s'. Inr (r3, False, s'))
            else Inr (r3, True, s)))"

text \<open>One round of the event loop of \<open>readtrack\<close>; \<open>sysexcontinue\<close> and \<open>status\<close> live across rounds.\<close>

definition track_event ::
  "'s mf_handlers \<Rightarrow> rd \<Rightarrow> bool \<Rightarrow> int \<Rightarrow> 's \<Rightarrow> (rd \<times> bool \<times> int \<times> 's) res" where
  "track_event H r sysexcontinue status s =
     andThen (readvarinum H r) (\<lambda>(dt, r0).
     andThen (egetc H (r0\<lparr>Mf_currtime := s64 (Mf_currtime r0 + dt)\<rparr>)) (\<lambda>(c, r1).
       if sysexcontinue \<and> c \<noteq> 0xf7 then
         mferror (Mf_error H) ''didn't find expected continuation of a sysex''
       else if c AND 0x80 = 0 \<and> status = 0 then
         mferror (Mf_error H) ''unexpected running status''
       else
         let running = (c AND 0x80 = 0);
             status' = (if running then status else c);
             needed = chantype ! nat (drop_bit 4 status' AND 0xf)
         in if needed \<noteq> 0 then
              andThen (if running then Inr (c, r1) else egetc H r1) (\<lambda>(c1, r2).
              andThen (if needed > 1 then egetc H r2 else Inr (0, r2)) (\<lambda>(c2, r3).
              andThen (chanmessage H (Mf_currtime r3) status' c1 c2 s) (\<lambda>s'.
                Inr (r3, sysexcontinue, status', s'))))
            else if c = 0xff then
              andThen (meta_message H r1 s) (\<lambda>(r2, s'). Inr (r2, sysexcontinue, status', s'))
            else if c = 0xf0 then
              andThen (sysex_message H r1 s) (\<lambda>(r2, sc, s'). Inr (r2, sysexcontinue \<or> sc, status', s'))
            else if c = 0xf7 then
              andThen (continuation_message H r1 sysexcontinue s) (\<lambda>(r2, sc, s').
                Inr (r2, sc, status', s'))
            else badbyte H c))"

subsection \<open>Input is consumed\<close>

named_theorems consumes "how much input an operation of the parser leaves"

lemma egetc_consumes [consumes]: "egetc H r = Inr (c, r') \<Longrightarrow> length (inp r') < length (inp r)"
  by (auto dest: egetc_shorter)

lemma varinum_loop_consumes [consumes]:
  "varinum_loop H w r = Inr (v, r') \<Longrightarrow> length (inp r') < length (inp r)"
proof (induction H w r rule: varinum_loop.induct)
  case (1 H w r)
  from "1.prems" obtain c r1 where g: "egetc H r = Inr (c, r1)"
    and k: "(let v = s64 (push_bit 7 w + (c AND 0x7f))
             in if c AND 0x80 \<noteq> 0 then varinum_loop H v r1 else Inr (v, r1)) = Inr (v, r')"
    by (subst (asm) varinum_loop.simps) (auto simp: res_iff)
  show ?case
  proof (cases "c AND 0x80 \<noteq> 0")
    case True
    with k have "varinum_loop H (s64 (push_bit 7 w + (c AND 0x7f))) r1 = Inr (v, r')"
      by (simp add: Let_def)
    from "1.IH" [OF g refl refl True this] egetc_consumes [OF g] show ?thesis by simp
  next
    case False
    with k egetc_consumes [OF g] show ?thesis by (simp add: Let_def)
  qed
qed

lemma readvarinum_consumes [consumes]: "readvarinum H r = Inr (v, r') \<Longrightarrow> length (inp r') < length (inp r)"
  by (fastforce simp: readvarinum_def res_iff dest: consumes split: if_splits)

lemma read32bit_consumes [consumes]: "read32bit H r = Inr (v, r') \<Longrightarrow> length (inp r') < length (inp r)"
  by (auto simp: read32bit_def res_iff dest!: egetc_shorter)

lemma collect_consumes [consumes]: "collect H l c r = Inr (c', r') \<Longrightarrow> length (inp r') \<le> length (inp r)"
proof (induction H l c r rule: collect.induct)
  case (1 H l c r)
  show ?case
  proof (cases "Mf_toberead r > l")
    case True
    with "1.prems" obtain d r1 r2 where s: "egetc H r = Inr (d, r1)" "msgadd H d r1 = Inr r2"
      "collect H l d r2 = Inr (c', r')"
      by (subst (asm) collect.simps) (auto simp: res_iff)
    from "1.IH" [OF True s(1) refl s(2,3)] egetc_consumes [OF s(1)] msgadd_inp [OF s(2)]
    show ?thesis by simp
  next
    case False
    with "1.prems" show ?thesis by (subst (asm) collect.simps) simp
  qed
qed

lemma msginit_inp [simp]: "inp (msginit r) = inp r"
  by (simp add: msginit_def)

lemma meta_message_consumes [consumes]:
  "meta_message H r s = Inr (r', s') \<Longrightarrow> length (inp r') \<le> length (inp r)"
  by (fastforce simp: meta_message_def res_iff Let_def dest: consumes)

lemma sysex_message_consumes [consumes]:
  "sysex_message H r s = Inr (r', b, s') \<Longrightarrow> length (inp r') \<le> length (inp r)"
  by (fastforce simp: sysex_message_def res_iff Let_def dest: consumes msgadd_inp split: if_splits)

lemma continuation_message_consumes [consumes]:
  "continuation_message H r sc s = Inr (r', b, s') \<Longrightarrow> length (inp r') \<le> length (inp r)"
  by (fastforce simp: continuation_message_def res_iff Let_def dest: consumes split: if_splits)

lemma track_event_consumes [consumes]:
  assumes "track_event H r sc st s = Inr (r', sc', st', s')"
  shows "length (inp r') < length (inp r)"
proof -
  from assms obtain dt r0 where v: "readvarinum H r = Inr (dt, r0)"
    and "length (inp r') \<le> length (inp r0)"
    unfolding track_event_def
    by (auto simp: res_iff Let_def badbyte_def split: if_splits dest!: consumes)
  with readvarinum_consumes [OF v] show ?thesis by simp
qed

lemma readmt_loop_consumes:
  "readmt_loop H s ps c r = Inr (c', r') \<Longrightarrow> length (inp r') \<le> length (inp r)
     \<and> (c' \<noteq> EOF_c \<longrightarrow> ps \<noteq> [] \<longrightarrow> length (inp r') < length (inp r))"
proof (induction ps arbitrary: c r)
  case Nil
  then show ?case by simp
next
  case (Cons p ps)
  show ?case
  proof (cases "inp r")
    case Nil
    with Cons.prems show ?thesis by simp
  next
    case (Cons b bs)
    with Cons.prems have "readmt_loop H s ps (uint b) (r\<lparr>inp := bs\<rparr>) = Inr (c', r')"
      by (simp split: if_splits)
    from Cons.IH [OF this] Cons show ?thesis by auto
  qed
qed

section \<open>Track, header and file\<close>

text \<open>The event loop of \<open>readtrack\<close>: rounds while \<open>Mf_toberead > 0\<close>.\<close>

function track_loop ::
  "'s mf_handlers \<Rightarrow> rd \<Rightarrow> bool \<Rightarrow> int \<Rightarrow> 's \<Rightarrow> (rd \<times> 's) res" where
  "track_loop H r sc st s =
     (if Mf_toberead r > 0
      then andThen (track_event H r sc st s) (\<lambda>(r', sc', st', s'). track_loop H r' sc' st' s')
      else Inr (r, s))"
  by pat_completeness auto
termination
  by (relation "measure (\<lambda>(H, r, sc, st, s). length (inp r))") (auto dest: consumes)

declare track_loop.simps [simp del]

text \<open>\<open>readtrack\<close> returns 0 at the end of the file and 1 after a track.\<close>

definition readtrack :: "'s mf_handlers \<Rightarrow> rd \<Rightarrow> 's \<Rightarrow> (int \<times> rd \<times> 's) res" where
  "readtrack H r s =
     andThen (readmt H ''MTrk'' r) (\<lambda>(c, r1).
       if c = EOF_c then Inr (0, r1, s)
       else andThen (read32bit H r1) (\<lambda>(len, r2).
         let r3 = r2\<lparr>Mf_toberead := len, Mf_currtime := 0\<rparr>
         in andThen (call id (Mf_trackstart H) s) (\<lambda>s1.
            andThen (track_loop H r3 False 0 s1) (\<lambda>(r4, s2).
            andThen (call id (Mf_trackend H) s2) (\<lambda>s3. Inr (1, r4, s3))))))"

text \<open>The rest of a header longer than six bytes.\<close>

function flush_header :: "'s mf_handlers \<Rightarrow> rd \<Rightarrow> rd res" where
  "flush_header H r =
     (if Mf_toberead r > 0 then andThen (egetc H r) (\<lambda>(c, r1). flush_header H r1) else Inr r)"
  by pat_completeness auto
termination
  by (relation "measure (\<lambda>(H, r). length (inp r))") (auto dest: consumes)

declare flush_header.simps [simp del]

definition readheader :: "'s mf_handlers \<Rightarrow> rd \<Rightarrow> 's \<Rightarrow> (rd \<times> 's) res" where
  "readheader H r s =
     andThen (readmt H ''MThd'' r) (\<lambda>(c, r1).
       if c = EOF_c then Inr (r1, s)
       else andThen (read32bit H r1) (\<lambda>(len, r2).
         andThen (read16bit H (r2\<lparr>Mf_toberead := len\<rparr>)) (\<lambda>(format, r3).
         andThen (read16bit H r3) (\<lambda>(ntrks, r4).
         andThen (read16bit H r4) (\<lambda>(division, r5).
         andThen (call (\<lambda>g. g format ntrks division) (Mf_header H) s) (\<lambda>s1.
         andThen (flush_header H r5) (\<lambda>r6. Inr (r6, s1))))))))"

lemma track_loop_consumes [consumes]:
  "track_loop H r sc st s = Inr (r', s') \<Longrightarrow> length (inp r') \<le> length (inp r)"
proof (induction H r sc st s rule: track_loop.induct)
  case (1 H r sc st s)
  show ?case
  proof (cases "Mf_toberead r > 0")
    case True
    with "1.prems" obtain r1 sc1 st1 s1 where t: "track_event H r sc st s = Inr (r1, sc1, st1, s1)"
      "track_loop H r1 sc1 st1 s1 = Inr (r', s')"
      by (subst (asm) track_loop.simps) (auto simp: res_iff)
    from "1.IH" [OF True t(1) refl refl refl t(2)] track_event_consumes [OF t(1)] show ?thesis by simp
  next
    case False
    with "1.prems" show ?thesis by (subst (asm) track_loop.simps) simp
  qed
qed

lemma readtrack_consumes [consumes]:
  assumes "readtrack H r s = Inr (k, r', s')"
  shows "length (inp r') \<le> length (inp r) \<and> (k \<noteq> 0 \<longrightarrow> length (inp r') < length (inp r))"
proof -
  from assms obtain c r1 where m: "readmt H ''MTrk'' r = Inr (c, r1)"
    and "length (inp r') \<le> length (inp r1)" "k \<noteq> 0 \<longrightarrow> c \<noteq> EOF_c"
    by (fastforce simp: readtrack_def res_iff Let_def split: if_splits dest!: consumes)
  with readmt_loop_consumes [OF m [unfolded readmt_def]] show ?thesis by auto
qed

text \<open>\<open>mfread\<close>: the header, then tracks until \<open>readtrack\<close> returns 0.\<close>

function read_tracks :: "'s mf_handlers \<Rightarrow> rd \<Rightarrow> 's \<Rightarrow> (rd \<times> 's) res" where
  "read_tracks H r s =
     andThen (readtrack H r s) (\<lambda>(k, r1, s1). if k \<noteq> 0 then read_tracks H r1 s1 else Inr (r1, s1))"
  by pat_completeness auto
termination
  by (relation "measure (\<lambda>(H, r, s). length (inp r))") (auto dest: consumes)

declare read_tracks.simps [simp del]

definition mfread :: "'s mf_handlers \<Rightarrow> rd \<Rightarrow> 's \<Rightarrow> (rd \<times> 's) res" where
  "mfread H r s =
     (if \<not> Mf_getc_set H then mferror (Mf_error H) ''mfread() called without setting Mf_getc''
      else andThen (readheader H r s) (\<lambda>(r1, s1). read_tracks H r1 s1))"

definition midifile :: "'s mf_handlers \<Rightarrow> rd \<Rightarrow> 's \<Rightarrow> (rd \<times> 's) res" where
  "midifile H r s = mfread H r s"

section \<open>The byte count of a chunk\<close>

text \<open>
  Every byte taken off the input is counted in \<open>Mf_toberead\<close>: the distance between the two stays
  the same, so a track that returns has found all the bytes its chunk announced.
\<close>

definition surplus :: "rd \<Rightarrow> int" where
  "surplus r = int (length (inp r)) - Mf_toberead r"

named_theorems counted "operations that keep the surplus"

lemma egetc_counted [counted]: "egetc H r = Inr (c, r') \<Longrightarrow> surplus r' = surplus r"
  by (auto simp: egetc_def surplus_def split: list.splits)

lemma surplus_fields [simp]: "surplus (r\<lparr>Mf_currtime := t\<rparr>) = surplus r" "surplus (msginit r) = surplus r"
  by (simp_all add: surplus_def msginit_def)

lemma msgadd_counted [counted]: "msgadd H c r = Inr r' \<Longrightarrow> surplus r' = surplus r"
  by (auto simp: msgadd_def biggermsg_def surplus_def Let_def res_iff split: if_splits)

lemma varinum_loop_counted [counted]: "varinum_loop H w r = Inr (v, r') \<Longrightarrow> surplus r' = surplus r"
proof (induction H w r rule: varinum_loop.induct)
  case (1 H w r)
  from "1.prems" obtain c r1 where g: "egetc H r = Inr (c, r1)"
    and k: "(let v = s64 (push_bit 7 w + (c AND 0x7f))
             in if c AND 0x80 \<noteq> 0 then varinum_loop H v r1 else Inr (v, r1)) = Inr (v, r')"
    by (subst (asm) varinum_loop.simps) (auto simp: res_iff)
  show ?case
  proof (cases "c AND 0x80 \<noteq> 0")
    case True
    with k have "varinum_loop H (s64 (push_bit 7 w + (c AND 0x7f))) r1 = Inr (v, r')" by (simp add: Let_def)
    from "1.IH" [OF g refl refl True this] egetc_counted [OF g] show ?thesis by simp
  next
    case False
    with k egetc_counted [OF g] show ?thesis by (simp add: Let_def)
  qed
qed

lemma readvarinum_counted [counted]: "readvarinum H r = Inr (v, r') \<Longrightarrow> surplus r' = surplus r"
  by (auto simp: readvarinum_def res_iff dest!: counted split: if_splits)

lemma collect_counted [counted]: "collect H l c r = Inr (c', r') \<Longrightarrow> surplus r' = surplus r"
proof (induction H l c r rule: collect.induct)
  case (1 H l c r)
  show ?case
  proof (cases "Mf_toberead r > l")
    case True
    with "1.prems" obtain d r1 r2 where s: "egetc H r = Inr (d, r1)" "msgadd H d r1 = Inr r2"
      "collect H l d r2 = Inr (c', r')"
      by (subst (asm) collect.simps) (auto simp: res_iff)
    from "1.IH" [OF True s(1) refl s(2,3)] egetc_counted [OF s(1)] msgadd_counted [OF s(2)]
    show ?thesis by simp
  next
    case False
    with "1.prems" show ?thesis by (subst (asm) collect.simps) simp
  qed
qed

lemma meta_message_counted [counted]: "meta_message H r s = Inr (r', s') \<Longrightarrow> surplus r' = surplus r"
  by (auto simp: meta_message_def res_iff Let_def dest!: counted)

lemma sysex_message_counted [counted]: "sysex_message H r s = Inr (r', b, s') \<Longrightarrow> surplus r' = surplus r"
  by (auto simp: sysex_message_def res_iff Let_def dest!: counted split: if_splits)

lemma continuation_message_counted [counted]:
  "continuation_message H r sc s = Inr (r', b, s') \<Longrightarrow> surplus r' = surplus r"
  by (auto simp: continuation_message_def res_iff Let_def dest!: counted split: if_splits)

lemma track_event_counted [counted]:
  "track_event H r sc st s = Inr (r', sc', st', s') \<Longrightarrow> surplus r' = surplus r"
  unfolding track_event_def
  by (auto simp: res_iff Let_def badbyte_def split: if_splits dest!: counted)

lemma track_loop_counted:
  "track_loop H r sc st s = Inr (r', s') \<Longrightarrow> surplus r' = surplus r \<and> Mf_toberead r' \<le> 0"
proof (induction H r sc st s rule: track_loop.induct)
  case (1 H r sc st s)
  show ?case
  proof (cases "Mf_toberead r > 0")
    case True
    with "1.prems" obtain r1 sc1 st1 s1 where t: "track_event H r sc st s = Inr (r1, sc1, st1, s1)"
      "track_loop H r1 sc1 st1 s1 = Inr (r', s')"
      by (subst (asm) track_loop.simps) (auto simp: res_iff)
    from "1.IH" [OF True t(1) refl refl refl t(2)] track_event_counted [OF t(1)] show ?thesis by simp
  next
    case False
    with "1.prems" show ?thesis by (subst (asm) track_loop.simps) simp
  qed
qed

lemma track_loop_truncated:
  assumes "int (length (inp r)) < Mf_toberead r"
  shows "track_loop H r sc st s \<noteq> Inr x"
proof
  assume "track_loop H r sc st s = Inr x"
  then obtain r' s' where "track_loop H r sc st s = Inr (r', s')" by (cases x) auto
  from track_loop_counted [OF this] assms show False by (simp add: surplus_def)
qed

text \<open>A track chunk with fewer bytes than it announces is never accepted.\<close>

lemma readtrack_truncated:
  assumes "readmt H ''MTrk'' r = Inr (c, r1)" "c \<noteq> EOF_c" "read32bit H r1 = Inr (n, r2)"
    and "int (length (inp r2)) < n"
  shows "readtrack H r s \<noteq> Inr x"
proof
  assume "readtrack H r s = Inr x"
  with assms(1-3) obtain s1 y where y: "track_loop H (r2\<lparr>Mf_toberead := n, Mf_currtime := 0\<rparr>) False 0 s1 = Inr y"
    by (auto simp: readtrack_def res_iff)
  have "int (length (inp (r2\<lparr>Mf_toberead := n, Mf_currtime := 0\<rparr>))) < Mf_toberead (r2\<lparr>Mf_toberead := n, Mf_currtime := 0\<rparr>)"
    using assms(4) by simp
  from track_loop_truncated [OF this] y show False by (rule notE)
qed

end
