(* ===== verification/Mf_Write.thy ===== *)
theory Mf_Write
  imports Mf_Read
begin

text \<open>
  The writing half of \<open>server/midifile.c\<close>. Bytes go through \<open>Mf_putc\<close> to a \<open>stdio\<close> stream, which
  is modelled with its contents, its position, the size at which the device is full and whether
  it can seek, because \<open>mf_write_track_chunk\<close> goes back to fill in the length of the chunk.
\<close>

section \<open>The output stream\<close>

record FILE =
  fdata :: "byte list"
  fpos :: nat
  flimit :: nat
  fseekable :: bool

definition fputc :: "byte \<Rightarrow> FILE \<Rightarrow> int \<times> FILE" where
  "fputc c f =
     (if flimit f \<le> fpos f then (EOF_c, f)
      else (uint c, f\<lparr>fdata := take (fpos f) (fdata f) @ replicate (fpos f - length (fdata f)) 0 @ [c]
                               @ drop (Suc (fpos f)) (fdata f),
                     fpos := Suc (fpos f)\<rparr>))"

definition ftell :: "FILE \<Rightarrow> int" where
  "ftell f = (if fseekable f then int (fpos f) else -1)"

definition fseek :: "FILE \<Rightarrow> int \<Rightarrow> int \<times> FILE" where
  "fseek f off = (if fseekable f \<and> 0 \<le> off then (0, f\<lparr>fpos := nat off\<rparr>) else (-1, f))"

text \<open>
  The state of the writer, and the functions bound to its pointers (\<open>None\<close> is \<open>NULLFUNC\<close>).
  \<open>Mf_writetrack\<close> and \<open>Mf_writetempotrack\<close> are arguments of \<open>mfwrite\<close>, since they call back
  into this file.
\<close>

record wr =
  fout :: FILE
  laststatus :: int
  Mf_numbyteswritten :: int

record wr_fns =
  Mf_putc :: "(byte \<Rightarrow> FILE \<Rightarrow> int \<times> FILE) option"
  Mf_error_w :: "(string \<Rightarrow> fault) option"

section \<open>Characters and numbers\<close>

definition eputc :: "wr_fns \<Rightarrow> byte \<Rightarrow> wr \<Rightarrow> (int \<times> wr) res" where
  "eputc P c w = (case Mf_putc P of
      None \<Rightarrow> mferror (Mf_error_w P) ''Mf_putc undefined''
    | Some putc \<Rightarrow>
        (let (return_val, f) = putc c (fout w)
         in if return_val = EOF_c then mferror (Mf_error_w P) ''error writing''
            else Inr (return_val, w\<lparr>fout := f, Mf_numbyteswritten := Mf_numbyteswritten w + 1\<rparr>)))"

text \<open>A call of \<open>eputc\<close> whose result is not looked at.\<close>

definition put :: "wr_fns \<Rightarrow> byte \<Rightarrow> wr \<Rightarrow> wr res" where
  "put P c w = andThen (eputc P c w) (\<lambda>(_, w'). Inr w')"

definition write32bit :: "wr_fns \<Rightarrow> ulong \<Rightarrow> wr \<Rightarrow> wr res" where
  "write32bit P data w =
     andThen (put P (ucast (drop_bit 24 data AND 0xff)) w) (\<lambda>w1.
     andThen (put P (ucast (drop_bit 16 data AND 0xff)) w1) (\<lambda>w2.
     andThen (put P (ucast (drop_bit 8 data AND 0xff)) w2) (\<lambda>w3.
       put P (ucast (data AND 0xff)) w3)))"

definition write16bit :: "wr_fns \<Rightarrow> int \<Rightarrow> wr \<Rightarrow> wr res" where
  "write16bit P data w =
     andThen (put P (word_of_int (drop_bit 8 (data AND 0xff00))) w) (\<lambda>w1.
       put P (word_of_int (data AND 0xff)) w1)"

text \<open>\<open>WriteVarLen\<close>: the first loop packs the groups of seven bits into \<open>buffer\<close>, the second emits it.\<close>

function varlen_pack :: "ulong \<Rightarrow> ulong \<Rightarrow> ulong" where
  "varlen_pack value buffer =
     (let v = drop_bit 7 value
      in if v > 0 then varlen_pack v ((push_bit 8 buffer OR 0x80) + (v AND 0x7f)) else buffer)"
  by pat_completeness auto
termination
proof (relation "measure (\<lambda>(v, b). unat v)")
  fix val buffer x :: ulong
  assume x: "x = drop_bit 7 val" "0 < x"
  have "unat x = unat val div 128" using unat_drop_bit_div [of 7 val] by (simp add: x(1))
  moreover have "0 < unat x" using x(2) by (simp add: word_less_nat_alt)
  ultimately show "((x, (push_bit 8 buffer OR 0x80) + (x AND 0x7f)), val, buffer)
      \<in> measure (\<lambda>(v, b). unat v)"
    by (simp add: div_less_dividend)
qed simp

declare varlen_pack.simps [simp del]

function varlen_emit :: "wr_fns \<Rightarrow> ulong \<Rightarrow> wr \<Rightarrow> wr res" where
  "varlen_emit P buffer w =
     andThen (put P (ucast (buffer AND 0xff)) w) (\<lambda>w1.
       if buffer AND 0x80 \<noteq> 0 then varlen_emit P (drop_bit 8 buffer) w1 else Inr w1)"
  by pat_completeness auto
termination
proof (relation "measure (\<lambda>(P, b, w). unat b)")
  fix P w x and buffer :: ulong
  assume "buffer AND 0x80 \<noteq> 0"
  then have "buffer \<noteq> 0" by auto
  then have "0 < unat buffer" by (simp add: unat_gt_0)
  then show "((P, drop_bit 8 buffer, x), P, buffer, w) \<in> measure (\<lambda>(P, b, w). unat b)"
    using unat_drop_bit_div [of 8 buffer] by (simp add: div_less_dividend)
qed simp

declare varlen_emit.simps [simp del]

definition WriteVarLen :: "wr_fns \<Rightarrow> ulong \<Rightarrow> wr \<Rightarrow> wr res" where
  "WriteVarLen P value w = varlen_emit P (varlen_pack value (value AND 0x7f)) w"

section \<open>Events\<close>

text \<open>The data bytes of a message; reading past the end of the block is out of bounds.\<close>

fun put_data :: "wr_fns \<Rightarrow> byte list \<Rightarrow> nat \<Rightarrow> wr \<Rightarrow> wr res" where
  "put_data P data 0 w = Inr w"
| "put_data P [] (Suc n) w = Inl Out_Of_Bounds"
| "put_data P (b # bs) (Suc n) w = andThen (put P b w) (put_data P bs n)"

definition mf_write_midi_event ::
  "wr_fns \<Rightarrow> ulong \<Rightarrow> int \<Rightarrow> int \<Rightarrow> byte list \<Rightarrow> ulong \<Rightarrow> wr \<Rightarrow> (ulong \<times> wr) res" where
  "mf_write_midi_event P delta_time type chan data size' w =
     andThen (WriteVarLen P delta_time w) (\<lambda>w1.
       let sys = (type = system_exclusive \<or> type = 0xf7);
           c = (if sys then word_of_int type else word_of_int (type OR chan)) :: byte;
           w2 = (if sys then w1\<lparr>laststatus := 0\<rparr> else w1)
       in andThen (if laststatus w2 \<noteq> uint c then put P c (w2\<lparr>laststatus := uint c\<rparr>) else Inr w2) (\<lambda>w3.
          andThen (if sys then WriteVarLen P size' w3 else Inr w3) (\<lambda>w4.
          andThen (put_data P data (nat (s32 (uint size'))) w4) (\<lambda>w5. Inr (size', w5)))))"

text \<open>The data loop of a meta event stops early, with \<open>-1\<close>, when a byte does not come back from \<open>eputc\<close>.\<close>

fun put_meta_data :: "wr_fns \<Rightarrow> byte list \<Rightarrow> nat \<Rightarrow> wr \<Rightarrow> (bool \<times> wr) res" where
  "put_meta_data P data 0 w = Inr (True, w)"
| "put_meta_data P [] (Suc n) w = Inl Out_Of_Bounds"
| "put_meta_data P (b # bs) (Suc n) w =
     andThen (eputc P b w) (\<lambda>(rv, w1). if rv \<noteq> uint b then Inr (False, w1) else put_meta_data P bs n w1)"

definition mf_write_meta_event ::
  "wr_fns \<Rightarrow> ulong \<Rightarrow> byte \<Rightarrow> byte list \<Rightarrow> ulong \<Rightarrow> wr \<Rightarrow> (int \<times> wr) res" where
  "mf_write_meta_event P delta_time type data size' w =
     andThen (WriteVarLen P delta_time w) (\<lambda>w1.
     andThen (put P 0xff (w1\<lparr>laststatus := 0xff\<rparr>)) (\<lambda>w2.
     andThen (put P type w2) (\<lambda>w3.
     andThen (WriteVarLen P size' w3) (\<lambda>w4.
     andThen (put_meta_data P data (nat (s32 (uint size'))) w4) (\<lambda>(done_all, w5).
       Inr (if done_all then s32 (uint size') else -1, w5))))))"

definition mf_write_tempo :: "wr_fns \<Rightarrow> ulong \<Rightarrow> ulong \<Rightarrow> wr \<Rightarrow> wr res" where
  "mf_write_tempo P delta_time tempo w =
     andThen (WriteVarLen P delta_time w) (\<lambda>w1.
     andThen (put P 0xff (w1\<lparr>laststatus := 0xff\<rparr>)) (\<lambda>w2.
     andThen (put P 0x51 w2) (\<lambda>w3. andThen (put P 3 w3) (\<lambda>w4.
     andThen (put P (ucast (0xff AND drop_bit 16 tempo)) w4) (\<lambda>w5.
     andThen (put P (ucast (0xff AND drop_bit 8 tempo)) w5) (\<lambda>w6.
       put P (ucast (0xff AND tempo)) w6))))))"

definition mf_write_seqnum :: "wr_fns \<Rightarrow> ulong \<Rightarrow> 32 word \<Rightarrow> wr \<Rightarrow> wr res" where
  "mf_write_seqnum P delta_time seqnum w =
     andThen (WriteVarLen P delta_time w) (\<lambda>w1.
     andThen (put P 0xff (w1\<lparr>laststatus := 0xff\<rparr>)) (\<lambda>w2.
     andThen (put P 0 w2) (\<lambda>w3.
     andThen (put P (ucast (0xff AND drop_bit 8 seqnum)) w3) (\<lambda>w4.
       put P (ucast (0xff AND seqnum)) w4))))"

section \<open>Chunks and the file\<close>

definition MThd :: ulong where "MThd = 0x4d546864"
definition MTrk :: ulong where "MTrk = 0x4d54726b"

type_synonym track_writer = "int \<Rightarrow> wr \<Rightarrow> wr res"

definition mf_write_header_chunk :: "wr_fns \<Rightarrow> int \<Rightarrow> int \<Rightarrow> int \<Rightarrow> wr \<Rightarrow> wr res" where
  "mf_write_header_chunk P format ntrks division w =
     andThen (write32bit P MThd w) (\<lambda>w1. andThen (write32bit P 6 w1) (\<lambda>w2.
     andThen (write16bit P format w2) (\<lambda>w3. andThen (write16bit P ntrks w3) (\<lambda>w4.
       write16bit P division w4))))"

definition mf_write_track_chunk :: "wr_fns \<Rightarrow> track_writer option \<Rightarrow> int \<Rightarrow> wr \<Rightarrow> wr res" where
  "mf_write_track_chunk P writetrack which_track w =
     (let offset = ftell (fout w)
      in andThen (write32bit P MTrk (w\<lparr>laststatus := 0\<rparr>)) (\<lambda>w1.
         andThen (write32bit P 0 w1) (\<lambda>w2.
         andThen (case writetrack of None \<Rightarrow> Inr (w2\<lparr>Mf_numbyteswritten := 0\<rparr>)
                  | Some f \<Rightarrow> f which_track (w2\<lparr>Mf_numbyteswritten := 0\<rparr>)) (\<lambda>w3.
           let place_marker = ftell (fout w3); (rc, f1) = fseek (fout w3) offset
           in if rc < 0 then mferror (Mf_error_w P) ''error seeking during final stage of write''
              else let trklength = word_of_int (Mf_numbyteswritten w3)
                   in andThen (write32bit P MTrk (w3\<lparr>fout := f1\<rparr>)) (\<lambda>w4.
                      andThen (write32bit P trklength w4) (\<lambda>w5.
                        Inr (w5\<lparr>fout := snd (fseek (fout w5) place_marker)\<rparr>)))))))"

fun write_track_chunks :: "wr_fns \<Rightarrow> track_writer option \<Rightarrow> int \<Rightarrow> nat \<Rightarrow> wr \<Rightarrow> wr res" where
  "write_track_chunks P writetrack i 0 w = Inr w"
| "write_track_chunks P writetrack i (Suc n) w =
     andThen (mf_write_track_chunk P writetrack i w) (write_track_chunks P writetrack (i + 1) n)"

definition mfwrite ::
  "wr_fns \<Rightarrow> track_writer option \<Rightarrow> (wr \<Rightarrow> wr res) option \<Rightarrow> int \<Rightarrow> int \<Rightarrow> int \<Rightarrow> wr \<Rightarrow> wr res" where
  "mfwrite P writetrack writetempotrack format ntrks division w =
     (if Mf_putc P = None then mferror (Mf_error_w P) ''mfmf_write() called without setting Mf_putc''
      else if writetrack = None then
        mferror (Mf_error_w P) ''mfmf_write() called without setting Mf_mf_writetrack''
      else andThen (mf_write_header_chunk P format ntrks division (w\<lparr>laststatus := 0\<rparr>)) (\<lambda>w1.
           andThen (case writetempotrack of
               Some f \<Rightarrow> if format = 1 then f (w1\<lparr>laststatus := 0\<rparr>) else Inr (w1\<lparr>laststatus := 0\<rparr>)
             | None \<Rightarrow> Inr (w1\<lparr>laststatus := 0\<rparr>)) (\<lambda>w2.
             write_track_chunks P writetrack 0 (nat ntrks) w2)))"

end
