(* ===== verification/Wire.thy ===== *)
theory Wire imports Mf_Write begin

text \<open>
  The encodings of numbers in a MIDI file, and the contract between what \<open>midifile.c\<close> writes and
  what it reads: an \<open>emitter\<close> puts the encoding of a value on the stream, a \<open>codec\<close> reads it back
  off the input, and a \<open>wire\<close> is both for the same encoding.
\<close>

section \<open>Putting bytes on the stream\<close>

definition stdio_fns :: "(string \<Rightarrow> fault) option \<Rightarrow> wr_fns" where
  "stdio_fns e = \<lparr>Mf_putc = Some fputc, Mf_error_w = e\<rparr>"

text \<open>There is room for \<open>n\<close> bytes at the position of the stream.\<close>

definition room :: "nat \<Rightarrow> wr \<Rightarrow> bool" where
  "room n w \<longleftrightarrow> fpos (fout w) \<le> length (fdata (fout w)) \<and> fpos (fout w) + n \<le> flimit (fout w)"

definition splice :: "byte list \<Rightarrow> FILE \<Rightarrow> FILE" where
  "splice bs f = f\<lparr>fdata := take (fpos f) (fdata f) @ bs @ drop (fpos f + length bs) (fdata f),
                  fpos := fpos f + length bs\<rparr>"

text \<open>The writer after the bytes \<open>bs\<close> went out.\<close>

definition out :: "byte list \<Rightarrow> wr \<Rightarrow> wr" where
  "out bs w = w\<lparr>fout := splice bs (fout w), Mf_numbyteswritten := Mf_numbyteswritten w + int (length bs)\<rparr>"

lemma out_Nil [simp]: "out [] w = w"
  by (simp add: out_def splice_def)

lemma room_out [simp]: "room n w \<Longrightarrow> length bs \<le> n \<Longrightarrow> room (n - length bs) (out bs w)"
  by (auto simp: room_def out_def splice_def)

lemma room_mono: "room n w \<Longrightarrow> m \<le> n \<Longrightarrow> room m w"
  by (auto simp: room_def)

lemma room_laststatus [simp]: "room n (w\<lparr>laststatus := x\<rparr>) = room n w"
  by (simp add: room_def)

lemma out_laststatus: "out bs (w\<lparr>laststatus := x\<rparr>) = (out bs w)\<lparr>laststatus := x\<rparr>"
  by (simp add: out_def)

lemma laststatus_out [simp]: "laststatus (out bs w) = laststatus w"
  by (simp add: out_def)

lemma out_out:
  assumes "room (length as) w"
  shows "out bs (out as w) = out (as @ bs) w"
proof -
  have p: "fpos (fout w) \<le> length (fdata (fout w))" using assms by (simp add: room_def)
  then have "splice bs (splice as (fout w)) = splice (as @ bs) (fout w)"
    by (simp add: splice_def min_def ac_simps)
  then show ?thesis by (simp add: out_def)
qed

lemma put_out: "room 1 w \<Longrightarrow> put (stdio_fns e) b w = Inr (out [b] w)"
  by (auto simp: put_def eputc_def stdio_fns_def fputc_def room_def out_def splice_def EOF_c_def)

lemma eputc_out: "room 1 w \<Longrightarrow> eputc (stdio_fns e) b w = Inr (uint b, out [b] w)"
  by (auto simp: eputc_def stdio_fns_def fputc_def room_def out_def splice_def EOF_c_def)

text \<open>A full device ends the process with the writer's error.\<close>

lemma put_full: "flimit (fout w) \<le> fpos (fout w) \<Longrightarrow>
    put (stdio_fns e) b w = mferror e ''error writing''"
  by (simp add: put_def eputc_def stdio_fns_def fputc_def mferror_def)

lemma put_then:
  assumes "room (Suc n) w"
  shows "andThen (put (stdio_fns e) b w) f = f (out [b] w)" "room n (out [b] w)"
  using assms room_out [of "Suc n" w "[b]"] by (simp_all add: put_out room_mono)

locale emitter =
  fixes emit :: "'x \<Rightarrow> wr \<Rightarrow> wr res"
    and enc :: "'x \<Rightarrow> byte list"
    and ok :: "'x \<Rightarrow> bool"
  assumes write_enc: "ok x \<Longrightarrow> room (length (enc x)) w \<Longrightarrow> emit x w = Inr (out (enc x) w)"
begin

lemma write_then:
  assumes "ok x" "room (length (enc x) + n) w"
  shows "andThen (emit x w) f = f (out (enc x) w)" "room n (out (enc x) w)"
  using assms write_enc [of x w] room_out [OF assms(2), of "enc x"] by (simp_all add: room_mono)

end

section \<open>Taking bytes off the input\<close>

definition advance :: "nat \<Rightarrow> rd \<Rightarrow> rd" where
  "advance n r = r\<lparr>inp := drop n (inp r), Mf_toberead := Mf_toberead r - int n\<rparr>"

lemma advance_0 [simp]: "advance 0 r = r"
  by (simp add: advance_def)

lemma advance_advance [simp]: "advance m (advance n r) = advance (n + m) r"
  by (simp add: advance_def add.commute)

lemma inp_advance [simp]: "inp (advance n r) = drop n (inp r)"
  by (simp add: advance_def)

lemma toberead_advance [simp]: "Mf_toberead (advance n r) = Mf_toberead r - int n"
  by (simp add: advance_def)

lemma currtime_advance [simp]: "Mf_currtime (advance n r) = Mf_currtime r"
  by (simp add: advance_def)

lemma egetc_advance: "inp r = b # bs \<Longrightarrow> egetc H r = Inr (uint b, advance 1 r)"
  by (simp add: egetc_def advance_def)

locale codec =
  fixes read :: "rd \<Rightarrow> ('v \<times> rd) res"
    and enc :: "'x \<Rightarrow> byte list"
    and val :: "'x \<Rightarrow> 'v"
    and ok :: "'x \<Rightarrow> bool"
  assumes read_enc: "ok x \<Longrightarrow> inp r = enc x @ rest \<Longrightarrow> read r = Inr (val x, advance (length (enc x)) r)"
begin

lemma read_then:
  "ok x \<Longrightarrow> inp r = enc x @ rest \<Longrightarrow>
     andThen (read r) f = f (val x, advance (length (enc x)) r)"
  "ok x \<Longrightarrow> inp r = enc x @ rest \<Longrightarrow> inp (advance (length (enc x)) r) = rest"
  by (simp_all add: read_enc)

text \<open>No encoding is a proper beginning of another one: reading says where a value ends.\<close>

lemma enc_prefix_free:
  assumes "ok x" "ok y" "enc x @ u = enc y @ v"
  shows "val x = val y \<and> length (enc x) = length (enc y)"
proof -
  obtain r :: rd where r: "inp r = enc x @ u" "Mf_toberead r = 0"
    by (rule that [of "\<lparr>inp = enc x @ u, Mf_toberead = 0, Mf_currtime = 0, Mf_nomerge = 0,
        Msgbuff = [], Msgindex = 0, malloc_max = 0, junk = (\<lambda>_. 0), left_first = False\<rparr>"]) simp_all
  from read_enc [OF assms(1) r(1)] read_enc [OF assms(2), of r v] r assms(3)
  have "(val x, advance (length (enc x)) r) = (val y, advance (length (enc y)) r)" by simp
  then have "val x = val y" "Mf_toberead (advance (length (enc x)) r) = Mf_toberead (advance (length (enc y)) r)"
    by auto
  then show ?thesis by simp
qed

end

locale wire = emitter emit enc ok + codec read enc val ok
  for emit :: "'x \<Rightarrow> wr \<Rightarrow> wr res" and enc :: "'x \<Rightarrow> byte list"
    and ok :: "'x \<Rightarrow> bool" and read :: "rd \<Rightarrow> ('v \<times> rd) res" and val :: "'x \<Rightarrow> 'v"
begin

text \<open>What is written at the end of the stream is what a reader of those bytes gets.\<close>

lemma read_write:
  assumes "ok x" "room (length (enc x)) w" "fpos (fout w) = length (fdata (fout w))"
  shows "\<exists>w'. emit x w = Inr w' \<and> fdata (fout w') = fdata (fout w) @ enc x
    \<and> (\<forall>r rest. inp r = drop (fpos (fout w)) (fdata (fout w')) @ rest \<longrightarrow>
        (\<exists>r'. read r = Inr (val x, r') \<and> inp r' = rest))"
  using assms write_enc [OF assms(1,2)]
  by (auto simp: out_def splice_def read_enc)

end

section \<open>Variable-length quantities\<close>

fun digits128 :: "nat \<Rightarrow> nat list" where
  "digits128 v = (if v = 0 then [] else digits128 (v div 128) @ [v mod 128])"

declare digits128.simps [simp del]

lemma digits128_0 [simp]: "digits128 0 = []"
  by (simp add: digits128.simps)

text \<open>The groups of seven bits, the most significant first, all but the last with the top bit set.\<close>

definition varlen_enc :: "nat \<Rightarrow> byte list" where
  "varlen_enc v = map (\<lambda>g. word_of_nat (128 + g)) (digits128 (v div 128)) @ [word_of_nat (v mod 128)]"

lemma digits128_less: "g \<in> set (digits128 v) \<Longrightarrow> g < 128"
proof (induction v rule: digits128.induct)
  case (1 v)
  then show ?case by (cases "v = 0") (auto simp: digits128.simps [of v])
qed

lemma digits128_value: "foldl (\<lambda>a g. a * 128 + g) 0 (digits128 v) = v"
proof (induction v rule: digits128.induct)
  case (1 v)
  then show ?case by (cases "v = 0") (simp_all add: digits128.simps [of v])
qed

lemma digits128_length: "v < 128 ^ n \<Longrightarrow> length (digits128 v) \<le> n"
proof (induction n arbitrary: v)
  case 0
  then show ?case by (simp add: digits128.simps [of v])
next
  case (Suc n)
  have "v div 128 < 128 ^ n" using Suc.prems by (simp add: less_mult_imp_div_less mult.commute)
  from Suc.IH [OF this] show ?case by (cases "v = 0") (simp_all add: digits128.simps [of v])
qed

subsection \<open>Writing\<close>

text \<open>The two loops of \<open>WriteVarLen\<close> on numbers of any size.\<close>

fun npack :: "nat \<Rightarrow> nat \<Rightarrow> nat" where
  "npack v b = (if v div 128 = 0 then b else npack (v div 128) (b * 256 + 128 + v div 128 mod 128))"

fun nemit :: "nat \<Rightarrow> nat list" where
  "nemit b = b mod 256 # (if 128 \<le> b mod 256 then nemit (b div 256) else [])"

declare npack.simps [simp del] nemit.simps [simp del]

lemma group_mod_div:
  assumes "x < (128 :: nat)"
  shows "(b * 256 + 128 + x) mod 256 = 128 + x" "(b * 256 + 128 + x) div 256 = b"
proof -
  have "b * 256 + 128 + x = (128 + x) + b * 256" by simp
  then show "(b * 256 + 128 + x) mod 256 = 128 + x" "(b * 256 + 128 + x) div 256 = b"
    using assms by (simp_all only: mod_mult_self1 div_mult_self1) simp_all
qed

lemma nemit_npack: "nemit (npack v b) = map (\<lambda>g. 128 + g) (digits128 (v div 128)) @ nemit b"
proof (induction v b rule: npack.induct)
  case (1 v b)
  show ?case
  proof (cases "v div 128 = 0")
    case True
    then show ?thesis by (simp add: npack.simps [of v] digits128.simps [of "v div 128"])
  next
    case False
    let ?u = "v div 128" and ?b = "b * 256 + 128 + v div 128 mod 128"
    have m: "?b mod 256 = 128 + ?u mod 128" "?b div 256 = b"
      using group_mod_div [of "?u mod 128" b] by simp_all
    have "nemit ?b = (128 + ?u mod 128) # nemit b"
      by (simp add: nemit.simps [of ?b] m)
    with "1.IH" False show ?thesis
      by (simp add: npack.simps [of v] digits128.simps [of ?u])
  qed
qed

lemma npack_mod: "b mod 2 ^ 64 = c mod 2 ^ 64 \<Longrightarrow> npack v b mod 2 ^ 64 = npack v c mod 2 ^ 64"
proof (induction v b arbitrary: c rule: npack.induct)
  case (1 v b)
  have "(b * 256 + 128 + v div 128 mod 128) mod 2 ^ 64 = (c * 256 + 128 + v div 128 mod 128) mod 2 ^ 64"
    using "1.prems" by (intro mod_add_cong mod_mult_cong refl)
  with "1.IH" "1.prems" show ?case
    by (cases "v div 128 = 0") (auto simp: npack.simps [of v])
qed

lemma unat_varlen_pack: "unat (varlen_pack v b) = npack (unat v) (unat b) mod 2 ^ 64"
proof (induction v b rule: varlen_pack.induct)
  case (1 v b)
  let ?v = "drop_bit 7 v" and ?b = "(push_bit 8 b OR 0x80) + (drop_bit 7 v AND 0x7f)"
  have v: "unat ?v = unat v div 128" using unat_drop_bit_div [of 7 v] by simp
  show ?case
  proof (cases "?v > 0")
    case True
    then have nz: "unat v div 128 \<noteq> 0" by (metis v word_less_nat_alt unat_0 less_irrefl)
    have b: "unat ?b = (unat b * 256 + 128 + unat v div 128 mod 128) mod 2 ^ 64"
      unfolding pack_word v by simp
    have "unat (varlen_pack v b) = npack (unat v div 128) (unat ?b) mod 2 ^ 64"
      using "1.IH" [OF refl True] v True by (simp add: varlen_pack.simps [of v b] Let_def)
    also have "\<dots> = npack (unat v div 128) (unat b * 256 + 128 + unat v div 128 mod 128) mod 2 ^ 64"
      by (rule npack_mod) (simp add: b)
    finally show ?thesis using nz by (simp add: npack.simps [of "unat v"])
  next
    case False
    then have "?v = 0" by (metis word_gt_0)
    then have z: "unat v div 128 = 0" using v by simp
    have "unat b < 2 ^ 64" using unsigned_less [of b] by simp
    with False z show ?thesis
      by (simp add: varlen_pack.simps [of v b] npack.simps [of "unat v"])
  qed
qed

lemma varlen_emit_out:
  "room (length (nemit (unat b))) w \<Longrightarrow>
    varlen_emit (stdio_fns e) b w = Inr (out (map word_of_nat (nemit (unat b))) w)"
proof (induction "stdio_fns e" b w rule: varlen_emit.induct)
  case (1 b w)
  let ?n = "unat b"
  have byte: "ucast (b AND 0xff) = (word_of_nat (?n mod 256) :: byte)"
    unfolding unat_and_255 [symmetric] by (simp only: of_nat_unat)
  have cond: "b AND 0x80 \<noteq> 0 \<longleftrightarrow> 128 \<le> ?n mod 256" by (rule and_0x80_iff)
  have shift: "unat (drop_bit 8 b) = ?n div 256" using unat_drop_bit_div [of 8 b] by simp
  show ?case
  proof (cases "128 \<le> ?n mod 256")
    case True
    then have em: "nemit ?n = ?n mod 256 # nemit (?n div 256)" by (simp add: nemit.simps [of ?n])
    then have r: "room (Suc (length (nemit (?n div 256)))) w" using "1.prems" by simp
    note p = put_then(2) [OF r, of "word_of_nat (?n mod 256)"]
    have r1: "room 1 w" using r by (rule room_mono) simp
    have "varlen_emit (stdio_fns e) (drop_bit 8 b) (out [word_of_nat (?n mod 256)] w)
      = Inr (out (map word_of_nat (nemit (?n div 256))) (out [word_of_nat (?n mod 256)] w))"
      using "1.hyps" cond True p shift by (simp add: put_out [OF r1] byte)
    then show ?thesis
      using cond True r1 em by (simp add: varlen_emit.simps [of _ b w] byte put_out out_out)
  next
    case False
    then have em: "nemit ?n = [?n mod 256]" by (simp add: nemit.simps [of ?n])
    then have r1: "room 1 w" using "1.prems" by simp
    show ?thesis using cond False em r1 by (simp add: varlen_emit.simps [of _ b w] byte put_out)
  qed
qed

lemma npack_bound: "b < 256 ^ k \<Longrightarrow> npack v b < 256 ^ (k + length (digits128 (v div 128)))"
proof (induction v b arbitrary: k rule: npack.induct)
  case (1 v b)
  show ?case
  proof (cases "v div 128 = 0")
    case True
    with "1.prems" show ?thesis by (simp add: npack.simps [of v])
  next
    case False
    have "b + 1 \<le> 256 ^ k" using "1.prems" by simp
    then have "(b + 1) * 256 \<le> 256 ^ k * 256" by (rule mult_le_mono1)
    moreover have "v div 128 mod 128 < 128" by simp
    ultimately have "b * 256 + 128 + v div 128 mod 128 < 256 ^ Suc k" by simp
    from "1.IH" [OF False this] False show ?thesis
      by (simp add: npack.simps [of v] digits128.simps [of "v div 128"])
  qed
qed

lemma nemit_last [simp]: "nemit (v mod 128) = [v mod 128]"
proof -
  have "v mod 128 mod 256 = v mod 128" by (simp add: mod_less)
  moreover have "\<not> 128 \<le> v mod 128" by (simp add: not_le)
  ultimately show ?thesis by (simp add: nemit.simps)
qed

lemma nemit_truncated: "k < length (nemit n) \<Longrightarrow> nemit (n mod 256 ^ k) = take k (nemit n) @ [0]"
proof (induction k arbitrary: n)
  case 0
  then show ?case by (simp add: nemit.simps [of 0])
next
  case (Suc k)
  then have c: "128 \<le> n mod 256" and k: "k < length (nemit (n div 256))"
    by (simp_all add: nemit.simps [of n] split: if_splits)
  have m: "n mod 256 ^ Suc k = 256 * (n div 256 mod 256 ^ k) + n mod 256"
    using mod_mult2_eq [of n 256 "256 ^ k"] by simp
  then have "n mod 256 ^ Suc k mod 256 = n mod 256" "n mod 256 ^ Suc k div 256 = n div 256 mod 256 ^ k"
    by (simp_all add: div_mult_self4)
  then show ?case
    using Suc.IH [OF k] c by (simp add: nemit.simps [of "n mod (256 * 256 ^ k)"] nemit.simps [of n])
qed

lemma varlen_word:
  "unat (varlen_pack v (v AND 0x7f)) = npack (unat v) (unat v mod 128) mod 256 ^ 8"
  unfolding unat_varlen_pack unat_and_127 by simp

lemma nemit_groups:
  "nemit (npack v (v mod 128)) = map (\<lambda>g. 128 + g) (digits128 (v div 128)) @ [v mod 128]"
  by (simp add: nemit_npack)

lemma varlen_small:
  assumes "unat v < 2 ^ 56"
  shows "map word_of_nat (nemit (unat (varlen_pack v (v AND 0x7f)))) = varlen_enc (unat v)"
proof -
  let ?n = "unat v"
  have "?n div 128 < 128 ^ 7" using assms by (simp add: less_mult_imp_div_less)
  then have "length (digits128 (?n div 128)) \<le> 7" by (rule digits128_length)
  moreover have "npack ?n (?n mod 128) < 256 ^ (1 + length (digits128 (?n div 128)))"
    by (rule npack_bound) (simp add: less_trans [of _ 128])
  moreover have "(256::nat) ^ (1 + length (digits128 (?n div 128))) \<le> 256 ^ 8"
    by (rule power_increasing) (use calculation(1) in simp_all)
  ultimately have "npack ?n (?n mod 128) < 256 ^ 8" by (rule_tac less_le_trans)
  then have "unat (varlen_pack v (v AND 0x7f)) = npack ?n (?n mod 128)"
    by (simp add: varlen_word)
  then show ?thesis by (simp add: nemit_groups varlen_enc_def)
qed

lemma varlen_enc_length: "v < 2 ^ 56 \<Longrightarrow> length (varlen_enc v) \<le> 8"
  using digits128_length [of "v div 128" 7] by (simp add: varlen_enc_def less_mult_imp_div_less)

lemma WriteVarLen_out:
  "unat v < 2 ^ 56 \<Longrightarrow> room (length (varlen_enc (unat v))) w \<Longrightarrow>
     WriteVarLen (stdio_fns e) v w = Inr (out (varlen_enc (unat v)) w)"
proof -
  assume v: "unat v < 2 ^ 56" and r: "room (length (varlen_enc (unat v))) w"
  note eq = varlen_small [OF v]
  from arg_cong [OF eq, of length] r
  have "room (length (nemit (unat (varlen_pack v (v AND 0x7f))))) w" by (simp only: length_map)
  from varlen_emit_out [OF this, of e] show ?thesis
    unfolding WriteVarLen_def eq .
qed

text \<open>
  Values of nine groups do not fit the eight bytes of \<open>buffer\<close>: the group that is shifted out
  first is the least significant one.
\<close>

lemma digits128_length_ge: "128 ^ n \<le> v \<Longrightarrow> n < length (digits128 v)"
proof (induction n arbitrary: v)
  case 0
  then show ?case by (simp add: digits128.simps [of v])
next
  case (Suc n)
  then have "128 ^ n \<le> v div 128" by (simp add: less_eq_div_iff_mult_less_eq mult.commute)
  moreover have "0 < v" using Suc.prems by (rule less_le_trans [rotated]) simp
  ultimately show ?case using Suc.IH [of "v div 128"] by (simp add: digits128.simps [of v])
qed

text \<open>
  C35: A value of nine groups does not fit the eight bytes of \<open>buffer\<close>: \<open>WriteVarLen\<close> writes it with its last group
  replaced by zeros.
\<close>

theorem WriteVarLen_nine_groups:
  assumes "2 ^ 56 \<le> unat v" "unat v < 2 ^ 63" "room 9 w"
  shows "WriteVarLen (stdio_fns e) v w = Inr (out (varlen_enc (unat v - unat v mod 128)) w)"
proof -
  let ?n = "unat v"
  have "128 ^ 7 \<le> ?n div 128" using assms(1) by (simp add: less_eq_div_iff_mult_less_eq)
  then have "7 < length (digits128 (?n div 128))" by (rule digits128_length_ge)
  moreover have "length (digits128 (?n div 128)) \<le> 8"
    using assms(2) by (intro digits128_length) (simp add: less_mult_imp_div_less)
  ultimately have l: "length (digits128 (?n div 128)) = 8" by simp
  have "nemit (unat (varlen_pack v (v AND 0x7f))) = map (\<lambda>g. 128 + g) (digits128 (?n div 128)) @ [0]"
    unfolding varlen_word by (subst nemit_truncated) (simp_all add: nemit_groups l)
  moreover have "(?n - ?n mod 128) div 128 = ?n div 128" "(?n - ?n mod 128) mod 128 = 0"
    by (simp_all add: minus_mod_eq_mult_div)
  ultimately show ?thesis
    using varlen_emit_out [of "varlen_pack v (v AND 0x7f)" w e] assms(3)
    by (simp add: WriteVarLen_def varlen_enc_def l o_def)
qed

subsection \<open>Reading\<close>

lemma foldl_128_ge: "(a::nat) \<le> foldl (\<lambda>a g. a * 128 + g) a gs"
proof (induction gs arbitrary: a)
  case Nil
  then show ?case by simp
next
  case (Cons g gs)
  have "a \<le> a * 128 + g" by simp
  also have "\<dots> \<le> foldl (\<lambda>a g. a * 128 + g) (a * 128 + g) gs" by (rule Cons.IH)
  finally show ?case by simp
qed

lemma group_byte:
  assumes "g < 128"
  shows "uint (word_of_nat (128 + g) :: byte) = int (128 + g)" "uint (word_of_nat g :: byte) = int g"
    "int (128 + g) AND 0x7f = int g" "int g AND 0x7f = int g"
    "int (128 + g) AND 0x80 \<noteq> 0" "int g AND 0x80 = 0"
proof -
  have z: "int g div 128 = 0" "int g mod 128 = int g"
    using assms by (simp_all add: div_pos_pos_trivial mod_pos_pos_trivial)
  have d: "int (128 + g) div 128 = 1" "int (128 + g) mod 128 = int g" "int g div 128 = 0"
    using z div_add_self1 [of 128 "int g"] mod_add_self1 [of 128 "int g"] by simp_all
  show "int (128 + g) AND 0x7f = int g" "int g AND 0x7f = int g"
    unfolding int_and_127 using d(2) assms by simp_all
  show "int (128 + g) AND 0x80 \<noteq> 0" unfolding int_and_128 by (simp only: d(1)) simp
  show "int g AND 0x80 = 0" using int_and_128 [of "int g"] by (simp only: d(3)) simp
  show "uint (word_of_nat (128 + g) :: byte) = int (128 + g)" "uint (word_of_nat g :: byte) = int g"
    using assms by (simp_all only: uint_nat unsigned_of_nat) (simp_all add: take_bit_nat_eq_self)
qed

lemma varinum_step:
  assumes "g < 128" "a * 128 + g < 2 ^ 63" "inp r = word_of_nat (if continued then 128 + g else g) # bs"
  shows "varinum_loop H (int a) r =
    (if continued then varinum_loop H (int (a * 128 + g)) (advance 1 r) else Inr (int (a * 128 + g), advance 1 r))"
proof -
  have v: "s64 (push_bit 7 (int a) + int g) = int (a * 128 + g)"
    using assms(2) by (subst s64_id) (simp_all add: push_bit_eq_mult)
  show ?thesis
    using v group_byte [OF assms(1)] assms(3)
    by (cases continued) (subst varinum_loop.simps, simp add: egetc_advance [of r _ bs] Let_def)+
qed

lemma varinum_loop_groups:
  assumes "\<And>g. g \<in> set gs \<Longrightarrow> g < 128" "l < 128"
    and "foldl (\<lambda>a g. a * 128 + g) a (gs @ [l]) < 2 ^ 63"
    and "inp r = map (\<lambda>g. word_of_nat (128 + g)) gs @ word_of_nat l # rest"
  shows "varinum_loop H (int a) r = Inr (int (foldl (\<lambda>a g. a * 128 + g) a (gs @ [l])), advance (Suc (length gs)) r)"
  using assms
proof (induction gs arbitrary: a r)
  case Nil
  then show ?case using varinum_step [of l a r False rest H] by simp
next
  case (Cons g gs)
  have "a * 128 + g \<le> foldl (\<lambda>a g. a * 128 + g) (a * 128 + g) (gs @ [l])" by (rule foldl_128_ge)
  then have "a * 128 + g < 2 ^ 63" using Cons.prems(3) by simp
  with Cons.prems have "varinum_loop H (int a) r = varinum_loop H (int (a * 128 + g)) (advance 1 r)"
    by (subst varinum_step [where continued = True]) simp_all
  also have "\<dots> = Inr (int (foldl (\<lambda>a g. a * 128 + g) (a * 128 + g) (gs @ [l])), advance (Suc (length gs)) (advance 1 r))"
    using Cons.prems by (intro Cons.IH) simp_all
  finally show ?case by simp
qed

lemma readvarinum_enc:
  assumes v: "v < 2 ^ 63" and inp: "inp r = varlen_enc v @ rest"
  shows "readvarinum H r = Inr (int v, advance (length (varlen_enc v)) r)"
proof (cases "digits128 (v div 128)")
  case Nil
  then have "v div 128 = 0" using digits128_value [of "v div 128"] by simp
  then have small: "v < 128" by simp
  have i: "inp r = word_of_nat v # rest" using inp Nil small by (simp add: varlen_enc_def)
  note gb = group_byte [OF small]
  show ?thesis using Nil gb by (simp add: readvarinum_def egetc_advance [OF i] varlen_enc_def)
next
  case (Cons g gs)
  let ?l = "v mod 128"
  have g: "g < 128" "\<And>x. x \<in> set gs \<Longrightarrow> x < 128"
    using digits128_less [of _ "v div 128"] Cons by auto
  have val: "foldl (\<lambda>a g. a * 128 + g) g (gs @ [?l]) = v"
    using digits128_value [of "v div 128"] Cons by simp
  have i: "inp r = word_of_nat (128 + g) # map (\<lambda>g. word_of_nat (128 + g)) gs @ word_of_nat ?l # rest"
    using inp Cons by (simp add: varlen_enc_def)
  note gb = group_byte [OF g(1)]
  have "readvarinum H r = varinum_loop H (int g) (advance 1 r)"
    unfolding readvarinum_def egetc_advance [OF i] gb(1) using gb(3,5) by simp
  also have "\<dots> = Inr (int v, advance (Suc (length gs)) (advance 1 r))"
    using varinum_loop_groups [of gs ?l g "advance 1 r" rest H] g(2) val v i by simp
  finally show ?thesis using Cons by (simp add: varlen_enc_def)
qed

interpretation varlen: wire "WriteVarLen (stdio_fns e)" "\<lambda>v. varlen_enc (unat v)"
    "\<lambda>v. unat v < 2 ^ 56" "readvarinum H" "\<lambda>v. int (unat v)" for e H
proof unfold_locales
  fix v :: ulong and r :: rd and rest
  assume v: "unat v < 2 ^ 56" and i: "inp r = varlen_enc (unat v) @ rest"
  show "readvarinum H r = Inr (int (unat v), advance (length (varlen_enc (unat v))) r)"
    by (rule readvarinum_enc [OF _ i]) (use v in simp)
qed (rule WriteVarLen_out)

section \<open>Numbers of fixed width\<close>

definition be32 :: "nat \<Rightarrow> byte list" where
  "be32 v = [word_of_nat (v div 2 ^ 24 mod 256), word_of_nat (v div 2 ^ 16 mod 256),
             word_of_nat (v div 2 ^ 8 mod 256), word_of_nat (v mod 256)]"

definition be16 :: "int \<Rightarrow> byte list" where
  "be16 v = [word_of_int (v div 256 mod 256), word_of_int (v mod 256)]"

lemma be_length [simp]: "length (be32 v) = 4" "length (be16 i) = 2"
  by (simp_all add: be32_def be16_def)

lemma ucast_byte: "ucast ((w :: ulong) AND 0xff) = (word_of_nat (unat w mod 256) :: byte)"
  unfolding unat_and_255 [symmetric] by (simp only: of_nat_unat)

lemma uint_of_mod_256: "uint (word_of_nat (n mod 256) :: byte) = int (n mod 256)"
  "uint (word_of_int (i mod 256) :: byte) = i mod 256"
  by (simp_all add: unsigned_of_nat unsigned_of_int take_bit_nat_def take_bit_int_def flip: of_nat_mod)

lemma room_out_eq: "room (length bs) w \<Longrightarrow> room n (out bs w) \<longleftrightarrow> room (length bs + n) w"
  by (auto simp: room_def out_def splice_def)

lemma write32bit_out:
  assumes r: "room 4 w"
  shows "write32bit (stdio_fns e) v w = Inr (out (be32 (unat v)) w)"
proof -
  have rs: "room (Suc 0) w" "room (Suc (Suc 0)) w" "room (Suc (Suc (Suc 0))) w"
    "room (Suc (Suc (Suc (Suc 0)))) w"
    by (rule room_mono [OF r], simp)+
  have bytes: "unat (drop_bit 24 v) = unat v div 2 ^ 24" "unat (drop_bit 16 v) = unat v div 2 ^ 16"
    "unat (drop_bit 8 v) = unat v div 2 ^ 8"
    by (rule unat_drop_bit_div)+
  show ?thesis
    unfolding write32bit_def ucast_byte bytes be32_def
    by (simp add: put_out out_out room_out_eq rs)
qed

lemma write16bit_out:
  assumes r: "room 2 w"
  shows "write16bit (stdio_fns e) v w = Inr (out (be16 v) w)"
proof -
  have rs: "room (Suc 0) w" "room (Suc (Suc 0)) w" by (rule room_mono [OF r], simp)+
  have "drop_bit 8 (v AND 0xff00) = drop_bit 8 v AND 0xff" by (simp add: drop_bit_and)
  then have "drop_bit 8 (v AND 0xff00) = v div 256 mod 256"
    by (simp only: int_and_255) (simp add: drop_bit_eq_div)
  then show ?thesis
    unfolding write16bit_def be16_def int_and_255
    by (simp add: put_out out_out room_out_eq rs)
qed

lemma egetc_then:
  "inp r = b # bs \<Longrightarrow> andThen (egetc H r) f = f (uint b, advance 1 r)"
  by (simp add: egetc_advance)

lemma advance_numerals: "advance 2 r = advance (Suc (Suc 0)) r"
  "advance 4 r = advance (Suc (Suc (Suc (Suc 0)))) r"
  by (simp_all add: eval_nat_numeral)

text \<open>The four digits to the base 256.\<close>

lemma digits256:
  fixes v :: nat
  shows "v = v div 2 ^ 24 * 2 ^ 24 + v div 2 ^ 16 mod 256 * 2 ^ 16 + v div 2 ^ 8 mod 256 * 2 ^ 8 + v mod 256"
proof -
  have d: "v div 256 div 256 = v div 65536" "v div 65536 div 256 = v div 16777216"
    by (simp_all add: div_mult2_eq [symmetric])
  have "v = v div 256 * 256 + v mod 256" by simp
  moreover have "v div 256 = v div 65536 * 256 + v div 256 mod 256"
    using div_mult_mod_eq [of "v div 256" 256] by (simp only: d)
  moreover have "v div 65536 = v div 16777216 * 256 + v div 65536 mod 256"
    using div_mult_mod_eq [of "v div 65536" 256] by (simp only: d)
  ultimately have "v = v div 16777216 * 16777216 + v div 65536 mod 256 * 65536 + v div 256 mod 256 * 256 + v mod 256"
    by linarith
  then show ?thesis by simp
qed

lemma to32bit_bytes:
  assumes "0 \<le> a" "a < 256" "0 \<le> b" "b < 256" "0 \<le> c" "c < 256" "0 \<le> d" "d < 256"
  shows "to32bit a b c d = a * 2 ^ 24 + b * 2 ^ 16 + c * 2 ^ 8 + d"
  using assms by (simp add: to32bit_def Let_def int_and_255 push_bit_eq_mult mod_pos_pos_trivial)

lemma read32bit_bytes:
  "inp r = b1 # b2 # b3 # b4 # rest \<Longrightarrow>
    read32bit H r = Inr (to32bit (uint b1) (uint b2) (uint b3) (uint b4), advance 4 r)"
  by (simp add: read32bit_def egetc_then advance_numerals)

lemma read32bit_enc:
  assumes v: "v < 2 ^ 32" and i: "inp r = be32 v @ rest"
  shows "read32bit H r = Inr (int v, advance 4 r)"
proof -
  have "v div 2 ^ 24 mod 256 = v div 2 ^ 24" using v by (simp add: less_mult_imp_div_less)
  then have sum: "v div 2 ^ 24 mod 256 * 2 ^ 24 + v div 2 ^ 16 mod 256 * 2 ^ 16 + v div 2 ^ 8 mod 256 * 2 ^ 8 + v mod 256 = v"
    using digits256 [of v] by (simp only:)
  have "to32bit (int (v div 2 ^ 24 mod 256)) (int (v div 2 ^ 16 mod 256)) (int (v div 2 ^ 8 mod 256)) (int (v mod 256))
      = int (v div 2 ^ 24 mod 256 * 2 ^ 24 + v div 2 ^ 16 mod 256 * 2 ^ 16 + v div 2 ^ 8 mod 256 * 2 ^ 8 + v mod 256)"
    by (subst to32bit_bytes) simp_all
  then have "to32bit (int (v div 2 ^ 24 mod 256)) (int (v div 2 ^ 16 mod 256)) (int (v div 2 ^ 8 mod 256)) (int (v mod 256)) = int v"
    by (simp only: sum)
  then show ?thesis
    using read32bit_bytes [OF i [unfolded be32_def append.simps], of H]
    by (simp only: uint_of_mod_256)
qed

lemma read16bit_enc:
  assumes v: "0 \<le> v" "v < 2 ^ 16" and i: "inp r = be16 v @ rest"
  shows "read16bit H r = Inr (v, advance 2 r)"
proof -
  have "v div 256 mod 256 = v div 256" using v by (simp add: int_div_less_self)
  then have "to16bit (v div 256 mod 256) (v mod 256) = v"
    by (simp add: to16bit_def int_and_255 push_bit_eq_mult)
  with i show ?thesis
    unfolding read16bit_def be16_def advance_numerals
    by (simp add: egetc_then uint_of_mod_256)
qed

interpretation long32: wire "write32bit (stdio_fns e)" "\<lambda>v. be32 (unat v)" "\<lambda>v. unat v < 2 ^ 32"
    "read32bit H" "\<lambda>v. int (unat v)" for e H
proof unfold_locales
  fix v :: ulong and r :: rd and rest
  assume v: "unat v < 2 ^ 32" and i: "inp r = be32 (unat v) @ rest"
  show "read32bit H r = Inr (int (unat v), advance (length (be32 (unat v))) r)"
    unfolding be_length by (rule read32bit_enc [OF v i])
qed (simp add: write32bit_out)

interpretation short16: wire "write16bit (stdio_fns e)" be16 "\<lambda>v. 0 \<le> v \<and> v < 2 ^ 16"
    "read16bit H" "\<lambda>v. v" for e H
  by unfold_locales (simp_all add: write16bit_out read16bit_enc)

end
