(* ===== verification/Parse.thy ===== *)
theory Parse
  imports Wire
begin

text \<open>
  The abstract content of a track and its byte format (running status included), and what the
  parser of \<open>midifile.c\<close> does with bytes in that format: it calls the handler of each message.
\<close>

section \<open>Messages and their encoding\<close>

text \<open>
  A channel message has the high half of its status byte, a channel and two data bytes (the
  second unused by program changes and channel pressure); a meta event a type and its data.
\<close>

datatype message =
    Channel int int byte byte
  | Meta int "byte list"

type_synonym timed = "nat \<times> message"

definition two_bytes :: "int \<Rightarrow> bool" where
  "two_bytes type \<longleftrightarrow> type \<noteq> 0xc0 \<and> type \<noteq> 0xd0"

fun status_after :: "message \<Rightarrow> int" where
  "status_after (Channel type chan d0 d1) = type + chan"
| "status_after (Meta type bs) = 0xff"

text \<open>\<open>ls\<close> is the status byte in force; a channel message with that status leaves its own out.\<close>

fun message_bytes :: "int \<Rightarrow> message \<Rightarrow> byte list" where
  "message_bytes ls (Channel type chan d0 d1) =
     (if ls = type + chan then [] else [word_of_int (type + chan)])
     @ (if two_bytes type then [d0, d1] else [d0])"
| "message_bytes ls (Meta type bs) = 0xff # word_of_int type # varlen_enc (length bs) @ bs"

fun track_bytes :: "int \<Rightarrow> timed list \<Rightarrow> byte list" where
  "track_bytes ls [] = []"
| "track_bytes ls ((dt, m) # es) = varlen_enc dt @ message_bytes ls m @ track_bytes (status_after m) es"

text \<open>
  The messages the format is unambiguous for: a channel status, a first data byte without the
  top bit (it may follow a running status), lengths the parser's \<open>int\<close> holds, and the lengths
  the Standard MIDI File format fixes for some types.
\<close>

definition channel_types :: "int list" where
  "channel_types = [0x80, 0x90, 0xa0, 0xb0, 0xc0, 0xd0, 0xe0]"

definition fixed_length :: "int \<Rightarrow> nat option" where
  "fixed_length type =
     (if type = 0x00 then Some 2 else if type = 0x2f then Some 0 else if type = 0x51 then Some 3
      else if type = 0x54 then Some 5 else if type = 0x58 then Some 4 else if type = 0x59 then Some 2
      else None)"

fun message_ok :: "message \<Rightarrow> bool" where
  "message_ok (Channel type chan d0 d1) \<longleftrightarrow>
     type \<in> set channel_types \<and> 0 \<le> chan \<and> chan < 16 \<and> unat d0 < 128 \<and> (two_bytes type \<or> d1 = 0)"
| "message_ok (Meta type bs) \<longleftrightarrow>
     0 \<le> type \<and> type < 256 \<and> length bs < 2 ^ 31 \<and> (case fixed_length type of None \<Rightarrow> True | Some n \<Rightarrow> length bs = n)"

definition timed_ok :: "timed \<Rightarrow> bool" where
  "timed_ok e \<longleftrightarrow> fst e < 2 ^ 56 \<and> message_ok (snd e)"

section \<open>The parser on encoded messages\<close>

text \<open>\<open>r'\<close> is \<open>r\<close> after \<open>n\<close> more bytes, apart from the current time and the message buffer.\<close>

definition moved :: "nat \<Rightarrow> rd \<Rightarrow> rd \<Rightarrow> bool" where
  "moved n r r' \<longleftrightarrow> inp r' = drop n (inp r) \<and> Mf_toberead r' = Mf_toberead r - int n
     \<and> Mf_nomerge r' = Mf_nomerge r \<and> malloc_max r' = malloc_max r \<and> junk r' = junk r
     \<and> left_first r' = left_first r"

lemma moved_advance [simp]: "moved n r (advance n r)"
  by (simp add: moved_def advance_def)

lemma moved_trans: "moved n r r1 \<Longrightarrow> moved m r1 r2 \<Longrightarrow> moved (n + m) r r2"
  by (simp add: moved_def add.commute)

lemma collect_bytes:
  assumes "inp r = bs @ rest" "Mf_toberead r = l + int (length bs)"
    and "Msgindex r \<le> length (Msgbuff r)" "Msgindex r + length bs + 128 \<le> malloc_max r"
  shows "\<exists>r'. collect H l c r = Inr (if bs = [] then c else uint (last bs), r')
    \<and> moved (length bs) r r' \<and> Mf_currtime r' = Mf_currtime r
    \<and> Msgindex r' = Msgindex r + length bs \<and> Msgindex r' \<le> length (Msgbuff r')
    \<and> take (Msgindex r') (Msgbuff r') = take (Msgindex r) (Msgbuff r) @ bs"
  using assms
proof (induction bs arbitrary: r c)
  case Nil
  then show ?case by (subst collect.simps) (simp add: moved_def)
next
  case (Cons b bs)
  have g: "egetc H r = Inr (uint b, advance 1 r)" using Cons.prems(1) by (simp add: egetc_advance)
  obtain buf where buf: "msgadd H (uint b) (advance 1 r) =
      Inr ((advance 1 r)\<lparr>Msgbuff := buf, Msgindex := Suc (Msgindex r)\<rparr>)"
    "Suc (Msgindex r) \<le> length buf" "take (Suc (Msgindex r)) buf = take (Msgindex r) (Msgbuff r) @ [b]"
  proof (cases "length (Msgbuff r) \<le> Msgindex r")
    case True
    with Cons.prems(3) have e: "Msgindex r = length (Msgbuff r)" by simp
    let ?b = "(Msgbuff r @ map (junk r) [length (Msgbuff r)..<length (Msgbuff r) + 128])[Msgindex r := b]"
    show ?thesis
      by (rule that [of ?b])
         (use True e Cons.prems(4) in \<open>simp_all add: msgadd_def biggermsg_def MSGINCREMENT_def Let_def
            advance_def take_Suc_conv_app_nth\<close>)
  next
    case False
    then show ?thesis
      by (intro that [of "(Msgbuff r)[Msgindex r := b]"])
         (simp_all add: msgadd_def advance_def take_Suc_conv_app_nth)
  qed
  let ?r = "(advance 1 r)\<lparr>Msgbuff := buf, Msgindex := Suc (Msgindex r)\<rparr>"
  have run: "collect H l c r = collect H l (uint b) ?r"
    using Cons.prems(2) g buf(1) by (subst collect.simps) simp
  have "\<exists>r'. collect H l (uint b) ?r = Inr (if bs = [] then uint b else uint (last bs), r')
    \<and> moved (length bs) ?r r' \<and> Mf_currtime r' = Mf_currtime ?r
    \<and> Msgindex r' = Msgindex ?r + length bs \<and> Msgindex r' \<le> length (Msgbuff r')
    \<and> take (Msgindex r') (Msgbuff r') = take (Msgindex ?r) (Msgbuff ?r) @ bs"
    by (rule Cons.IH) (use Cons.prems buf(2) in \<open>simp_all add: advance_def\<close>)
  moreover have "moved (length bs) ?r r' \<Longrightarrow> moved (length (b # bs)) r r'" for r'
    by (simp add: moved_def advance_def)
  ultimately show ?case
    unfolding run using buf(3) by auto
qed

text \<open>
  What the parser does once a message is complete: it calls \<open>chanmessage\<close>, or \<open>metaevent\<close> with
  the data in the message buffer.
\<close>

fun deliver :: "'s mf_handlers \<Rightarrow> rd \<Rightarrow> message \<Rightarrow> 's handler" where
  "deliver H r (Channel type chan d0 d1) s =
     chanmessage H (Mf_currtime r) (type + chan) (uint d0) (if two_bytes type then uint d1 else 0) s"
| "deliver H r (Meta type bs) s = metaevent H r type s"

definition holds_data :: "message \<Rightarrow> rd \<Rightarrow> bool" where
  "holds_data m r \<longleftrightarrow> (case m of Channel _ _ _ _ \<Rightarrow> True
     | Meta type bs \<Rightarrow> Msgindex r = length bs \<and> length bs \<le> length (Msgbuff r) \<and> take (length bs) (Msgbuff r) = bs)"

lemma channel_status:
  assumes "type \<in> set channel_types" "0 \<le> chan" "chan < 16"
  shows "128 \<le> type + chan" "type + chan < 240" "(type + chan) AND 0x80 \<noteq> 0"
    "nat (drop_bit 4 (type + chan) AND 0xf) = nat (type div 16)"
    "chantype ! nat (type div 16) = (if two_bytes type then 2 else 1)"
    "uint (word_of_int (type + chan) :: byte) = type + chan"
    "(type + chan) AND 0xf = chan" "(type + chan) AND 0xf0 = type"
proof -
  from assms(1) consider "type = 0x80" | "type = 0x90" | "type = 0xa0" | "type = 0xb0" | "type = 0xc0"
    | "type = 0xd0" | "type = 0xe0" by (auto simp: channel_types_def)
  note cases = this
  show b: "128 \<le> type + chan" "type + chan < 240"
    using assms by (auto simp: channel_types_def)
  have "type = 16 * (type div 16)" using cases by cases simp_all
  then obtain q where q: "type = 16 * q" by blast
  have d: "(type + chan) div 16 = type div 16" "type div 16 mod 16 = type div 16" "(type + chan) mod 16 = chan"
    using assms(2,3) b unfolding q by (simp_all add: div_pos_pos_trivial mod_pos_pos_trivial)
  have "(type + chan) div 128 = 1" using b by (intro int_div_pos_eq [where r = "type + chan - 128"]) simp_all
  then show "(type + chan) AND 0x80 \<noteq> 0" unfolding int_and_128 by simp
  show "nat (drop_bit 4 (type + chan) AND 0xf) = nat (type div 16)"
    by (simp add: int_and_15 drop_bit_eq_div d)
  show "chantype ! nat (type div 16) = (if two_bytes type then 2 else 1)"
    using cases by cases (simp_all add: chantype_def two_bytes_def)
  show "uint (word_of_int (type + chan) :: byte) = type + chan"
    using b by (simp add: unsigned_of_int take_bit_int_eq_self del: of_int_add)
  show "(type + chan) AND 0xf = chan" by (simp add: int_and_15 d)
  have "(type + chan) AND 0xf0 = push_bit 4 (drop_bit 4 ((type + chan) AND 0xf0)) + ((type + chan) AND 0xf0) mod 16"
    by (simp add: push_bit_eq_mult drop_bit_eq_div)
  also have "drop_bit 4 ((type + chan) AND 0xf0) = drop_bit 4 (type + chan) AND 0xf"
    by (simp add: drop_bit_and)
  also have "((type + chan) AND 0xf0) mod 16 = 0"
    using take_bit_and [of 4 "type + chan" "0xf0"] by (simp add: take_bit_eq_mod)
  finally show "(type + chan) AND 0xf0 = type"
    unfolding int_and_15 drop_bit_eq_div push_bit_eq_mult
    using \<open>type = 16 * (type div 16)\<close> d by simp
qed

lemma channel_event_bytes:
  assumes m: "message_ok (Channel type chan d0 d1)" and dt: "dt < 2 ^ 56"
    and i: "inp r = varlen_enc dt @ message_bytes st (Channel type chan d0 d1) @ rest"
  shows "\<exists>r'. moved (length (varlen_enc dt @ message_bytes st (Channel type chan d0 d1))) r r'
    \<and> Mf_currtime r' = s64 (Mf_currtime r + int dt) \<and> inp r' = rest
    \<and> track_event H r False st s = andThen (deliver H r' (Channel type chan d0 d1) s)
        (\<lambda>s'. Inr (r', False, type + chan, s'))"
proof -
  let ?m = "Channel type chan d0 d1"
  from m have t: "type \<in> set channel_types" "0 \<le> chan" "chan < 16" and d0: "unat d0 < 128" by auto
  note cs = channel_status [OF t]
  have dt63: "dt < 2 ^ 63" using dt by (rule less_trans) simp
  let ?r0 = "(advance (length (varlen_enc dt)) r)\<lparr>Mf_currtime := s64 (Mf_currtime r + int dt)\<rparr>"
  note v = readvarinum_enc [OF dt63 i, of H]
  have i0: "inp ?r0 = message_bytes st ?m @ rest" using i by (simp add: advance_def)
  have low: "uint d0 AND 0x80 = 0"
  proof -
    have "uint d0 div 128 = 0" using d0 by (rule uint_low_byte)
    then show ?thesis using int_and_128 [of "uint d0"] by simp
  qed
  let ?n = "length (message_bytes st ?m)"
  have step: "track_event H r False st s = andThen (deliver H (advance ?n ?r0) ?m s)
      (\<lambda>s'. Inr (advance ?n ?r0, False, type + chan, s'))"
  proof (cases "st = type + chan")
    case True
    have nz: "type + chan \<noteq> 0" using cs(1) by linarith
    have i1: "inp ?r0 = d0 # (if two_bytes type then d1 # rest else rest)"
      using i0 True by simp
    have e: "egetc H ?r0 = Inr (uint d0, advance 1 ?r0)" by (rule egetc_advance [OF i1])
    have e2: "two_bytes type \<Longrightarrow> egetc H (advance 1 ?r0) = Inr (uint d1, advance (Suc (Suc 0)) ?r0)"
      using i1 by (subst egetc_advance [of _ d1 rest]) simp_all
    show ?thesis
      using e2 [unfolded One_nat_def]
      by (cases "two_bytes type")
         (simp_all add: track_event_def v e low nz cs(4,5) Let_def True)
  next
    case False
    have i1: "inp ?r0 = word_of_int (type + chan) # d0 # (if two_bytes type then d1 # rest else rest)"
      using i0 False by simp
    have e: "egetc H ?r0 = Inr (type + chan, advance 1 ?r0)"
      using egetc_advance [OF i1, of H] by (simp only: cs(6))
    have e1: "egetc H (advance 1 ?r0) = Inr (uint d0, advance (Suc (Suc 0)) ?r0)"
      using i1 by (subst egetc_advance [of _ d0 "if two_bytes type then d1 # rest else rest"]) simp_all
    have e2: "two_bytes type \<Longrightarrow> egetc H (advance (Suc (Suc 0)) ?r0) = Inr (uint d1, advance (Suc (Suc (Suc 0))) ?r0)"
      using i1 by (subst egetc_advance [of _ d1 rest]) simp_all
    show ?thesis
      using e1 [unfolded One_nat_def] e2
      by (cases "two_bytes type")
         (simp_all add: track_event_def v e cs(3-5) Let_def False)
  qed
  have "moved (length (varlen_enc dt) + ?n) r (advance ?n ?r0)"
    by (rule moved_trans [of _ _ ?r0]) (simp_all add: moved_def advance_def)
  moreover have "inp (advance ?n ?r0) = rest" using i0 by simp
  ultimately show ?thesis using step by (intro exI [of _ "advance ?n ?r0"]) simp
qed

lemma meta_event_bytes:
  assumes m: "message_ok (Meta type bs)" and dt: "dt < 2 ^ 56" and mem: "length bs + 128 \<le> malloc_max r"
    and i: "inp r = varlen_enc dt @ message_bytes st (Meta type bs) @ rest"
  shows "\<exists>r'. moved (length (varlen_enc dt @ message_bytes st (Meta type bs))) r r'
    \<and> Mf_currtime r' = s64 (Mf_currtime r + int dt) \<and> inp r' = rest \<and> holds_data (Meta type bs) r'
    \<and> track_event H r False st s = andThen (deliver H r' (Meta type bs) s)
        (\<lambda>s'. Inr (r', False, 0xff, s'))"
proof -
  from m have t: "0 \<le> type" "type < 256" and len: "length bs < 2 ^ 31" by auto
  have dt63: "dt < 2 ^ 63" "length bs < 2 ^ 63" using dt len by simp_all
  let ?r0 = "(advance (length (varlen_enc dt)) r)\<lparr>Mf_currtime := s64 (Mf_currtime r + int dt)\<rparr>"
  let ?r1 = "advance 2 ?r0" and ?k = "length (varlen_enc (length bs))"
  let ?r2 = "msginit (advance ?k ?r1)"
  note v = readvarinum_enc [OF dt63(1) i, of H]
  have i0: "inp ?r0 = 0xff # word_of_int type # varlen_enc (length bs) @ bs @ rest"
    using i by (simp add: advance_def)
  have i1: "inp ?r1 = varlen_enc (length bs) @ bs @ rest" using i0 by simp
  note v1 = readvarinum_enc [OF dt63(2) i1, of H]
  have i2: "inp ?r2 = bs @ rest"
    unfolding msginit_inp inp_advance [of ?k] i1 by simp
  have ty: "uint (word_of_int type :: byte) = type"
    using t by (simp add: unsigned_of_int take_bit_int_eq_self)
  have s: "s32 (int (length bs)) = int (length bs)" using len by (intro s32_id) simp_all
  let ?l = "Mf_toberead (advance ?k ?r1) - int (length bs)"
  have "\<exists>r'. collect H ?l type ?r2 = Inr (if bs = [] then type else uint (last bs), r')
    \<and> moved (length bs) ?r2 r' \<and> Mf_currtime r' = Mf_currtime ?r2
    \<and> Msgindex r' = Msgindex ?r2 + length bs \<and> Msgindex r' \<le> length (Msgbuff r')
    \<and> take (Msgindex r') (Msgbuff r') = take (Msgindex ?r2) (Msgbuff ?r2) @ bs"
    by (rule collect_bytes [OF i2]) (use mem in \<open>simp_all add: msginit_def advance_def\<close>)
  then obtain r' c where C0: "collect H ?l type ?r2 = Inr (c, r')" "moved (length bs) ?r2 r'"
    "Mf_currtime r' = Mf_currtime ?r2" "Msgindex r' = Msgindex ?r2 + length bs" "Msgindex r' \<le> length (Msgbuff r')"
    "take (Msgindex r') (Msgbuff r') = take (Msgindex ?r2) (Msgbuff ?r2) @ bs"
    by blast
  have z: "Msgindex ?r2 = 0" by (simp add: msginit_def)
  have C: "collect H ?l type ?r2 = Inr (c, r')" "moved (length bs) ?r2 r'"
    "Mf_currtime r' = Mf_currtime ?r2" "Msgindex r' = length bs" "length bs \<le> length (Msgbuff r')"
    "take (length bs) (Msgbuff r') = bs"
    using C0 unfolding z by simp_all
  have e: "egetc H ?r0 = Inr (255, advance 1 ?r0)" "egetc H (advance 1 ?r0) = Inr (type, ?r1)"
  proof -
    show "egetc H ?r0 = Inr (255, advance 1 ?r0)" using egetc_advance [OF i0, of H] by simp
    have "inp (advance 1 ?r0) = word_of_int type # varlen_enc (length bs) @ bs @ rest"
      unfolding inp_advance i0 by simp
    from egetc_advance [OF this, of H] show "egetc H (advance 1 ?r0) = Inr (type, ?r1)"
      unfolding ty advance_advance one_add_one .
  qed
  have "meta_message H (advance 1 ?r0) s = andThen (metaevent H r' type s) (\<lambda>s'. Inr (r', s'))"
    using e(2) v1 C(1) by (simp add: meta_message_def Let_def s)
  moreover have "(0xff :: int) AND 0x80 \<noteq> 0" "chantype ! nat (drop_bit 4 (0xff :: int) AND 0xf) = 0"
    by (simp_all add: chantype_def)
  ultimately have step: "track_event H r False st s = andThen (deliver H r' (Meta type bs) s)
      (\<lambda>s'. Inr (r', False, 0xff, s'))"
    using v e(1) by (simp add: track_event_def Let_def andThen_assoc)
  have "moved (length (varlen_enc dt) + (2 + ?k + length bs)) r r'"
    by (rule moved_trans [of _ _ ?r0], simp add: moved_def advance_def)
       (use C(2) in \<open>simp add: moved_def advance_def msginit_def ac_simps\<close>)
  moreover have "inp r' = rest"
  proof -
    have "inp r' = drop (length bs) (inp ?r2)" using C(2) by (simp only: moved_def)
    then show ?thesis unfolding i2 by simp
  qed
  moreover have "Mf_currtime r' = s64 (Mf_currtime r + int dt)" using C(3) by (simp add: msginit_def)
  ultimately show ?thesis
    using step C(4-6) by (intro exI [of _ r']) (simp add: holds_data_def add.assoc)
qed


text \<open>Both kinds of message.\<close>

definition data_length :: "message \<Rightarrow> nat" where
  "data_length m = (case m of Channel _ _ _ _ \<Rightarrow> 0 | Meta _ bs \<Rightarrow> length bs)"

lemma event_bytes:
  assumes ok: "timed_ok (dt, m)" and mem: "data_length m + 128 \<le> malloc_max r"
    and i: "inp r = varlen_enc dt @ message_bytes st m @ rest"
  shows "\<exists>r'. moved (length (varlen_enc dt @ message_bytes st m)) r r'
    \<and> Mf_currtime r' = s64 (Mf_currtime r + int dt) \<and> inp r' = rest \<and> holds_data m r'
    \<and> track_event H r False st s = andThen (deliver H r' m s) (\<lambda>s'. Inr (r', False, status_after m, s'))"
proof (cases m)
  case (Channel type chan d0 d1)
  have "message_ok (Channel type chan d0 d1)" "dt < 2 ^ 56"
    using ok Channel by (auto simp: timed_ok_def)
  from channel_event_bytes [OF this i [unfolded Channel], of H s] show ?thesis
    by (simp add: Channel holds_data_def)
next
  case (Meta type bs)
  have "message_ok (Meta type bs)" "dt < 2 ^ 56" "length bs + 128 \<le> malloc_max r"
    using ok mem Meta by (auto simp: timed_ok_def data_length_def)
  from meta_event_bytes [OF this i [unfolded Meta], of H s] show ?thesis
    by (simp add: Meta)
qed

lemma varlen_enc_nonempty [simp]: "varlen_enc v \<noteq> []"
  by (simp add: varlen_enc_def)

text \<open>
  The event loop over an encoded track: the handlers are called message by message, in order,
  at the times the delta times add up to. \<open>P t es s\<close> is any relation that the calls keep, between
  the time reached, the events still to come and the state of the handlers; the handlers get a
  parser state of which only the time and the data of the message are determined.
\<close>

lemma track_loop_bytes:
  assumes "list_all timed_ok es" "\<And>e. e \<in> set es \<Longrightarrow> data_length (snd e) + 128 \<le> malloc_max r"
    and "inp r = track_bytes st es @ rest" "Mf_toberead r = int (length (track_bytes st es))"
    and "\<And>t es' s1. P t es' s1 \<Longrightarrow> (case es' of [] \<Rightarrow> True | (dt, m) # es'' \<Rightarrow>
        (\<forall>r'. Mf_currtime r' = s64 (t + int dt) \<longrightarrow> holds_data m r' \<longrightarrow>
           (\<exists>s2. deliver H r' m s1 = Inr s2 \<and> P (s64 (t + int dt)) es'' s2)))"
    and "P (Mf_currtime r) es s"
  shows "\<exists>r' s' t. track_loop H r False st s = Inr (r', s') \<and> moved (length (track_bytes st es)) r r'
    \<and> inp r' = rest \<and> P t [] s'"
  using assms(1-4,6)
proof (induction es arbitrary: r st s)
  case Nil
  then show ?case by (subst track_loop.simps) (auto simp: moved_def)
next
  case (Cons e es)
  obtain dt m where e: "e = (dt, m)" by (cases e)
  have i: "inp r = varlen_enc dt @ message_bytes st m @ track_bytes (status_after m) es @ rest"
    using Cons.prems(3) e by simp
  have ok: "timed_ok (dt, m)" "data_length m + 128 \<le> malloc_max r"
    using Cons.prems(1) Cons.prems(2) [of e] e by simp_all
  from event_bytes [OF ok i, of H s] obtain r1 where
    r1: "moved (length (varlen_enc dt @ message_bytes st m)) r r1" "Mf_currtime r1 = s64 (Mf_currtime r + int dt)"
    "inp r1 = track_bytes (status_after m) es @ rest" "holds_data m r1"
    "track_event H r False st s = andThen (deliver H r1 m s) (\<lambda>s'. Inr (r1, False, status_after m, s'))"
    by blast
  from assms(5) [OF Cons.prems(5)] r1(2,4) e obtain s1 where
    s1: "deliver H r1 m s = Inr s1" "P (Mf_currtime r1) es s1" by auto
  have "0 < int (length (varlen_enc dt))" by (simp only: of_nat_0_less_iff length_greater_0_conv) simp
  moreover have "Mf_toberead r = int (length (varlen_enc dt)) + int (length (message_bytes st m))
    + int (length (track_bytes (status_after m) es))" using Cons.prems(4) e by simp
  ultimately have pos: "Mf_toberead r > 0" by linarith
  have tb: "Mf_toberead r1 = int (length (track_bytes (status_after m) es))"
    using r1(1) Cons.prems(4) e by (simp add: moved_def)
  have mem: "data_length (snd x) + 128 \<le> malloc_max r1" if "x \<in> set es" for x
    using Cons.prems(2) [of x] that r1(1) by (simp add: moved_def)
  have "list_all timed_ok es" using Cons.prems(1) by simp
  from Cons.IH [OF this mem r1(3) tb s1(2)] obtain r' s' t where
    R: "track_loop H r1 False (status_after m) s1 = Inr (r', s')"
    "moved (length (track_bytes (status_after m) es)) r1 r'" "inp r' = rest" "P t [] s'" by blast
  have "track_loop H r False st s = Inr (r', s')"
    using pos r1(5) s1(1) R(1) by (subst track_loop.simps) simp
  moreover have "moved (length (track_bytes st (e # es))) r r'"
    using moved_trans [OF r1(1) R(2)] e by (simp add: add.assoc)
  ultimately show ?case using R(3,4) by blast
qed

end
