(* ===== verification/Midi_Reader.thy ===== *)
theory Midi_Reader
  imports Parse
begin

text \<open>
  \<open>server/midi_reader.c\<close>: the functions bound to the parser's pointers, which build an \<open>Mfile\<close>
  out of the events of a file, and \<open>Mfile_from_file\<close>. The lemmas show what the tracks of the file
  hold after reading bytes in the format of theory \<open>Parse\<close>.
\<close>

section \<open>State\<close>

text \<open>The static \<open>mfile\<close> and the store its events live in.\<close>

record reader =
  rd_heap :: heap
  rd_mfile :: "Mfile option"

definition the_mfile :: "reader \<Rightarrow> Mfile res" where
  "the_mfile s = (case rd_mfile s of None \<Rightarrow> Inl Null_Deref | Some m \<Rightarrow> Inr m)"

definition the_cur_track :: "reader \<Rightarrow> Mtrack res" where
  "the_cur_track s = andThen (the_mfile s) (\<lambda>m.
     case cur_track m of None \<Rightarrow> Inl Null_Deref | Some t \<Rightarrow> Inr t)"

definition set_cur_track :: "Mtrack \<Rightarrow> reader \<Rightarrow> reader" where
  "set_cur_track t s = s\<lparr>rd_mfile := map_option (\<lambda>m. m\<lparr>cur_track := Some t\<rparr>) (rd_mfile s)\<rparr>"

text \<open>\<open>append_mevent (mfile->cur_track, new_\<dots>_event (Mf_currtime, \<dots>))\<close>.\<close>

definition append_new :: "new_event \<Rightarrow> reader \<Rightarrow> reader res" where
  "append_new v s =
     andThen (the_cur_track s) (\<lambda>t. andThen (add_event (rd_heap s, t) v) (\<lambda>(h', t').
       Inr (set_cur_track t' (s\<lparr>rd_heap := h'\<rparr>))))"

section \<open>Handlers\<close>

definition handle_header :: "build \<Rightarrow> int \<Rightarrow> int \<Rightarrow> int \<Rightarrow> reader \<Rightarrow> reader res" where
  "handle_header B format ntrks division s =
     andThen (assert_c B (rd_mfile s \<noteq> None)) (\<lambda>_. andThen (the_mfile s) (\<lambda>m.
       Inr (s\<lparr>rd_mfile := Some (m\<lparr>mf_division := division, mf_format := format, ntracks := ntrks,
                                 tracks := replicate (nat ntrks) None\<rparr>)\<rparr>)))"

definition handle_track_start :: "build \<Rightarrow> reader \<Rightarrow> reader res" where
  "handle_track_start B s =
     andThen (assert_c B (rd_mfile s \<noteq> None)) (\<lambda>_. andThen (the_mfile s) (\<lambda>m.
       Inr (s\<lparr>rd_mfile := Some (m\<lparr>cur_track := Some new_mtrack\<rparr>)\<rparr>)))"

text \<open>The first track of a file of format 1 is the tempo track; its texts name the piece.\<close>

definition detect_tempotrack :: "Mfile \<Rightarrow> Mfile res" where
  "detect_tempotrack m =
     (if has_tempotrack m = 0 \<and> mf_format m = 1 \<and> cur_track_index m = 0 then
        (case cur_track m of
           None \<Rightarrow> Inl Null_Deref
         | Some t \<Rightarrow>
             andThen (cstrdup (trk_name t)) (\<lambda>n. andThen (cstrdup (trk_text t)) (\<lambda>x.
               Inr (m\<lparr>cur_track := Some (t\<lparr>is_tempotrack := 1\<rparr>), has_tempotrack := 1,
                      music_name := (if n = None then music_name m else n),
                      info_text := (if x = None then info_text m else x)\<rparr>))))
      else Inr m)"

text \<open>The track is stored before the \<open>assert\<close> checks that there is room for it.\<close>

definition handle_track_end :: "build \<Rightarrow> reader \<Rightarrow> reader res" where
  "handle_track_end B s =
     andThen (the_mfile s) (\<lambda>m. andThen (detect_tempotrack m) (\<lambda>m1.
       let i = cur_track_index m1
       in if i < 0 \<or> int (length (tracks m1)) \<le> i then Inl Out_Of_Bounds
          else let m2 = m1\<lparr>tracks := (tracks m1)[nat i := cur_track m1], cur_track_index := i + 1,
                           cur_track := None\<rparr>
               in andThen (assert_c B (cur_track_index m2 \<le> ntracks m2)) (\<lambda>_. Inr (s\<lparr>rd_mfile := Some m2\<rparr>))))"

definition handle_noteon :: "int \<Rightarrow> int \<Rightarrow> int \<Rightarrow> int \<Rightarrow> reader \<Rightarrow> reader res" where
  "handle_noteon t chan pitch vel = append_new (New_reg (word_of_int t) note_on chan pitch vel)"

definition handle_noteoff :: "int \<Rightarrow> int \<Rightarrow> int \<Rightarrow> int \<Rightarrow> reader \<Rightarrow> reader res" where
  "handle_noteoff t chan pitch vel = append_new (New_reg (word_of_int t) note_off chan pitch vel)"

definition handle_pressure :: "int \<Rightarrow> int \<Rightarrow> int \<Rightarrow> int \<Rightarrow> reader \<Rightarrow> reader res" where
  "handle_pressure t chan pitch pressure =
     append_new (New_reg (word_of_int t) poly_aftertouch chan pitch pressure)"

definition handle_control_change :: "int \<Rightarrow> int \<Rightarrow> int \<Rightarrow> int \<Rightarrow> reader \<Rightarrow> reader res" where
  "handle_control_change t chan control v =
     append_new (New_reg (word_of_int t) control_change chan control v)"

text \<open>The parameters are named the other way round than the parser passes them, and swapped back.\<close>

definition handle_pitchbend :: "int \<Rightarrow> int \<Rightarrow> int \<Rightarrow> int \<Rightarrow> reader \<Rightarrow> reader res" where
  "handle_pitchbend t chan msb lsb = append_new (New_reg (word_of_int t) pitch_wheel chan lsb msb)"

definition handle_program :: "int \<Rightarrow> int \<Rightarrow> int \<Rightarrow> reader \<Rightarrow> reader res" where
  "handle_program t chan program = append_new (New_reg (word_of_int t) program_chng chan program 0)"

definition handle_chan_pressure :: "int \<Rightarrow> int \<Rightarrow> int \<Rightarrow> reader \<Rightarrow> reader res" where
  "handle_chan_pressure t chan pressure =
     append_new (New_reg (word_of_int t) channel_aftertouch chan pressure 0)"

definition handle_sysex :: "int \<Rightarrow> int \<Rightarrow> byte list \<Rightarrow> reader \<Rightarrow> reader res" where
  "handle_sysex t len msg = append_new (New_sysex (word_of_int t) len msg)"

definition handle_metamisc :: "int \<Rightarrow> int \<Rightarrow> int \<Rightarrow> byte list \<Rightarrow> reader \<Rightarrow> reader res" where
  "handle_metamisc t type len msg = append_new (New_meta (word_of_int t) type (nat len) msg)"

text \<open>The meta types of \<open>midifile.h\<close>.\<close>

definition sequence_number :: int where "sequence_number = 0"
definition text_event :: int where "text_event = 1"
definition copyright_notice :: int where "copyright_notice = 2"
definition sequence_name :: int where "sequence_name = 3"
definition instrument_name :: int where "instrument_name = 4"
definition end_of_track :: int where "end_of_track = 0x2f"
definition set_tempo :: int where "set_tempo = 0x51"
definition smpte_offset :: int where "smpte_offset = 0x54"
definition time_signature :: int where "time_signature = 0x58"
definition key_signature :: int where "key_signature = 0x59"
definition sequencer_specific :: int where "sequencer_specific = 0x7f"

lemmas meta_type_defs = sequence_number_def text_event_def copyright_notice_def sequence_name_def
  instrument_name_def end_of_track_def set_tempo_def smpte_offset_def time_signature_def
  key_signature_def sequencer_specific_def

definition my_handle_metaseq :: "int \<Rightarrow> byte list \<Rightarrow> reader \<Rightarrow> reader res" where
  "my_handle_metaseq t data = append_new (New_meta (word_of_int t) sequence_number 2 data)"

text \<open>
  \<open>handle_metatext\<close>: besides the event, the first text of each kind is kept as a C string.
\<close>

definition keep_text :: "int \<Rightarrow> byte list \<Rightarrow> Mfile \<Rightarrow> Mtrack \<Rightarrow> Mfile" where
  "keep_text type str m t =
     (if type = text_event then
        (if trk_text t = None then m\<lparr>cur_track := Some (t\<lparr>trk_text := Some str\<rparr>)\<rparr> else m)
      else if type = copyright_notice then
        (if copyright_info m = None then m\<lparr>copyright_info := Some str\<rparr> else m)
      else if type = sequence_name then
        (if trk_name t = None then m\<lparr>cur_track := Some (t\<lparr>trk_name := Some str\<rparr>)\<rparr> else m)
      else if type = instrument_name then
        (if trk_instrument t = None then m\<lparr>cur_track := Some (t\<lparr>trk_instrument := Some str\<rparr>)\<rparr> else m)
      else m)"

definition handle_metatext :: "int \<Rightarrow> int \<Rightarrow> int \<Rightarrow> byte list \<Rightarrow> reader \<Rightarrow> reader res" where
  "handle_metatext t type len msg s =
     andThen (append_new (New_meta (word_of_int t) type (nat len) msg) s) (\<lambda>s1.
     andThen (read_buf (nat len) msg) (\<lambda>str.
     andThen (the_mfile s1) (\<lambda>m. andThen (the_cur_track s1) (\<lambda>trk.
       Inr (s1\<lparr>rd_mfile := Some (keep_text type (str @ [0]) m trk)\<rparr>)))))"

definition handle_metaeot :: "int \<Rightarrow> reader \<Rightarrow> reader res" where
  "handle_metaeot t = append_new (New_meta (word_of_int t) end_of_track 0 [])"

definition my_handle_tempo :: "int \<Rightarrow> byte list \<Rightarrow> reader \<Rightarrow> reader res" where
  "my_handle_tempo t data = append_new (New_meta (word_of_int t) set_tempo 3 data)"

definition my_handle_smpte :: "int \<Rightarrow> byte list \<Rightarrow> reader \<Rightarrow> reader res" where
  "my_handle_smpte t data = append_new (New_meta (word_of_int t) smpte_offset 5 data)"

definition my_handle_timesig :: "int \<Rightarrow> byte list \<Rightarrow> reader \<Rightarrow> reader res" where
  "my_handle_timesig t data = append_new (New_meta (word_of_int t) time_signature 4 data)"

definition my_handle_keysig :: "int \<Rightarrow> byte list \<Rightarrow> reader \<Rightarrow> reader res" where
  "my_handle_keysig t data = append_new (New_meta (word_of_int t) key_signature 2 data)"

definition handle_metaspecial :: "int \<Rightarrow> int \<Rightarrow> byte list \<Rightarrow> reader \<Rightarrow> reader res" where
  "handle_metaspecial t len msg = append_new (New_meta (word_of_int t) sequencer_specific (nat len) msg)"

definition handle_arbitrary :: "int \<Rightarrow> int \<Rightarrow> byte list \<Rightarrow> reader \<Rightarrow> reader res" where
  "handle_arbitrary t len msg s = Inr s"

definition handle_error :: "string \<Rightarrow> fault" where
  "handle_error msg = Exit 1 msg"

definition bindfcns :: "build \<Rightarrow> reader mf_handlers" where
  "bindfcns B = \<lparr>Mf_getc_set = True, Mf_error = Some handle_error,
     Mf_header = Some (handle_header B), Mf_trackstart = Some (handle_track_start B),
     Mf_trackend = Some (handle_track_end B), Mf_noteon = Some handle_noteon,
     Mf_noteoff = Some handle_noteoff, Mf_pressure = Some handle_pressure,
     Mf_parameter = Some handle_control_change, Mf_pitchbend = Some handle_pitchbend,
     Mf_program = Some handle_program, Mf_chanpressure = Some handle_chan_pressure,
     Mf_sysex = Some handle_sysex, Mf_arbitrary = Some handle_arbitrary,
     Mf_metamisc = Some handle_metamisc, Mf_seqnum = None, Mf_eot = Some handle_metaeot,
     Mf_smpte = None, Mf_tempo = None, Mf_timesig = None, Mf_keysig = None,
     Mf_seqspecific = Some handle_metaspecial, Mf_text = Some handle_metatext,
     My_seqnum = Some my_handle_metaseq, My_tempo = Some my_handle_tempo,
     My_smpte = Some my_handle_smpte, My_timesig = Some my_handle_timesig,
     My_keysig = Some my_handle_keysig\<rparr>"

section \<open>Files\<close>

text \<open>
  \<open>fs\<close> gives the contents of the files that can be opened. A path is a C string without its
  terminating zero; \<open>strrchr\<close> gives the rest of the string from the last occurrence on.
\<close>

fun strrchr :: "byte \<Rightarrow> byte list \<Rightarrow> byte list option" where
  "strrchr c [] = None"
| "strrchr c (x # xs) = (case strrchr c xs of Some t \<Rightarrow> Some t | None \<Rightarrow> (if x = c then Some (x # xs) else None))"

definition slash :: byte where
  "slash = 47"

text \<open>
  When the path has no slash, the pointer is set to its first character, and then moved on by one
  all the same.
\<close>

definition loadfile :: "(byte list \<Rightarrow> byte list option) \<Rightarrow> byte list \<Rightarrow> rd \<Rightarrow> reader \<Rightarrow> (int \<times> rd \<times> reader) res" where
  "loadfile fs path r s = (case fs path of
      None \<Rightarrow> Inr (-1, r, s)
    | Some content \<Rightarrow>
        let name = (case strrchr slash path of None \<Rightarrow> path @ [0] | Some t \<Rightarrow> t @ [0])
        in andThen (strdup_c (tl name)) (\<lambda>n. andThen (strdup_c (path @ [0])) (\<lambda>p.
             Inr (0, r\<lparr>inp := content\<rparr>,
               s\<lparr>rd_mfile := Some (new_mfile\<lparr>filename := Some n, fullpath := Some p\<rparr>)\<rparr>))))"

definition Mfile_from_file ::
  "build \<Rightarrow> (byte list \<Rightarrow> byte list option) \<Rightarrow> byte list \<Rightarrow> rd \<Rightarrow> reader \<Rightarrow> (Mfile option \<times> rd \<times> reader) res" where
  "Mfile_from_file B fs path r s =
     andThen (loadfile fs path r s) (\<lambda>(rc, r1, s1).
       if rc = -1 then Inr (None, r1, s1)
       else andThen (mfread (bindfcns B) r1 s1) (\<lambda>(r2, s2). Inr (rd_mfile s2, r2, s2)))"

definition check_rep :: "reader \<Rightarrow> bool" where
  "check_rep s \<longleftrightarrow> rd_mfile s \<noteq> None"

section \<open>Several tracks in one store\<close>

text \<open>Tracks that are in good order and share no event.\<close>

definition forest :: "heap \<Rightarrow> Mtrack list \<Rightarrow> bool" where
  "forest h ts \<longleftrightarrow> heap_ok h \<and> (\<forall>t \<in> set ts. building (h, t)) \<and> distinct (concat (map (track_addrs h) ts))"

lemma track_fields [simp]:
  "track_addrs h (t\<lparr>trk_text := x\<rparr>) = track_addrs h t" "track_addrs h (t\<lparr>trk_name := x\<rparr>) = track_addrs h t"
  "track_addrs h (t\<lparr>trk_instrument := x\<rparr>) = track_addrs h t" "track_addrs h (t\<lparr>is_tempotrack := i\<rparr>) = track_addrs h t"
  by (simp_all add: track_addrs_def)

lemma track_items_fields [simp]:
  "track_items h (t\<lparr>trk_text := x\<rparr>) = track_items h t" "track_items h (t\<lparr>trk_name := x\<rparr>) = track_items h t"
  "track_items h (t\<lparr>trk_instrument := x\<rparr>) = track_items h t" "track_items h (t\<lparr>is_tempotrack := i\<rparr>) = track_items h t"
  by (simp_all add: track_items_def track_events_def)

lemma building_fields [simp]:
  "building (h, t\<lparr>trk_text := x\<rparr>) = building (h, t)" "building (h, t\<lparr>trk_name := x\<rparr>) = building (h, t)"
  "building (h, t\<lparr>trk_instrument := x\<rparr>) = building (h, t)" "building (h, t\<lparr>is_tempotrack := i\<rparr>) = building (h, t)"
  by (simp_all add: track_ok_def bufs_live_def deltas_ok_def track_deltas_def track_events_def)

lemma building_new_mtrack [simp]: "building (h, new_mtrack) = heap_ok h"
proof -
  have "walk h n None = []" for n by (cases n) simp_all
  then show ?thesis
    by (auto simp: new_mtrack_def track_ok_def track_addrs_def bufs_live_def deltas_ok_def
        track_deltas_def track_events_def)
qed

lemma track_new_mtrack [simp]: "track_addrs h new_mtrack = []" "track_items h new_mtrack = []"
proof -
  have "walk h n None = []" for n by (cases n) simp_all
  then show "track_addrs h new_mtrack = []" by (simp add: new_mtrack_def track_addrs_def)
  then show "track_items h new_mtrack = []" by (simp add: track_items_def track_events_def)
qed

lemma building_addrs_below: "building (h, t) \<Longrightarrow> a \<in> set (track_addrs h t) \<Longrightarrow> a < brk h"
  using chain_below by (auto simp: track_ok_def Let_def)

text \<open>Adding an event to one track leaves the others, and the good order of all, as they were.\<close>

lemma forest_frame:
  assumes "forest h ts" "heap_ok h'" "same_elsewhere A h h'"
    and "\<And>t. t \<in> set ts \<Longrightarrow> set (track_addrs h t) \<inter> A = {}"
  shows "forest h' ts \<and> (\<forall>t \<in> set ts. track_addrs h' t = track_addrs h t \<and> track_items h' t = track_items h t)"
proof -
  have one: "building (h', t) \<and> track_addrs h' t = track_addrs h t \<and> track_items h' t = track_items h t"
    if "t \<in> set ts" for t
  proof -
    have b: "heap_ok h" "track_ok h t" "bufs_live h t" "deltas_ok h t"
      using assms(1) that by (auto simp: forest_def)
    note f = track_frame [OF b(2,1) assms(2,3) assms(4) [OF that]]
      track_frame_items [OF b(2,1) assms(2) b(3) assms(3) assms(4) [OF that]]
    show ?thesis using b f assms(2) by (simp add: deltas_ok_def)
  qed
  then have eq: "map (track_addrs h') ts = map (track_addrs h) ts" by simp
  have "distinct (concat (map (track_addrs h') ts))"
    unfolding eq using assms(1) by (simp only: forest_def)
  with one assms(2) show ?thesis by (simp only: forest_def) blast
qed

lemma forest_add:
  assumes "forest h (ts @ [t])" "new_ok v"
  shows "\<exists>h' t'. add_event (h, t) v = Inr (h', t') \<and> forest h' (ts @ [t'])
    \<and> track_items h' t' = track_items h t @ [new_view v]
    \<and> map (track_items h') ts = map (track_items h) ts \<and> same_header t' t"
proof -
  have b: "building (h, t)" using assms(1) by (simp add: forest_def)
  from add_event_ok [OF b assms(2)] obtain h' t' a where A: "add_event (h, t) v = Inr (h', t')"
    "building (h', t')" "track_items h' t' = track_items h t @ [new_view v]"
    "track_addrs h' t' = track_addrs h t @ [a]" "brk h \<le> a"
    "same_elsewhere (insert a (set (track_addrs h t))) h h'" "same_header t' t"
    by blast
  have f: "forest h ts" using assms(1) by (simp add: forest_def)
  have below: "\<And>u x. u \<in> set ts \<Longrightarrow> x \<in> set (track_addrs h u) \<Longrightarrow> x < brk h"
    using f building_addrs_below unfolding forest_def by blast
  have disj: "set (track_addrs h u) \<inter> insert a (set (track_addrs h t)) = {}" if "u \<in> set ts" for u
    using assms(1) that A(5) below [OF that] by (fastforce simp: forest_def)
  have h': "heap_ok h'" using A(2) by simp
  note F = forest_frame [OF f h' A(6) disj]
  have eq: "map (track_addrs h') ts = map (track_addrs h) ts" using F by simp
  have "a \<notin> set (concat (map (track_addrs h) ts))" using below A(5) by fastforce
  moreover have "distinct (track_addrs h t @ [a])"
    using assms(1) A(5) b building_addrs_below [OF b] by (fastforce simp: forest_def)
  ultimately have "distinct (concat (map (track_addrs h') (ts @ [t'])))"
    unfolding map_append concat_append eq using assms(1) A(4) by (auto simp: forest_def)
  then have "forest h' (ts @ [t'])" using F A(2) by (simp add: forest_def)
  then show ?thesis using A(1,3,7) F by auto
qed

lemma forest_fields [simp]:
  "forest h (ts @ [t\<lparr>trk_text := x\<rparr>]) = forest h (ts @ [t])"
  "forest h (ts @ [t\<lparr>trk_name := x\<rparr>]) = forest h (ts @ [t])"
  "forest h (ts @ [t\<lparr>trk_instrument := x\<rparr>]) = forest h (ts @ [t])"
  "forest h (ts @ [t\<lparr>is_tempotrack := i\<rparr>]) = forest h (ts @ [t])"
  by (simp_all add: forest_def del: building.simps)

section \<open>What the handlers record\<close>

text \<open>
  The item a message leaves in its track. The data bytes of a pitch bend change places, because
  \<open>chanmessage\<close> passes the low byte first and \<open>handle_pitchbend\<close> takes its first parameter for
  the high byte.
\<close>

fun message_view :: "ulong \<Rightarrow> message \<Rightarrow> ulong \<times> body" where
  "message_view ct (Channel type chan d0 d1) = (ct,
     if \<not> two_bytes type then Reg_body type chan d0 0 1
     else if type = pitch_wheel then Reg_body type chan d1 d0 2
     else Reg_body type chan d0 d1 2)"
| "message_view ct (Meta type bs) = (ct, Meta_body type (int (length bs)) bs)"

fun items_from :: "int \<Rightarrow> timed list \<Rightarrow> (ulong \<times> body) list" where
  "items_from t [] = []"
| "items_from t ((dt, m) # es) =
     message_view (word_of_int (s64 (t + int dt))) m # items_from (s64 (t + int dt)) es"

text \<open>
  A track is being read: \<open>m0\<close> is the file as it was at the start of the track, \<open>ts\<close> the tracks
  before with their items, \<open>items\<close> what the current track holds so far.
\<close>

definition same_file :: "Mfile \<Rightarrow> Mfile \<Rightarrow> bool" where
  "same_file m m0 \<longleftrightarrow> mf_format m = mf_format m0 \<and> mf_division m = mf_division m0
     \<and> has_tempotrack m = has_tempotrack m0 \<and> ntracks m = ntracks m0 \<and> tracks m = tracks m0
     \<and> cur_track_index m = cur_track_index m0 \<and> filename m = filename m0 \<and> fullpath m = fullpath m0"

definition c_string :: "byte list option \<Rightarrow> bool" where
  "c_string s \<longleftrightarrow> (case s of None \<Rightarrow> True | Some b \<Rightarrow> 0 \<in> set b)"

lemma c_string_None [simp]: "c_string None"
  by (simp add: c_string_def)

definition strings_ok :: "Mtrack \<Rightarrow> bool" where
  "strings_ok t \<longleftrightarrow> c_string (trk_name t) \<and> c_string (trk_text t) \<and> c_string (trk_instrument t)"

definition file_strings_ok :: "Mfile \<Rightarrow> bool" where
  "file_strings_ok m \<longleftrightarrow> c_string (filename m) \<and> c_string (music_name m) \<and> c_string (info_text m)
     \<and> c_string (copyright_info m)"

definition reading ::
  "Mfile \<Rightarrow> Mtrack list \<Rightarrow> (ulong \<times> body) list list \<Rightarrow> (ulong \<times> body) list \<Rightarrow> reader \<Rightarrow> bool" where
  "reading m0 ts itss items s \<longleftrightarrow> (\<exists>m t. rd_mfile s = Some m \<and> cur_track m = Some t \<and> same_file m m0
     \<and> forest (rd_heap s) (ts @ [t]) \<and> map (track_items (rd_heap s)) ts = itss
     \<and> track_items (rd_heap s) t = items \<and> is_tempotrack t = 0 \<and> strings_ok t \<and> file_strings_ok m)"

lemma append_new_ok:
  assumes "reading m0 ts itss items s" "new_ok v"
  shows "\<exists>s'. append_new v s = Inr s' \<and> reading m0 ts itss (items @ [new_view v]) s'"
proof -
  from assms(1) obtain m t where r: "rd_mfile s = Some m" "cur_track m = Some t" "same_file m m0"
    "forest (rd_heap s) (ts @ [t])" "map (track_items (rd_heap s)) ts = itss"
    "track_items (rd_heap s) t = items" "is_tempotrack t = 0" "strings_ok t" "file_strings_ok m"
    by (auto simp: reading_def)
  from forest_add [OF r(4) assms(2)] obtain h' t' where a: "add_event (rd_heap s, t) v = Inr (h', t')"
    "forest h' (ts @ [t'])" "track_items h' t' = items @ [new_view v]" "map (track_items h') ts = itss"
    "same_header t' t"
    using r(5,6) by metis
  have "append_new v s = Inr (set_cur_track t' (s\<lparr>rd_heap := h'\<rparr>))"
    using r(1,2) a(1) by (simp add: append_new_def the_cur_track_def the_mfile_def)
  moreover have "reading m0 ts itss (items @ [new_view v]) (set_cur_track t' (s\<lparr>rd_heap := h'\<rparr>))"
    using r a(2-5) by (simp add: reading_def set_cur_track_def same_file_def same_header_def strings_ok_def file_strings_ok_def)
  ultimately show ?thesis by blast
qed

lemma keep_text_reading:
  assumes "reading m0 ts itss items s" "0 \<in> set str" "rd_mfile s = Some m" "cur_track m = Some t"
  shows "reading m0 ts itss items (s\<lparr>rd_mfile := Some (keep_text type str m t)\<rparr>)"
proof -
  from assms(1,3,4) have r: "same_file m m0"
    "forest (rd_heap s) (ts @ [t])" "map (track_items (rd_heap s)) ts = itss"
    "track_items (rd_heap s) t = items" "is_tempotrack t = 0" "strings_ok t" "file_strings_ok m"
    by (auto simp only: reading_def option.inject)
  have c: "c_string (Some str)" using assms(2) by (simp add: c_string_def)
  let ?m = "keep_text type str m t"
  have "\<exists>t'. cur_track ?m = Some t' \<and>
    t' \<in> {t, t\<lparr>trk_text := Some str\<rparr>, t\<lparr>trk_name := Some str\<rparr>, t\<lparr>trk_instrument := Some str\<rparr>}"
    using assms(4) unfolding keep_text_def by auto
  then obtain t' where t': "cur_track ?m = Some t'"
    "t' \<in> {t, t\<lparr>trk_text := Some str\<rparr>, t\<lparr>trk_name := Some str\<rparr>, t\<lparr>trk_instrument := Some str\<rparr>}"
    by blast
  have f: "forest (rd_heap s) (ts @ [t'])"
    using r(2) t'(2) by (auto simp only: forest_fields insert_iff empty_iff)
  have "same_file ?m m0" using r(1) by (simp add: keep_text_def same_file_def)
  moreover have "track_items (rd_heap s) t' = items" "is_tempotrack t' = 0" "strings_ok t'"
    using t'(2) r(4-6) c by (auto simp: strings_ok_def)
  moreover have "file_strings_ok ?m" using r(7) c by (simp add: keep_text_def file_strings_ok_def)
  ultimately show ?thesis using t'(1) f r(3) unfolding reading_def by simp
qed

lemma handle_metatext_ok:
  assumes "reading m0 ts itss items s" "len \<le> length msg"
  shows "\<exists>s'. handle_metatext t type (int len) msg s = Inr s'
    \<and> reading m0 ts itss (items @ [new_view (New_meta (word_of_int t) type len msg)]) s'"
proof -
  have "new_ok (New_meta (word_of_int t) type len msg)" using assms(2) by simp
  from append_new_ok [OF assms(1) this] obtain s1 where s1:
    "append_new (New_meta (word_of_int t) type len msg) s = Inr s1"
    "reading m0 ts itss (items @ [new_view (New_meta (word_of_int t) type len msg)]) s1" by blast
  from s1(2) obtain m trk where m: "rd_mfile s1 = Some m" "cur_track m = Some trk"
    by (auto simp: reading_def)
  from keep_text_reading [OF s1(2) _ m, of "take len msg @ [0]" type] show ?thesis
    using s1(1) m assms(2) by (simp add: handle_metatext_def the_cur_track_def the_mfile_def)
qed

lemma chan_nibbles:
  assumes "type \<in> set channel_types" "0 \<le> chan" "chan < 16"
  shows "(type + chan) AND 0xf = chan" "(type + chan) AND 0xf0 = type"
  using channel_status [OF assms] by simp_all

lemma deliver_ok:
  assumes s: "reading m0 ts itss items s" and m: "message_ok m" and r: "holds_data m r"
  shows "\<exists>s'. deliver (bindfcns B) r m s = Inr s'
    \<and> reading m0 ts itss (items @ [message_view (word_of_int (Mf_currtime r)) m]) s'"
proof (cases m)
  case (Channel type chan d0 d1)
  let ?v = "\<lambda>p1 p2. New_reg (word_of_int (Mf_currtime r)) type chan p1 p2"
  from m Channel have t: "type \<in> set channel_types" "0 \<le> chan" "chan < 16" by auto
  have "deliver (bindfcns B) r m s = append_new
     (if \<not> two_bytes type then ?v (uint d0) 0 else if type = pitch_wheel then ?v (uint d1) (uint d0)
      else ?v (uint d0) (uint d1)) s"
    using t(1) unfolding Channel
    by (auto simp: chanmessage_def chan_nibbles [OF t] Let_def bindfcns_def channel_types_def two_bytes_def
        status_defs handle_noteoff_def handle_noteon_def handle_pressure_def handle_control_change_def
        handle_pitchbend_def handle_program_def handle_chan_pressure_def)
  moreover have "new_view (if \<not> two_bytes type then ?v (uint d0) 0 else if type = pitch_wheel then ?v (uint d1) (uint d0)
      else ?v (uint d0) (uint d1)) = message_view (word_of_int (Mf_currtime r)) m"
    using t(1) unfolding Channel
    by (auto simp: reg_params_def two_bytes_def status_defs channel_types_def)
  moreover have "new_ok (if \<not> two_bytes type then ?v (uint d0) 0 else if type = pitch_wheel then ?v (uint d1) (uint d0)
      else ?v (uint d0) (uint d1))" by simp
  ultimately show ?thesis using append_new_ok [OF s] by metis
next
  case (Meta type bs)
  let ?t = "Mf_currtime r"
  let ?v = "New_meta (word_of_int ?t) type (length bs) (Msgbuff r)"
  from m Meta have t: "0 \<le> type" "type < 256" "length bs < 2 ^ 31"
    "case fixed_length type of None \<Rightarrow> True | Some n \<Rightarrow> length bs = n" by auto
  from r Meta have d: "Msgindex r = length bs" "length bs \<le> length (Msgbuff r)" "take (length bs) (Msgbuff r) = bs"
    by (auto simp: holds_data_def)
  have "s32 (int (length bs)) = int (length bs)" using t(3) by (intro s32_id) simp_all
  then have view: "new_view ?v = message_view (word_of_int ?t) m"
    using t d by (simp add: Meta)
  have ok: "new_ok ?v" using d by simp
  show ?thesis
  proof (cases "1 \<le> type \<and> type \<le> 15")
    case True
    then have "deliver (bindfcns B) r m s = handle_metatext ?t type (int (length bs)) (Msgbuff r) s"
      by (simp add: Meta metaevent_def bindfcns_def Let_def d)
    then show ?thesis using handle_metatext_ok [OF s d(2), of ?t type] view by simp
  next
    case False
    show ?thesis
    proof (cases "type = 0x2f")
      case True
      have "append_new (New_meta (word_of_int ?t) 0x2f 0 []) s = deliver (bindfcns B) r m s"
        using True by (simp add: Meta metaevent_def bindfcns_def Let_def handle_metaeot_def end_of_track_def)
      moreover have "new_view (New_meta (word_of_int ?t) 0x2f 0 []) = message_view (word_of_int ?t) m"
        using True t by (simp add: Meta fixed_length_def s32_def)
      moreover have "new_ok (New_meta (word_of_int ?t) 0x2f 0 [])" by simp
      ultimately show ?thesis using append_new_ok [OF s] by metis
    next
      case False2: False
      have "deliver (bindfcns B) r m s = append_new ?v s"
        using t(4) False False2
        by (auto simp: Meta metaevent_def bindfcns_def Let_def d fixed_length_def meta_type_defs
            my_handle_metaseq_def my_handle_tempo_def my_handle_smpte_def my_handle_timesig_def
            my_handle_keysig_def handle_metaspecial_def handle_metamisc_def)
      then show ?thesis using append_new_ok [OF s ok] view by simp
    qed
  qed
qed

section \<open>Reading chunks\<close>

text \<open>The byte format of a whole file.\<close>

definition tag :: "string \<Rightarrow> byte list" where
  "tag s = map of_char s"

definition track_chunk :: "timed list \<Rightarrow> byte list" where
  "track_chunk es = tag ''MTrk'' @ be32 (length (track_bytes 0 es)) @ track_bytes 0 es"

definition header_chunk :: "int \<Rightarrow> int \<Rightarrow> int \<Rightarrow> byte list" where
  "header_chunk format n division = tag ''MThd'' @ be32 6 @ be16 format @ be16 n @ be16 division"

definition midi_bytes :: "int \<Rightarrow> int \<Rightarrow> timed list list \<Rightarrow> byte list" where
  "midi_bytes format division tss =
     header_chunk format (int (length tss)) division @ concat (map track_chunk tss)"

text \<open>A track that fits the format and the parser's memory.\<close>

definition track_fits :: "nat \<Rightarrow> timed list \<Rightarrow> bool" where
  "track_fits mem es \<longleftrightarrow> list_all timed_ok es \<and> list_all (\<lambda>e. data_length (snd e) + 128 \<le> mem) es
     \<and> length (track_bytes 0 es) < 2 ^ 32"

lemma readmt_tag:
  assumes "inp r = tag s @ rest" "s \<noteq> []"
  shows "\<exists>c. readmt H s r = Inr (c, r\<lparr>inp := rest\<rparr>) \<and> c \<noteq> EOF_c"
proof -
  have byte: "uint (of_char p :: byte) = int (of_char p)" for p
  proof -
    have "(of_char p :: nat) < 256" by simp
    then show ?thesis
      by (subst of_nat_of_char [symmetric]) (simp add: unsigned_of_nat take_bit_nat_eq_self del: of_nat_of_char)
  qed
  have "\<exists>c'. readmt_loop H t ps c r = Inr (c', r\<lparr>inp := rest\<rparr>) \<and> (ps \<noteq> [] \<longrightarrow> c' \<noteq> EOF_c)"
    if "inp r = tag ps @ rest" for ps c t and r :: rd
    using that
  proof (induction ps arbitrary: c r)
    case Nil
    then show ?case by (simp add: tag_def)
  next
    case (Cons p ps)
    from Cons.prems have i: "inp r = of_char p # tag ps @ rest" by (simp add: tag_def)
    from Cons.IH [of "r\<lparr>inp := tag ps @ rest\<rparr>"] obtain c' where
      c': "readmt_loop H t ps (uint (of_char p :: byte)) (r\<lparr>inp := tag ps @ rest\<rparr>) = Inr (c', r\<lparr>inp := rest\<rparr>)"
      "ps \<noteq> [] \<longrightarrow> c' \<noteq> EOF_c" by auto
    show ?case
    proof (cases "ps = []")
      case True
      then show ?thesis using i byte by (simp add: tag_def EOF_c_def)
    next
      case False
      then show ?thesis using i c' byte by simp
    qed
  qed
  from this [OF assms(1)] show ?thesis using assms(2) by (simp add: readmt_def)
qed

text \<open>Between two tracks: what the file record holds when the tracks \<open>ts\<close> have been read.\<close>

definition file_frame :: "int \<Rightarrow> int \<Rightarrow> nat \<Rightarrow> Mfile \<Rightarrow> Mtrack list \<Rightarrow> bool" where
  "file_frame format division n m ts \<longleftrightarrow> mf_format m = format \<and> mf_division m = division \<and> ntracks m = int n
     \<and> length ts \<le> n \<and> tracks m = map Some ts @ replicate (n - length ts) None
     \<and> cur_track_index m = int (length ts)
     \<and> has_tempotrack m = (if format = 1 \<and> ts \<noteq> [] then 1 else 0)
     \<and> file_strings_ok m \<and> (\<forall>t \<in> set ts. strings_ok t)
     \<and> (\<forall>i < length ts. is_tempotrack (ts ! i) = (if format = 1 \<and> i = 0 then 1 else 0))"

definition file_holds :: "int \<Rightarrow> int \<Rightarrow> nat \<Rightarrow> (ulong \<times> body) list list \<Rightarrow> reader \<Rightarrow> bool" where
  "file_holds format division n itss s \<longleftrightarrow> (\<exists>m ts. rd_mfile s = Some m \<and> file_frame format division n m ts
     \<and> forest (rd_heap s) ts \<and> map (track_items (rd_heap s)) ts = itss)"

lemma forest_snoc_new [simp]: "forest h (ts @ [new_mtrack]) = forest h ts"
  by (auto simp: forest_def simp del: building.simps)

lemma handle_track_start_ok:
  assumes "file_holds format division n itss s"
  shows "\<exists>s' m0 ts. handle_track_start B s = Inr s' \<and> reading m0 ts itss [] s'
    \<and> file_frame format division n m0 ts \<and> length ts = length itss"
proof -
  from assms obtain m ts where m: "rd_mfile s = Some m" "file_frame format division n m ts"
    "forest (rd_heap s) ts" "map (track_items (rd_heap s)) ts = itss" by (auto simp: file_holds_def)
  let ?s = "s\<lparr>rd_mfile := Some (m\<lparr>cur_track := Some new_mtrack\<rparr>)\<rparr>"
  have "handle_track_start B s = Inr ?s" using m(1) by (simp add: handle_track_start_def the_mfile_def)
  moreover have "is_tempotrack new_mtrack = 0" "strings_ok new_mtrack"
    by (simp_all add: new_mtrack_def strings_ok_def c_string_def)
  then have "reading m ts itss [] ?s"
    using m by (simp add: reading_def same_file_def file_frame_def file_strings_ok_def)
  ultimately show ?thesis using m(2,4) by (metis length_map)
qed

lemma cstrdup_ok: "c_string x \<Longrightarrow> \<exists>y. cstrdup x = Inr y \<and> c_string y"
  by (auto simp: c_string_def cstrdup_def strdup_c_def split: option.splits)

lemma detect_tempotrack_ok:
  assumes "file_frame format division n m0 ts" "same_file m m0" "cur_track m = Some t"
    and "is_tempotrack t = 0" "strings_ok t" "file_strings_ok m"
  shows "\<exists>m1 t1. detect_tempotrack m = Inr m1 \<and> cur_track m1 = Some t1
    \<and> t1 = t\<lparr>is_tempotrack := (if format = 1 \<and> ts = [] then 1 else 0)\<rparr>
    \<and> has_tempotrack m1 = (if format = 1 then 1 else 0)
    \<and> mf_format m1 = format \<and> mf_division m1 = division \<and> ntracks m1 = ntracks m0
    \<and> tracks m1 = tracks m0 \<and> cur_track_index m1 = cur_track_index m0 \<and> file_strings_ok m1"
proof -
  from assms(5) have "c_string (trk_name t)" "c_string (trk_text t)" by (simp_all add: strings_ok_def)
  from cstrdup_ok [OF this(1)] cstrdup_ok [OF this(2)] obtain nm tx where
    d: "cstrdup (trk_name t) = Inr nm" "cstrdup (trk_text t) = Inr tx" "c_string nm" "c_string tx" by auto
  show ?thesis
  proof (cases "format = 1 \<and> ts = []")
    case True
    then show ?thesis using assms d
      by (simp add: detect_tempotrack_def same_file_def file_frame_def file_strings_ok_def)
  next
    case False
    then have "detect_tempotrack m = Inr m" using assms(1,2)
      by (auto simp: detect_tempotrack_def same_file_def file_frame_def)
    moreover have "t = t\<lparr>is_tempotrack := 0\<rparr>" using assms(4) by simp
    ultimately show ?thesis using False assms(1-3,6)
      by (auto simp: same_file_def file_frame_def)
  qed
qed

lemma handle_track_end_ok:
  assumes "reading m0 ts itss items s" "file_frame format division n m0 ts" "length ts < n"
  shows "\<exists>s'. handle_track_end B s = Inr s' \<and> file_holds format division n (itss @ [items]) s'"
proof -
  from assms(1) obtain m t where r: "rd_mfile s = Some m" "cur_track m = Some t" "same_file m m0"
    "forest (rd_heap s) (ts @ [t])" "map (track_items (rd_heap s)) ts = itss"
    "track_items (rd_heap s) t = items" "is_tempotrack t = 0" "strings_ok t" "file_strings_ok m"
    by (auto simp: reading_def)
  from detect_tempotrack_ok [OF assms(2) r(3,2,7-9)] obtain m1 t1 where d:
    "detect_tempotrack m = Inr m1" "cur_track m1 = Some t1"
    "t1 = t\<lparr>is_tempotrack := (if format = 1 \<and> ts = [] then 1 else 0)\<rparr>"
    "has_tempotrack m1 = (if format = 1 then 1 else 0)" "mf_format m1 = format" "mf_division m1 = division"
    "ntracks m1 = ntracks m0" "tracks m1 = tracks m0" "cur_track_index m1 = cur_track_index m0"
    "file_strings_ok m1"
    by blast
  note F = assms(2) [unfolded file_frame_def]
  have len: "length (tracks m0) = n" using F by simp
  let ?m = "m1\<lparr>tracks := (tracks m0)[length ts := Some t1], cur_track_index := int (length ts) + 1, cur_track := None\<rparr>"
  have "handle_track_end B s = Inr (s\<lparr>rd_mfile := Some ?m\<rparr>)"
    using r(1) d F len assms(3) by (simp add: handle_track_end_def the_mfile_def)
  moreover have "replicate (n - length ts) (None :: Mtrack option) = None # replicate (n - Suc (length ts)) None"
    using assms(3) by (metis Suc_diff_Suc replicate_Suc)
  then have "tracks ?m = map Some (ts @ [t1]) @ replicate (n - Suc (length ts)) None"
    using F by (simp add: list_update_append)
  then have "file_frame format division n ?m (ts @ [t1])"
    using d F assms(3) r(8) by (auto simp: file_frame_def nth_append less_Suc_eq strings_ok_def file_strings_ok_def)
  moreover have "forest (rd_heap s) (ts @ [t1])" using r(4) d(3) by simp
  moreover have "track_items (rd_heap s) t1 = items" using r(6) d(3) by simp
  ultimately show ?thesis using r(5) by (auto simp: file_holds_def)
qed

lemma bindfcns_chunks [simp]:
  "Mf_trackstart (bindfcns B) = Some (handle_track_start B)" "Mf_trackend (bindfcns B) = Some (handle_track_end B)"
  "Mf_header (bindfcns B) = Some (handle_header B)" "Mf_getc_set (bindfcns B)"
  by (simp_all add: bindfcns_def)

text \<open>One chunk: the track is read, its items are those of the encoded messages.\<close>

lemma readtrack_chunk:
  assumes s: "file_holds format division n itss s" "length itss < n"
    and es: "track_fits (malloc_max r) es" and i: "inp r = track_chunk es @ rest"
  shows "\<exists>r' s'. readtrack (bindfcns B) r s = Inr (1, r', s') \<and> inp r' = rest \<and> malloc_max r' = malloc_max r
    \<and> file_holds format division n (itss @ [items_from 0 es]) s'"
proof -
  let ?H = "bindfcns B" and ?len = "length (track_bytes 0 es)"
  have fits: "list_all timed_ok es" "\<And>e. e \<in> set es \<Longrightarrow> data_length (snd e) + 128 \<le> malloc_max r" "?len < 2 ^ 32"
    using es by (auto simp: track_fits_def list_all_iff)
  have i0: "inp r = tag ''MTrk'' @ be32 ?len @ track_bytes 0 es @ rest"
    using i by (simp add: track_chunk_def)
  from readmt_tag [OF i0, of ?H] obtain c where
    c: "readmt ?H ''MTrk'' r = Inr (c, r\<lparr>inp := be32 ?len @ track_bytes 0 es @ rest\<rparr>)" "c \<noteq> EOF_c" by auto
  let ?r1 = "r\<lparr>inp := be32 ?len @ track_bytes 0 es @ rest\<rparr>"
  have l: "read32bit ?H ?r1 = Inr (int ?len, advance 4 ?r1)"
    by (rule read32bit_enc [OF fits(3)]) simp
  let ?r3 = "(advance 4 ?r1)\<lparr>Mf_toberead := int ?len, Mf_currtime := 0\<rparr>"
  from handle_track_start_ok [OF s(1), of B] obtain s1 m0 ts where
    s1: "handle_track_start B s = Inr s1" "reading m0 ts itss [] s1" "file_frame format division n m0 ts"
    "length ts = length itss" by blast
  let ?P = "\<lambda>t es' s. list_all timed_ok es' \<and>
    (\<exists>items. reading m0 ts itss items s \<and> items @ items_from t es' = items_from 0 es)"
  have "\<exists>r' s' t. track_loop ?H ?r3 False 0 s1 = Inr (r', s') \<and> moved (length (track_bytes 0 es)) ?r3 r'
    \<and> inp r' = rest \<and> ?P t [] s'"
  proof (rule track_loop_bytes [where P = ?P])
    fix t es' s'
    assume P: "?P t es' s'"
    show "case es' of [] \<Rightarrow> True | (dt, m) # es'' \<Rightarrow>
        (\<forall>r'. Mf_currtime r' = s64 (t + int dt) \<longrightarrow> holds_data m r' \<longrightarrow>
           (\<exists>s2. deliver ?H r' m s' = Inr s2 \<and> ?P (s64 (t + int dt)) es'' s2))"
    proof (cases es')
      case Nil
      then show ?thesis by simp
    next
      case (Cons e es'')
      obtain dt m where e: "e = (dt, m)" by (cases e)
      from P obtain items where it: "reading m0 ts itss items s'" "items @ items_from t es' = items_from 0 es" by blast
      have m: "message_ok m" "list_all timed_ok es''" using P Cons e by (auto simp: timed_ok_def)
      have "\<exists>s2. deliver ?H r' m s' = Inr s2 \<and> ?P (s64 (t + int dt)) es'' s2"
        if time: "Mf_currtime r' = s64 (t + int dt)" and data: "holds_data m r'" for r'
      proof -
        obtain s2 where s2: "deliver ?H r' m s' = Inr s2"
          "reading m0 ts itss (items @ [message_view (word_of_int (s64 (t + int dt))) m]) s2"
          using deliver_ok [OF it(1) m(1) data, of B] unfolding time by (elim exE conjE)
        have "(items @ [message_view (word_of_int (s64 (t + int dt))) m]) @ items_from (s64 (t + int dt)) es''
            = items_from 0 es"
          using it(2) Cons e by simp
        then show ?thesis using s2 m(2) by blast
      qed
      then show ?thesis using Cons e by simp
    qed
  qed (use fits s1(2) in \<open>simp_all add: advance_def\<close>)
  then obtain r' s2 t where R: "track_loop ?H ?r3 False 0 s1 = Inr (r', s2)" "moved ?len ?r3 r'" "inp r' = rest"
    "reading m0 ts itss (items_from 0 es) s2" by auto
  have "length ts < n" using s(2) s1(4) by simp
  from handle_track_end_ok [OF R(4) s1(3) this, of B] obtain s3 where
    s3: "handle_track_end B s2 = Inr s3" "file_holds format division n (itss @ [items_from 0 es]) s3" by blast
  have "readtrack ?H r s = Inr (1, r', s3)"
    using c l s1(1) R(1) s3(1) by (simp add: readtrack_def)
  moreover have "malloc_max r' = malloc_max r" using R(2) by (simp add: moved_def advance_def)
  ultimately show ?thesis using R(3) s3(2) by blast
qed

lemma readtrack_eof: "inp r = [] \<Longrightarrow> readtrack H r s = Inr (0, r, s)"
  by (simp add: readtrack_def readmt_def)

lemma read_tracks_chunks:
  assumes "file_holds format division n itss s" "length itss + length tss = n"
    and "list_all (track_fits (malloc_max r)) tss" "inp r = concat (map track_chunk tss)"
  shows "\<exists>r' s'. read_tracks (bindfcns B) r s = Inr (r', s') \<and> inp r' = []
    \<and> file_holds format division n (itss @ map (items_from 0) tss) s'"
  using assms
proof (induction tss arbitrary: itss r s)
  case Nil
  then show ?case by (subst read_tracks.simps) (simp add: readtrack_eof)
next
  case (Cons es tss)
  have "length itss < n" "track_fits (malloc_max r) es" "inp r = track_chunk es @ concat (map track_chunk tss)"
    using Cons.prems by simp_all
  from readtrack_chunk [OF Cons.prems(1) this, of B] obtain r1 s1 where
    1: "readtrack (bindfcns B) r s = Inr (1, r1, s1)" "inp r1 = concat (map track_chunk tss)"
    "malloc_max r1 = malloc_max r" "file_holds format division n (itss @ [items_from 0 es]) s1" by blast
  have "length (itss @ [items_from 0 es]) + length tss = n" "list_all (track_fits (malloc_max r1)) tss"
    using Cons.prems 1(3) by simp_all
  from Cons.IH [OF 1(4) this 1(2)] 1(1) show ?case
    by (subst read_tracks.simps) auto
qed

section \<open>Reading a whole file\<close>

lemma readheader_chunk:
  assumes "0 \<le> format" "format < 2 ^ 16" "n < 2 ^ 16" "0 \<le> division" "division < 2 ^ 16"
    and "rd_mfile s = Some m" "heap_ok (rd_heap s)" "cur_track_index m = 0" "has_tempotrack m = 0" "file_strings_ok m"
    and i: "inp r = header_chunk format (int n) division @ rest"
  shows "\<exists>r' s'. readheader (bindfcns B) r s = Inr (r', s') \<and> inp r' = rest \<and> malloc_max r' = malloc_max r
    \<and> file_holds format division n [] s'"
proof -
  let ?H = "bindfcns B"
  let ?b = "be16 format @ be16 (int n) @ be16 division @ rest"
  have i0: "inp r = tag ''MThd'' @ be32 6 @ ?b" using i by (simp add: header_chunk_def)
  from readmt_tag [OF i0, of ?H] obtain c where
    c: "readmt ?H ''MThd'' r = Inr (c, r\<lparr>inp := be32 6 @ ?b\<rparr>)" "c \<noteq> EOF_c" by auto
  let ?r1 = "r\<lparr>inp := be32 6 @ ?b\<rparr>"
  have l: "read32bit ?H ?r1 = Inr (6, advance 4 ?r1)"
    using read32bit_enc [of 6 ?r1 ?b ?H] by simp
  let ?r2 = "(advance 4 ?r1)\<lparr>Mf_toberead := 6\<rparr>"
  have i2: "inp ?r2 = ?b" by (simp add: advance_def)
  have f: "read16bit ?H ?r2 = Inr (format, advance 2 ?r2)"
    by (rule read16bit_enc [OF assms(1,2) i2])
  have i3: "inp (advance 2 ?r2) = be16 (int n) @ be16 division @ rest" using i2 by simp
  have t: "read16bit ?H (advance 2 ?r2) = Inr (int n, advance 2 (advance 2 ?r2))"
    by (rule read16bit_enc [OF _ _ i3]) (use assms(3) in simp_all)
  have i4: "inp (advance 2 (advance 2 ?r2)) = be16 division @ rest"
    by (subst inp_advance) (simp only: i3, simp)
  have d: "read16bit ?H (advance 2 (advance 2 ?r2)) = Inr (division, advance 2 (advance 2 (advance 2 ?r2)))"
    by (rule read16bit_enc [OF assms(4,5) i4])
  let ?r5 = "advance 2 (advance 2 (advance 2 ?r2))"
  let ?m = "m\<lparr>mf_division := division, mf_format := format, ntracks := int n, tracks := replicate n None\<rparr>"
  have h: "handle_header B format (int n) division s = Inr (s\<lparr>rd_mfile := Some ?m\<rparr>)"
    using assms(6) by (simp add: handle_header_def the_mfile_def)
  have z: "flush_header ?H ?r5 = Inr ?r5" by (subst flush_header.simps) simp
  have "readheader ?H r s = Inr (?r5, s\<lparr>rd_mfile := Some ?m\<rparr>)"
    unfolding readheader_def using c l f t d h z by (simp del: advance_advance)
  moreover have "inp ?r5 = rest" by (subst inp_advance) (simp only: i4, simp)
  moreover have "malloc_max ?r5 = malloc_max r" by (simp add: advance_def)
  moreover have "file_holds format division n [] (s\<lparr>rd_mfile := Some ?m\<rparr>)"
    using assms(7-10) by (auto simp: file_holds_def file_frame_def forest_def file_strings_ok_def)
  ultimately show ?thesis by blast
qed

definition path_ok :: "byte list \<Rightarrow> bool" where
  "path_ok path \<longleftrightarrow> path \<noteq> [] \<and> 0 \<notin> set path"

lemma strrchr_suffix: "strrchr c xs = Some t \<Longrightarrow> \<exists>p. xs = p @ t \<and> t = c # tl t \<and> c \<notin> set (tl t)"
proof (induction xs arbitrary: t)
  case Nil
  then show ?case by simp
next
  case (Cons x xs)
  show ?case
  proof (cases "strrchr c xs")
    case None
    have "c \<notin> set ys" if "strrchr c ys = None" for ys
      using that by (induction ys) (auto split: option.splits if_splits)
    with None Cons.prems show ?thesis by (auto split: if_splits)
  next
    case (Some u)
    from Cons.IH [OF Some] obtain p where "xs = p @ u \<and> u = c # tl u \<and> c \<notin> set (tl u)" by blast
    with Some Cons.prems show ?thesis by (intro exI [of _ "x # p"]) simp
  qed
qed

lemma loadfile_ok:
  assumes "fs path = Some content" "path_ok path"
  shows "\<exists>n. loadfile fs path r s = Inr (0, r\<lparr>inp := content\<rparr>,
      s\<lparr>rd_mfile := Some (new_mfile\<lparr>filename := Some (n @ [0]), fullpath := Some (path @ [0])\<rparr>)\<rparr>)
    \<and> n = (case strrchr slash path of None \<Rightarrow> tl path | Some t \<Rightarrow> tl t)"
proof -
  have p: "path \<noteq> []" "0 \<notin> set path" using assms(2) by (auto simp: path_ok_def)
  have full: "strdup_c (path @ [0]) = Inr (path @ [0])" using strdup_c_terminated [OF p(2), of "[]"] by simp
  show ?thesis
  proof (cases "strrchr slash path")
    case None
    have "0 \<notin> set (tl path)" using p by (meson list.set_sel(2))
    then have "strdup_c (tl path @ [0]) = Inr (tl path @ [0])" using strdup_c_terminated [of "tl path" "[]"] by simp
    then show ?thesis using None assms(1) full p(1) by (simp add: loadfile_def)
  next
    case (Some t)
    from strrchr_suffix [OF Some] obtain q where q: "path = q @ t" "t = slash # tl t" by blast
    then have "0 \<notin> set (tl t)" using p(2) by (metis UnCI list.set_intros(2) set_append)
    then have d: "strdup_c (tl t @ [0]) = Inr (tl t @ [0])" using strdup_c_terminated [of "tl t" "[]"] by simp
    have tl: "tl (t @ [0]) = tl t @ [0]" using q(2) by (cases t) auto
    then show ?thesis using Some assms(1) full d by (simp add: loadfile_def)
  qed
qed

lemma file_holds_all:
  assumes "file_holds format division n itss s" "length itss = n"
  shows "\<exists>m ts. rd_mfile s = Some m \<and> tracks m = map Some ts \<and> mf_format m = format
    \<and> mf_division m = division \<and> ntracks m = int n \<and> forest (rd_heap s) ts
    \<and> map (track_items (rd_heap s)) ts = itss
    \<and> has_tempotrack m = (if format = 1 \<and> n \<noteq> 0 then 1 else 0)
    \<and> (\<forall>i < n. is_tempotrack (ts ! i) = (if format = 1 \<and> i = 0 then 1 else 0))
    \<and> file_strings_ok m \<and> (\<forall>t \<in> set ts. strings_ok t)"
proof -
  from assms obtain m ts where m: "rd_mfile s = Some m" "file_frame format division n m ts"
    "forest (rd_heap s) ts" "map (track_items (rd_heap s)) ts = itss" by (auto simp: file_holds_def)
  then have "length ts = n" using assms(2) by (metis length_map)
  with m show ?thesis by (intro exI [of _ m] exI [of _ ts]) (auto simp: file_frame_def)
qed

lemma Mfile_from_file_reads:
  assumes f: "fs path = Some (midi_bytes format division tss)" "path_ok path"
    and "0 \<le> format" "format < 2 ^ 16" "length tss < 2 ^ 16" "0 \<le> division" "division < 2 ^ 16"
    and fit: "list_all (track_fits (malloc_max r)) tss" and h: "heap_ok (rd_heap s)"
  shows "\<exists>m ts r' s'. Mfile_from_file B fs path r s = Inr (Some m, r', s') \<and> rd_mfile s' = Some m
    \<and> tracks m = map Some ts \<and> mf_format m = format \<and> mf_division m = division
    \<and> ntracks m = int (length tss) \<and> forest (rd_heap s') ts
    \<and> map (track_items (rd_heap s')) ts = map (items_from 0) tss
    \<and> has_tempotrack m = (if format = 1 \<and> tss \<noteq> [] then 1 else 0)
    \<and> (\<forall>i < length tss. is_tempotrack (ts ! i) = (if format = 1 \<and> i = 0 then 1 else 0))
    \<and> file_strings_ok m \<and> (\<forall>t \<in> set ts. strings_ok t)"
proof -
  let ?r = "r\<lparr>inp := midi_bytes format division tss\<rparr>"
  from loadfile_ok [where fs = fs, OF f, of r s] obtain nm where l: "loadfile fs path r s = Inr (0, ?r,
      s\<lparr>rd_mfile := Some (new_mfile\<lparr>filename := Some (nm @ [0]), fullpath := Some (path @ [0])\<rparr>)\<rparr>)" by blast
  let ?m = "new_mfile\<lparr>filename := Some (nm @ [0]), fullpath := Some (path @ [0])\<rparr>"
  let ?s = "s\<lparr>rd_mfile := Some ?m\<rparr>"
  have m0: "rd_mfile ?s = Some ?m" "cur_track_index ?m = 0" "has_tempotrack ?m = 0" "file_strings_ok ?m"
    by (simp_all add: new_mfile_def file_strings_ok_def c_string_def)
  have "heap_ok (rd_heap ?s)" using h by simp
  moreover have "inp ?r = header_chunk format (int (length tss)) division @ concat (map track_chunk tss)"
    by (simp add: midi_bytes_def)
  ultimately obtain r1 s1 where 1: "readheader (bindfcns B) ?r ?s = Inr (r1, s1)"
    "inp r1 = concat (map track_chunk tss)" "malloc_max r1 = malloc_max ?r"
    "file_holds format division (length tss) [] s1"
    using readheader_chunk [OF assms(3-7) m0(1) _ m0(2-4)] by blast
  have "list_all (track_fits (malloc_max r1)) tss" using fit 1(3) by simp
  with read_tracks_chunks [OF 1(4), of tss r1 B] 1(2) obtain r2 s2 where
    2: "read_tracks (bindfcns B) r1 s1 = Inr (r2, s2)"
    "file_holds format division (length tss) (map (items_from 0) tss) s2" by auto
  from file_holds_all [OF 2(2)] obtain m ts where M: "rd_mfile s2 = Some m" "tracks m = map Some ts"
    "mf_format m = format" "mf_division m = division" "ntracks m = int (length tss)" "forest (rd_heap s2) ts"
    "map (track_items (rd_heap s2)) ts = map (items_from 0) tss"
    "has_tempotrack m = (if format = 1 \<and> length tss \<noteq> 0 then 1 else 0)"
    "\<forall>i < length tss. is_tempotrack (ts ! i) = (if format = 1 \<and> i = 0 then 1 else 0)"
    "file_strings_ok m" "\<forall>t \<in> set ts. strings_ok t" by auto
  have "Mfile_from_file B fs path r s = Inr (Some m, r2, s2)"
    using l 1(1) 2(1) M(1) by (simp add: Mfile_from_file_def mfread_def)
  then show ?thesis using M by fastforce
qed

text \<open>A file that cannot be opened leaves the reader as it was.\<close>

lemma Mfile_from_file_missing: "fs path = None \<Longrightarrow> Mfile_from_file B fs path r s = Inr (None, r, s)"
  by (simp add: Mfile_from_file_def loadfile_def)

text \<open>An input that ends too soon ends the program, with the parser's error.\<close>

lemma egetc_eof: "inp r = [] \<Longrightarrow> egetc (bindfcns B) r = Inl (Exit 1 ''premature EOF'')"
  by (simp add: egetc_def mferror_def bindfcns_def handle_error_def)

lemma readvarinum_eof: "inp r = [] \<Longrightarrow> readvarinum (bindfcns B) r = Inl (Exit 1 ''premature EOF'')"
  by (simp add: readvarinum_def egetc_eof)

end
