(* ===== verification/Midi_Writer.thy ===== *)
theory Midi_Writer
  imports Midi_Reader
begin

text \<open>
  \<open>server/midi_writer.c\<close>: an \<open>Mfile\<close> is written back as a MIDI file through the writing half of
  \<open>midifile.c\<close>. The lemmas show which bytes come out, and what reading and writing a file does to it.
\<close>

section \<open>The functions of midi_writer.c\<close>

text \<open>\<open>fopen (path, "w")\<close> gives an empty stream at its beginning, or \<open>None\<close>.\<close>

definition load_out_file :: "FILE option \<Rightarrow> int \<times> FILE option" where
  "load_out_file opened = (case opened of None \<Rightarrow> (-1, None) | Some f \<Rightarrow> (0, Some f))"

definition my_putc :: "byte \<Rightarrow> FILE \<Rightarrow> int \<times> FILE" where
  "my_putc c f = fputc c f"

definition handle_out_error :: "string \<Rightarrow> fault" where
  "handle_out_error msg = Exit 1 msg"

definition bind_out_fncs :: wr_fns where
  "bind_out_fncs = \<lparr>Mf_putc = Some my_putc, Mf_error_w = Some handle_out_error\<rparr>"

definition write_event :: "wr_fns \<Rightarrow> heap \<Rightarrow> Mevent \<Rightarrow> wr \<Rightarrow> wr res" where
  "write_event P h e w = (case event_data e of
      MEVENT_META m \<Rightarrow>
        andThen (get_buf h (mt_data m)) (\<lambda>data.
        andThen (mf_write_meta_event P (deltatime e) (word_of_int (mt_type m)) data (word_of_int (mt_len m)) w)
          (\<lambda>(_, w'). Inr w'))
    | MEVENT_REG r \<Rightarrow>
        andThen (mf_write_midi_event P (deltatime e) (reg_type r) (reg_chan r) [reg_data0 r, reg_data1 r]
            (word_of_int (reg_len r)) w) (\<lambda>(_, w'). Inr w')
    | MEVENT_SYSEX s \<Rightarrow>
        andThen (get_buf h (sx_msg s)) (\<lambda>data.
        andThen (mf_write_midi_event P (deltatime e) system_exclusive 0 data (word_of_int (sx_len s)) w)
          (\<lambda>(_, w'). Inr w')))"

fun write_events :: "wr_fns \<Rightarrow> heap \<Rightarrow> nat \<Rightarrow> addr option \<Rightarrow> wr \<Rightarrow> wr res" where
  "write_events P h fuel None w = Inr w"
| "write_events P h 0 (Some a) w = Inl Diverges"
| "write_events P h (Suc fuel) (Some a) w =
     andThen (get_event h a) (\<lambda>e. andThen (write_event P h e w) (write_events P h fuel (nxt e)))"

definition write_track :: "wr_fns \<Rightarrow> heap \<Rightarrow> Mtrack \<Rightarrow> wr \<Rightarrow> wr res" where
  "write_track P h t w = write_events P h (Suc (brk h)) (trk_first t) w"

definition track_at :: "Mfile \<Rightarrow> int \<Rightarrow> Mtrack res" where
  "track_at m i =
     (if i < 0 \<or> int (length (tracks m)) \<le> i then Inl Out_Of_Bounds
      else case tracks m ! nat i of None \<Rightarrow> Inl Null_Deref | Some t \<Rightarrow> Inr t)"

definition handle_write_track :: "wr_fns \<Rightarrow> heap \<Rightarrow> Mfile \<Rightarrow> int \<Rightarrow> wr \<Rightarrow> wr res" where
  "handle_write_track P h m i w = andThen (track_at m i) (\<lambda>t. write_track P h t w)"

text \<open>\<open>handle_write_tempotrack\<close> is kept in the source but not bound.\<close>

definition handle_write_tempotrack :: "wr_fns \<Rightarrow> heap \<Rightarrow> Mfile \<Rightarrow> wr \<Rightarrow> (int \<times> wr) res" where
  "handle_write_tempotrack P h m w =
     (if has_tempotrack m = 0 then Inr (-1, w)
      else andThen (track_at m 0) (\<lambda>t. andThen (write_track P h t w) (\<lambda>w'. Inr (0, w'))))"

text \<open>
  The result of \<open>load_out_file\<close> is not looked at: when the file cannot be opened, the first
  \<open>fputc\<close> gets a null stream.
\<close>

definition Mfile_write_to_midi :: "heap \<Rightarrow> Mfile \<Rightarrow> FILE option \<Rightarrow> FILE res" where
  "Mfile_write_to_midi h m opened =
     (case snd (load_out_file opened) of
        None \<Rightarrow> Inl Null_Deref
      | Some f \<Rightarrow>
          andThen (mfwrite bind_out_fncs (Some (handle_write_track bind_out_fncs h m)) None
              (mf_format m) (ntracks m) (mf_division m) \<lparr>fout = f, laststatus = 0, Mf_numbyteswritten = 0\<rparr>)
            (\<lambda>w. Inr (fout w)))"

lemma bind_out_stdio: "bind_out_fncs = stdio_fns (Some handle_out_error)"
  by (simp add: bind_out_fncs_def stdio_fns_def my_putc_def fun_eq_iff)

section \<open>The bytes of an event\<close>

fun message_of :: "body \<Rightarrow> message" where
  "message_of (Reg_body type chan d0 d1 len) = Channel type chan d0 (if two_bytes type then d1 else 0)"
| "message_of (Meta_body type len bs) = Meta type bs"
| "message_of (Sysex_body len bs) = Meta 0 bs"

fun body_ok :: "body \<Rightarrow> bool" where
  "body_ok (Reg_body type chan d0 d1 len) \<longleftrightarrow>
     message_ok (Channel type chan d0 (if two_bytes type then d1 else 0)) \<and> len = (if two_bytes type then 2 else 1)"
| "body_ok (Meta_body type len bs) \<longleftrightarrow> message_ok (Meta type bs) \<and> len = int (length bs)"
| "body_ok (Sysex_body len bs) \<longleftrightarrow> False"

lemma put_data_out:
  "room (length bs) w \<Longrightarrow> put_data (stdio_fns e) (bs @ rest) (length bs) w = Inr (out bs w)"
proof (induction bs arbitrary: w)
  case Nil
  then show ?case by simp
next
  case (Cons b bs)
  have r1: "room 1 w" using room_mono [OF Cons.prems, of 1] by simp
  have "room (length bs) (out [b] w)" using room_out [OF Cons.prems, of "[b]"] by simp
  from Cons.IH [OF this] show ?case
    using out_out [of "[b]" w bs] r1 put_out [OF r1, of e b] by simp
qed

lemma put_meta_data_out:
  "room (length bs) w \<Longrightarrow> put_meta_data (stdio_fns e) (bs @ rest) (length bs) w = Inr (True, out bs w)"
proof (induction bs arbitrary: w)
  case Nil
  then show ?case by simp
next
  case (Cons b bs)
  have r1: "room 1 w" using room_mono [OF Cons.prems, of 1] by simp
  have "room (length bs) (out [b] w)" using room_out [OF Cons.prems, of "[b]"] by simp
  from Cons.IH [OF this] show ?case
    using out_out [of "[b]" w bs] r1 eputc_out [OF r1, of e b] by simp
qed

lemma room_append: "room (length (as @ bs)) w \<Longrightarrow> room (length as) w \<and> room (length bs) (out as w)"
  using room_mono [of "length (as @ bs)" w "length as"] by (simp add: room_out_eq)

lemma uint_word_small: "0 \<le> i \<Longrightarrow> i < 2 ^ 64 \<Longrightarrow> uint (word_of_int i :: ulong) = i"
  by (simp add: unsigned_of_int take_bit_int_eq_self)

lemma status_or: "type \<in> set channel_types \<Longrightarrow> 0 \<le> chan \<Longrightarrow> chan < 16 \<Longrightarrow> type OR chan = type + chan"
proof -
  assume t: "type \<in> set channel_types" "0 \<le> chan" "chan < 16"
  have "type AND chan = 0"
  proof -
    have "0xf AND chan = chan" using t by (metis and.commute int_and_15 mod_pos_pos_trivial)
    then have "type AND chan = (type AND 0xf) AND chan" by (metis and.assoc)
    moreover have "type AND 0xf = 0" using t(1) by (auto simp: channel_types_def int_and_15)
    ultimately show ?thesis by simp
  qed
  then show ?thesis by (simp add: disjunctive_add_eq_or)
qed

text \<open>\<open>wrote bs st w\<close>: the bytes \<open>bs\<close> went out and \<open>st\<close> is the status in force.\<close>

definition wrote :: "byte list \<Rightarrow> int \<Rightarrow> wr \<Rightarrow> wr" where
  "wrote bs st w = (out bs w)\<lparr>laststatus := st\<rparr>"

lemma laststatus_wrote [simp]: "laststatus (wrote bs st w) = st"
  by (simp add: wrote_def)

lemma wrote_wrote: "room (length as) w \<Longrightarrow> wrote bs st (wrote as st' w) = wrote (as @ bs) st w"
  by (simp add: wrote_def out_laststatus out_out)

lemma room_wrote: "room (length (as @ bs)) w \<Longrightarrow> room (length bs) (wrote as st w)"
  using room_append by (simp add: wrote_def)

lemma WriteVarLen_wrote:
  "unat v < 2 ^ 56 \<Longrightarrow> room (length (varlen_enc (unat v))) w \<Longrightarrow>
     WriteVarLen (stdio_fns e) v w = Inr (wrote (varlen_enc (unat v)) (laststatus w) w)"
  by (simp add: WriteVarLen_out wrote_def out_def)

lemma put_wrote: "room 1 w \<Longrightarrow> put (stdio_fns e) b (w\<lparr>laststatus := st\<rparr>) = Inr (wrote [b] st w)"
  by (simp add: put_out wrote_def out_laststatus)

lemma put_data_wrote:
  "room (length bs) w \<Longrightarrow> n = length bs \<Longrightarrow>
     put_data (stdio_fns e) (bs @ rest) n w = Inr (wrote bs (laststatus w) w)"
  by (simp add: put_data_out wrote_def out_def)

text \<open>\<open>mf_write_midi_event\<close> for a channel status: the status byte only when it is not in force.\<close>

definition status_byte :: "int \<Rightarrow> int \<Rightarrow> byte list" where
  "status_byte ls st = (if ls = st then [] else [word_of_int st])"

lemma put_status:
  assumes "room (length (status_byte (laststatus w) st)) w" "uint (word_of_int st :: byte) = st"
  shows "(if laststatus w \<noteq> uint (word_of_int st :: byte)
      then put (stdio_fns e) (word_of_int st) (w\<lparr>laststatus := uint (word_of_int st :: byte)\<rparr>) else Inr w)
    = Inr (wrote (status_byte (laststatus w) st) st w)"
proof (cases "laststatus w = st")
  case True
  then have "wrote [] st w = w" by (simp add: wrote_def)
  with True show ?thesis by (simp add: assms(2) status_byte_def)
next
  case False
  then show ?thesis using assms by (simp add: status_byte_def put_wrote)
qed

lemma channel_event_out:
  assumes type: "type \<noteq> system_exclusive" "type \<noteq> 0xf7" "type OR chan = st" "uint (word_of_int st :: byte) = st"
    and d: "unat dt < 2 ^ 56" and data: "data = body @ tail" "nat (s32 (uint n)) = length body"
    and room: "room (length (varlen_enc (unat dt) @ status_byte (laststatus w) st @ body)) w"
  shows "mf_write_midi_event (stdio_fns e) dt type chan data n w =
    Inr (n, wrote (varlen_enc (unat dt) @ status_byte (laststatus w) st @ body) st w)"
proof -
  let ?v = "varlen_enc (unat dt)" and ?s = "status_byte (laststatus w) st"
  let ?w1 = "wrote ?v (laststatus w) w" and ?ls = "laststatus w"
  let ?w2 = "wrote ?s st ?w1"
  have r0: "room (length ?v) w" by (rule room_mono [OF room]) simp
  have r1: "room (length (?s @ body)) ?w1" by (rule room_wrote [OF room])
  have r1': "room (length ?s) ?w1" by (rule room_mono [OF r1]) simp
  have r2: "room (length body) ?w2" by (rule room_wrote [OF r1])
  have s: "(if laststatus ?w1 \<noteq> uint (word_of_int st :: byte)
      then put (stdio_fns e) (word_of_int st) (?w1\<lparr>laststatus := uint (word_of_int st :: byte)\<rparr>) else Inr ?w1)
    = Inr ?w2"
    using put_status [of ?w1 st e] r1' type(4) by simp
  have p: "put_data (stdio_fns e) data (nat (s32 (uint n))) ?w2 = Inr (wrote body st ?w2)"
    unfolding data(1) using put_data_wrote [OF r2 data(2)] by simp
  have "wrote body st ?w2 = wrote (?v @ ?s @ body) st w"
    by (rule trans [OF wrote_wrote [OF r1'] wrote_wrote [OF r0]])
  then show ?thesis
    unfolding mf_write_midi_event_def WriteVarLen_wrote [OF d r0] andThen_Inr Let_def type(3)
    by (simp only: type(1,2) simp_thms if_False s p andThen_Inr)
qed

lemma sysex_event_out:
  assumes d: "unat dt < 2 ^ 56" and data: "data = body @ tail" "nat (s32 (uint n)) = length body" "unat n < 2 ^ 56"
    and room: "room (length (varlen_enc (unat dt) @ [0xf0] @ varlen_enc (unat n) @ body)) w"
  shows "mf_write_midi_event (stdio_fns e) dt system_exclusive 0 data n w =
    Inr (n, wrote (varlen_enc (unat dt) @ [0xf0] @ varlen_enc (unat n) @ body) 0xf0 w)"
proof -
  let ?v = "varlen_enc (unat dt)" and ?l = "varlen_enc (unat n)"
  let ?w1 = "wrote ?v (laststatus w) w"
  let ?w2 = "wrote [0xf0] 0xf0 ?w1"
  let ?w3 = "wrote ?l 0xf0 ?w2"
  have r0: "room (length ?v) w" by (rule room_mono [OF room]) simp
  have r1: "room (length ([0xf0] @ ?l @ body)) ?w1" by (rule room_wrote [OF room])
  have r1': "room (length [0xf0 :: byte]) ?w1" by (rule room_mono [OF r1]) simp
  have r2: "room (length (?l @ body)) ?w2" by (rule room_wrote [OF r1])
  have r2': "room (length ?l) ?w2" by (rule room_mono [OF r2]) simp
  have r3: "room (length body) ?w3" by (rule room_wrote [OF r2])
  have s: "put (stdio_fns e) 0xf0 (?w1\<lparr>laststatus := 0xf0\<rparr>) = Inr ?w2"
    by (rule put_wrote) (use r1' in simp)
  have l: "WriteVarLen (stdio_fns e) n ?w2 = Inr ?w3"
    using WriteVarLen_wrote [OF data(3) r2'] by simp
  have p: "put_data (stdio_fns e) data (nat (s32 (uint n))) ?w3 = Inr (wrote body 0xf0 ?w3)"
    unfolding data(1) using put_data_wrote [OF r3 data(2)] by simp
  have "wrote body 0xf0 ?w3 = wrote (?v @ [0xf0] @ ?l @ body) 0xf0 w"
    by (rule trans [OF wrote_wrote [OF r2'] trans [OF wrote_wrote [OF r1'] wrote_wrote [OF r0]]])
  then show ?thesis
    unfolding mf_write_midi_event_def WriteVarLen_wrote [OF d r0] andThen_Inr Let_def
    using s l p by (simp add: system_exclusive_def)
qed

lemma meta_event_out:
  assumes d: "unat dt < 2 ^ 56" and data: "data = body @ tail" "nat (s32 (uint n)) = length body" "unat n < 2 ^ 56"
    and room: "room (length (varlen_enc (unat dt) @ [0xff] @ [ty] @ varlen_enc (unat n) @ body)) w"
  shows "mf_write_meta_event (stdio_fns e) dt ty data n w =
    Inr (s32 (uint n), wrote (varlen_enc (unat dt) @ [0xff] @ [ty] @ varlen_enc (unat n) @ body) 0xff w)"
proof -
  let ?v = "varlen_enc (unat dt)" and ?l = "varlen_enc (unat n)"
  let ?w1 = "wrote ?v (laststatus w) w"
  let ?w2 = "wrote [0xff] 0xff ?w1"
  let ?w3 = "wrote [ty] 0xff ?w2"
  let ?w4 = "wrote ?l 0xff ?w3"
  have r0: "room (length ?v) w" by (rule room_mono [OF room]) simp
  have r1: "room (length ([0xff] @ [ty] @ ?l @ body)) ?w1" by (rule room_wrote [OF room])
  have r1': "room (length [0xff :: byte]) ?w1" by (rule room_mono [OF r1]) simp
  have r2: "room (length ([ty] @ ?l @ body)) ?w2" by (rule room_wrote [OF r1])
  have r2': "room (length [ty]) ?w2" by (rule room_mono [OF r2]) simp
  have r3: "room (length (?l @ body)) ?w3" by (rule room_wrote [OF r2])
  have r3': "room (length ?l) ?w3" by (rule room_mono [OF r3]) simp
  have r4: "room (length body) ?w4" by (rule room_wrote [OF r3])
  have s: "put (stdio_fns e) 0xff (?w1\<lparr>laststatus := 0xff\<rparr>) = Inr ?w2"
    by (rule put_wrote) (use r1' in simp)
  have t: "put (stdio_fns e) ty ?w2 = Inr ?w3"
    using put_wrote [OF room_mono [OF r2', of 1], of e ty "0xff"] by (simp add: wrote_def)
  have l: "WriteVarLen (stdio_fns e) n ?w3 = Inr ?w4"
    using WriteVarLen_wrote [OF data(3) r3'] by simp
  have p: "put_meta_data (stdio_fns e) data (nat (s32 (uint n))) ?w4 = Inr (True, wrote body 0xff ?w4)"
    unfolding data put_meta_data_out [OF r4] by (simp add: wrote_def out_def)
  have "wrote body 0xff ?w4 = wrote (?v @ [0xff] @ [ty] @ ?l @ body) 0xff w"
    by (rule trans [OF wrote_wrote [OF r3'] trans [OF wrote_wrote [OF r2'] trans [OF wrote_wrote [OF r1'] wrote_wrote [OF r0]]]])
  then show ?thesis
    unfolding mf_write_meta_event_def WriteVarLen_wrote [OF d r0] andThen_Inr
    using s t l p by simp
qed

text \<open>An event of a track, in the format of theory \<open>Parse\<close>.\<close>

lemma message_bytes_channel: "message_bytes ls (Channel type chan d0 d1) =
    status_byte ls (type + chan) @ (if two_bytes type then [d0, d1] else [d0])"
  by (simp add: status_byte_def)

lemma write_event_out:
  assumes ok: "body_ok (event_body h ev)" "buf_live h ev" and d: "unat (deltatime ev) < 2 ^ 56"
    and room: "room (length (varlen_enc (unat (deltatime ev)) @ message_bytes (laststatus w) (message_of (event_body h ev)))) w"
  shows "write_event (stdio_fns e) h ev w =
    Inr (wrote (varlen_enc (unat (deltatime ev)) @ message_bytes (laststatus w) (message_of (event_body h ev)))
      (status_after (message_of (event_body h ev))) w)"
proof (cases "event_data ev")
  case (MEVENT_REG r)
  let ?t = "reg_type r" and ?c = "reg_chan r"
  let ?body = "if two_bytes ?t then [reg_data0 r, reg_data1 r] else [reg_data0 r]"
  let ?more = "if two_bytes ?t then [] else [reg_data1 r]"
  have b: "event_body h ev = Reg_body ?t ?c (reg_data0 r) (reg_data1 r) (reg_len r)"
    using MEVENT_REG by (simp add: event_body_def)
  from ok(1) b have t: "?t \<in> set channel_types" "0 \<le> ?c" "?c < 16" and len: "reg_len r = (if two_bytes ?t then 2 else 1)"
    by simp_all
  have sys: "?t \<noteq> system_exclusive" "?t \<noteq> 0xf7" using t(1) by (auto simp: channel_types_def system_exclusive_def)
  have data: "[reg_data0 r, reg_data1 r] = ?body @ ?more" by simp
  have n: "nat (s32 (uint (word_of_int (reg_len r) :: ulong))) = length ?body" using len by (simp add: s32_def)
  have mb: "message_bytes (laststatus w) (message_of (event_body h ev)) = status_byte (laststatus w) (?t + ?c) @ ?body"
    unfolding b message_of.simps message_bytes_channel by simp
  show ?thesis
    using channel_event_out [OF sys status_or [OF t] channel_status(6) [OF t] d data n room [unfolded mb], of e] MEVENT_REG
    by (simp only: write_event_def Mevent_data.case andThen_Inr prod.case mb) (simp add: b)
next
  case (MEVENT_SYSEX s)
  then show ?thesis using ok(1) by (simp add: event_body_def)
next
  case (MEVENT_META m)
  let ?bs = "buf_of h (mt_data m)"
  have b: "event_body h ev = Meta_body (mt_type m) (mt_len m) ?bs"
    using MEVENT_META by (simp add: event_body_def)
  from ok(1) b have len: "mt_len m = int (length ?bs)" "length ?bs < 2 ^ 31" by simp_all
  have g: "get_buf h (mt_data m) = Inr ?bs"
    using ok(2) MEVENT_META by (auto simp: get_buf_def buf_of_def buf_live_def data_ptr_def split: option.splits)
  let ?n = "word_of_int (mt_len m) :: ulong"
  have un: "uint ?n = int (length ?bs)" using len by (simp add: unsigned_of_nat take_bit_nat_eq_self)
  have n: "nat (s32 (uint ?n)) = length ?bs" using len(2) by (simp add: un s32_id)
  have un': "unat ?n = length ?bs" using un by (metis nat_int unat_eq_nat_uint)
  have small: "unat ?n < 2 ^ 56" using un' len(2) by simp
  have data: "?bs = ?bs @ []" by simp
  have mb: "message_bytes (laststatus w) (message_of (event_body h ev)) =
      [0xff] @ [word_of_int (mt_type m)] @ varlen_enc (unat ?n) @ ?bs"
    unfolding b un' by simp
  show ?thesis
    using meta_event_out [OF d data n small room [unfolded mb], of e] MEVENT_META g
    by (simp only: write_event_def Mevent_data.case andThen_Inr prod.case mb) (simp add: b)
qed

section \<open>The bytes of a track and of a file\<close>

definition track_timed :: "heap \<Rightarrow> Mtrack \<Rightarrow> timed list" where
  "track_timed h t = map (\<lambda>e. (unat (deltatime e), message_of (event_body h e))) (track_events h t)"

definition event_writable :: "heap \<Rightarrow> Mevent \<Rightarrow> bool" where
  "event_writable h e \<longleftrightarrow> body_ok (event_body h e) \<and> buf_live h e \<and> unat (deltatime e) < 2 ^ 56"

definition writable :: "heap \<Rightarrow> Mtrack \<Rightarrow> bool" where
  "writable h t \<longleftrightarrow> heap_ok h \<and> track_ok h t \<and> list_all (event_writable h) (track_events h t)
     \<and> length (track_bytes 0 (track_timed h t)) < 2 ^ 32"

fun end_status :: "int \<Rightarrow> timed list \<Rightarrow> int" where
  "end_status ls [] = ls"
| "end_status ls ((dt, m) # es) = end_status (status_after m) es"

lemma wrote_Nil [simp]: "wrote [] (laststatus w) w = w"
  by (simp add: wrote_def)

lemma write_events_out:
  assumes "chain h p as" "list_all (\<lambda>a. event_writable h (event_at h a)) as" "length as \<le> fuel"
    and "es = map (\<lambda>a. (unat (deltatime (event_at h a)), message_of (event_body h (event_at h a)))) as"
    and "room (length (track_bytes (laststatus w) es)) w"
  shows "write_events (stdio_fns e) h fuel p w =
    Inr (wrote (track_bytes (laststatus w) es) (end_status (laststatus w) es) w)"
  using assms
proof (induction as arbitrary: p fuel w es)
  case Nil
  then show ?case by simp
next
  case (Cons a as)
  from Cons.prems(1) obtain ev where ev: "evs h a = Some ev" "chain h (nxt ev) as" "p = Some a"
    by (auto split: option.splits)
  from Cons.prems(3) obtain f where f: "fuel = Suc f" "length as \<le> f" by (cases fuel) auto
  have at: "event_at h a = ev" using ev(1) by (simp add: event_at_def)
  let ?es = "map (\<lambda>a. (unat (deltatime (event_at h a)), message_of (event_body h (event_at h a)))) as"
  let ?m = "message_of (event_body h ev)" and ?b = "varlen_enc (unat (deltatime ev)) @ message_bytes (laststatus w) (message_of (event_body h ev))"
  have es: "es = (unat (deltatime ev), ?m) # ?es" using Cons.prems(4) at by simp
  have tb: "track_bytes (laststatus w) es = ?b @ track_bytes (status_after ?m) ?es" by (simp add: es)
  have w: "body_ok (event_body h ev)" "buf_live h ev" "unat (deltatime ev) < 2 ^ 56"
    using Cons.prems(2) at by (simp_all add: event_writable_def)
  have r: "room (length ?b) w" by (rule room_mono [OF Cons.prems(5)]) (simp add: tb)
  have r1: "room (length (track_bytes (status_after ?m) ?es)) (wrote ?b (status_after ?m) w)"
    by (rule room_wrote) (use Cons.prems(5) tb in simp)
  have rest: "list_all (\<lambda>a. event_writable h (event_at h a)) as" using Cons.prems(2) by simp
  have one: "write_event (stdio_fns e) h ev w = Inr (wrote ?b (status_after ?m) w)"
    by (rule write_event_out [OF w r])
  have "write_events (stdio_fns e) h f (nxt ev) (wrote ?b (status_after ?m) w) =
      Inr (wrote (track_bytes (status_after ?m) ?es) (end_status (status_after ?m) ?es) (wrote ?b (status_after ?m) w))"
    using Cons.IH [OF ev(2) rest f(2) refl, of "wrote ?b (status_after ?m) w"] r1 by simp
  also have "\<dots> = Inr (wrote (track_bytes (laststatus w) es) (end_status (laststatus w) es) w)"
    unfolding tb using wrote_wrote [OF r] by (simp add: es)
  finally show ?case using f(1) ev(1,3) one by (simp add: get_event_def)
qed

lemma write_track_out:
  assumes "writable h t" "laststatus w = 0" "room (length (track_bytes 0 (track_timed h t))) w"
  shows "write_track (stdio_fns e) h t w =
    Inr (wrote (track_bytes 0 (track_timed h t)) (end_status 0 (track_timed h t)) w)"
proof -
  have h: "heap_ok h" "track_ok h t" using assms(1) by (auto simp: writable_def)
  then have rep: "chain h (trk_first t) (track_addrs h t)" "distinct (track_addrs h t)"
    by (auto simp: track_ok_def Let_def)
  have "list_all (\<lambda>a. event_writable h (event_at h a)) (track_addrs h t)"
    using assms(1) by (simp add: writable_def track_events_def list_all_iff)
  moreover have "length (track_addrs h t) \<le> Suc (brk h)" using chain_length [OF h(1) rep] by simp
  moreover have "track_timed h t = map (\<lambda>a. (unat (deltatime (event_at h a)), message_of (event_body h (event_at h a)))) (track_addrs h t)"
    by (simp add: track_timed_def track_events_def)
  ultimately show ?thesis
    using write_events_out [OF rep(1), of "Suc (brk h)" "track_timed h t" w e] assms(2,3)
    by (simp add: write_track_def)
qed

text \<open>A stream at its end, and the stream with bytes added there.\<close>

definition at_end :: "FILE \<Rightarrow> bool" where
  "at_end f \<longleftrightarrow> fseekable f \<and> fpos f = length (fdata f)"

definition appended :: "byte list \<Rightarrow> FILE \<Rightarrow> FILE" where
  "appended bs f = f\<lparr>fdata := fdata f @ bs, fpos := length (fdata f @ bs)\<rparr>"

lemma at_end_appended [simp]: "at_end f \<Longrightarrow> at_end (appended bs f)"
  by (simp add: at_end_def appended_def)

lemma splice_at_end: "at_end f \<Longrightarrow> splice bs f = appended bs f"
  by (simp add: at_end_def appended_def splice_def)

lemma appended_appended: "appended bs (appended as f) = appended (as @ bs) f"
  by (simp add: appended_def)

lemma flimit_appended [simp]: "flimit (appended bs f) = flimit f"
  by (simp add: appended_def)

lemma room_at_end: "at_end (fout w) \<Longrightarrow> room n w \<longleftrightarrow> length (fdata (fout w)) + n \<le> flimit (fout w)"
  by (auto simp: room_def at_end_def)

lemma fout_out: "at_end (fout w) \<Longrightarrow> fout (out bs w) = appended bs (fout w)"
  by (simp add: out_def splice_at_end)

lemma fout_splice: "fout (out bs w) = splice bs (fout w)"
  by (simp add: out_def)

lemma MTrk_bytes: "be32 (unat MTrk) = tag ''MTrk''" and MThd_bytes: "be32 (unat MThd) = tag ''MThd''"
  by (simp_all add: be32_def MTrk_def MThd_def tag_def)

text \<open>The chunk's length is filled in by going back over the eight bytes of its header.\<close>

lemma fseek_patch:
  assumes "at_end f" "length as = length bs"
  shows "splice bs ((appended (as @ cs) f)\<lparr>fpos := length (fdata f)\<rparr>) =
    (appended (bs @ cs) f)\<lparr>fpos := length (fdata f) + length bs\<rparr>"
  using assms by (simp add: splice_def appended_def at_end_def)

lemma mf_write_track_chunk_out:
  assumes w: "writable h t" "at_end (fout w)" "track_at m i = Inr t"
    and room: "length (fdata (fout w)) + length (track_chunk (track_timed h t)) \<le> flimit (fout w)"
  shows "\<exists>w'. mf_write_track_chunk (stdio_fns e) (Some (handle_write_track (stdio_fns e) h m)) i w = Inr w'
    \<and> fout w' = appended (track_chunk (track_timed h t)) (fout w)"
proof -
  let ?P = "stdio_fns e" and ?f = "fout w" and ?b = "track_bytes 0 (track_timed h t)"
  let ?m = "be32 (unat MTrk)" and ?z = "be32 0"
  let ?w0 = "w\<lparr>laststatus := 0\<rparr>"
  let ?w1 = "out ?m ?w0"
  let ?w2 = "(out ?z ?w1)\<lparr>Mf_numbyteswritten := 0\<rparr>"
  let ?st = "end_status 0 (track_timed h t)"
  let ?w3 = "wrote ?b ?st ?w2"
  have len: "length (fdata ?f) + (8 + length ?b) \<le> flimit ?f" and small: "length ?b < 2 ^ 32"
    using room w(1) by (simp_all add: track_chunk_def tag_def writable_def)
  have e0: "at_end (fout ?w0)" using w(2) by simp
  have f1: "fout ?w1 = appended ?m ?f" using fout_out [OF e0] by simp
  have e1: "at_end (fout ?w1)" using w(2) by (simp add: f1)
  have f2: "fout ?w2 = appended (?m @ ?z) ?f" using fout_out [OF e1] by (simp add: f1 appended_appended)
  have e2: "at_end (fout ?w2)" unfolding f2 using w(2) by simp
  have f3: "fout ?w3 = appended (?m @ ?z @ ?b) ?f"
  proof -
    have "fout ?w3 = fout (out ?b ?w2)" by (simp add: wrote_def)
    also have "\<dots> = appended ?b (appended (?m @ ?z) ?f)" unfolding fout_out [OF e2] f2 ..
    finally show ?thesis by (simp add: appended_appended)
  qed
  have r: "room 4 ?w0" "room 4 ?w1" "room (length ?b) ?w2"
    unfolding room_at_end [OF e0] room_at_end [OF e1] room_at_end [OF e2] f1 f2
    using len by (simp_all add: appended_def)
  have s1: "write32bit ?P MTrk ?w0 = Inr ?w1" by (rule write32bit_out [OF r(1)])
  have s2: "write32bit ?P 0 ?w1 = Inr (out ?z ?w1)" using write32bit_out [OF r(2), of e 0] by simp
  have s3: "handle_write_track ?P h m i ?w2 = Inr ?w3"
    using write_track_out [OF w(1) _ r(3), of e] w(3) by (simp add: handle_write_track_def)
  have off: "ftell (fout w) = int (length (fdata ?f))" using w(2) by (simp add: ftell_def at_end_def)
  have sk: "fseek (fout ?w3) (int (length (fdata ?f))) = (0, (fout ?w3)\<lparr>fpos := length (fdata ?f)\<rparr>)"
    using w(2) by (simp add: f3 fseek_def appended_def at_end_def)
  have nb: "Mf_numbyteswritten ?w3 = int (length ?b)" by (simp add: wrote_def out_def)
  let ?w4 = "?w3\<lparr>fout := (fout ?w3)\<lparr>fpos := length (fdata ?f)\<rparr>\<rparr>"
  let ?w5 = "out ?m ?w4"
  let ?l = "word_of_int (int (length ?b)) :: ulong"
  let ?w6 = "out (be32 (unat ?l)) ?w5"
  have f4: "fout ?w4 = (appended (?m @ ?z @ ?b) ?f)\<lparr>fpos := length (fdata ?f)\<rparr>" by (simp add: f3)
  have f5: "fout ?w5 = (appended (?m @ ?z @ ?b) ?f)\<lparr>fpos := length (fdata ?f) + 4\<rparr>"
    unfolding fout_splice f4 using fseek_patch [OF w(2), of ?m ?m "?z @ ?b"] by simp
  have l: "unat ?l = length ?b" using small by (simp add: unsigned_of_nat take_bit_nat_eq_self)
  have f6: "fout ?w6 = (appended (?m @ be32 (length ?b) @ ?b) ?f)\<lparr>fpos := length (fdata ?f) + 8\<rparr>"
    unfolding fout_splice [of _ ?w5] f5 l using w(2) by (simp add: splice_def appended_def at_end_def)
  have r4: "room 4 ?w4" "room 4 ?w5"
    using len unfolding room_def f4 f5 by (simp_all add: appended_def)
  have s4: "write32bit ?P MTrk ?w4 = Inr ?w5" by (rule write32bit_out [OF r4(1)])
  have s5: "write32bit ?P ?l ?w5 = Inr ?w6" by (rule write32bit_out [OF r4(2)])
  let ?w7 = "?w6\<lparr>fout := snd (fseek (fout ?w6) (ftell (fout ?w3)))\<rparr>"
  have run: "mf_write_track_chunk ?P (Some (handle_write_track ?P h m)) i w = Inr ?w7"
    unfolding mf_write_track_chunk_def Let_def off s1 s2 andThen_Inr option.case s3 sk prod.case nb
    using s4 s5 by simp
  have "fout ?w7 = snd (fseek (fout ?w6) (ftell (fout ?w3)))" by simp
  also have "\<dots> = appended (?m @ be32 (length ?b) @ ?b) ?f"
    by (subst f6, subst f3) (use w(2) in \<open>simp add: fseek_def ftell_def appended_def at_end_def\<close>)
  finally show ?thesis using run by (simp add: track_chunk_def MTrk_bytes)
qed

lemma write_track_chunks_out:
  assumes "\<And>j t. j < length ts \<Longrightarrow> track_at m (i + int j) = Inr (ts ! j)"
    and "list_all (writable h) ts" "at_end (fout w)"
    and "length (fdata (fout w)) + length (concat (map (\<lambda>t. track_chunk (track_timed h t)) ts)) \<le> flimit (fout w)"
  shows "\<exists>w'. write_track_chunks (stdio_fns e) (Some (handle_write_track (stdio_fns e) h m)) i (length ts) w = Inr w'
    \<and> fout w' = appended (concat (map (\<lambda>t. track_chunk (track_timed h t)) ts)) (fout w)"
  using assms
proof (induction ts arbitrary: i w)
  case Nil
  then show ?case by (simp add: appended_def at_end_def)
next
  case (Cons t ts)
  have t: "track_at m i = Inr t" using Cons.prems(1) [of 0] by simp
  have "writable h t" "length (fdata (fout w)) + length (track_chunk (track_timed h t)) \<le> flimit (fout w)"
    using Cons.prems(2,4) by simp_all
  from mf_write_track_chunk_out [OF this(1) Cons.prems(3) t this(2), of e] obtain w1 where
    1: "mf_write_track_chunk (stdio_fns e) (Some (handle_write_track (stdio_fns e) h m)) i w = Inr w1"
    "fout w1 = appended (track_chunk (track_timed h t)) (fout w)" by blast
  have "\<exists>w'. write_track_chunks (stdio_fns e) (Some (handle_write_track (stdio_fns e) h m)) (i + 1) (length ts) w1 = Inr w'
    \<and> fout w' = appended (concat (map (\<lambda>t. track_chunk (track_timed h t)) ts)) (fout w1)"
  proof (rule Cons.IH)
    show "track_at m (i + 1 + int j) = Inr (ts ! j)" if "j < length ts" for j
      using Cons.prems(1) [of "Suc j"] that by (simp add: ac_simps)
    show "list_all (writable h) ts" using Cons.prems(2) by simp
    show "at_end (fout w1)" using Cons.prems(3) by (simp add: 1(2))
    show "length (fdata (fout w1)) + length (concat (map (\<lambda>t. track_chunk (track_timed h t)) ts)) \<le> flimit (fout w1)"
      using Cons.prems(4) by (simp add: 1(2)) (simp add: appended_def)
  qed
  then show ?case using 1 by (auto simp: appended_appended)
qed

lemma length_tag [simp]: "length (tag s) = length s"
  by (simp add: tag_def)

lemma mf_write_header_chunk_out:
  assumes "at_end (fout w)" "length (fdata (fout w)) + 14 \<le> flimit (fout w)"
  shows "\<exists>w'. mf_write_header_chunk (stdio_fns e) format n division w = Inr w'
    \<and> fout w' = appended (header_chunk format n division) (fout w)"
proof -
  have room: "room 14 w" using assms by (simp add: room_at_end)
  let ?w1 = "out (be32 (unat MThd)) w"
  let ?w2 = "out (be32 6) ?w1" and ?w3 = "out (be32 (unat MThd) @ be32 6 @ be16 format) w"
  have r: "room 4 w" "room 8 w" "room 10 w" "room 12 w"
    by (rule room_mono [OF room], simp)+
  have "write32bit (stdio_fns e) MThd w = Inr ?w1" by (rule write32bit_out [OF r(1)])
  moreover have "write32bit (stdio_fns e) 6 ?w1 = Inr (out (be32 (unat MThd) @ be32 6) w)"
    using write32bit_out [of ?w1 e 6] r by (simp add: room_out_eq out_out)
  moreover have "write16bit (stdio_fns e) format (out (be32 (unat MThd) @ be32 6) w) = Inr ?w3"
    using r by (simp add: write16bit_out room_out_eq out_out)
  moreover have "write16bit (stdio_fns e) n ?w3 = Inr (out (be32 (unat MThd) @ be32 6 @ be16 format @ be16 n) w)"
    using r by (simp add: write16bit_out room_out_eq out_out)
  moreover have "write16bit (stdio_fns e) division (out (be32 (unat MThd) @ be32 6 @ be16 format @ be16 n) w) =
      Inr (out (header_chunk format n division) w)"
    using r room by (simp add: write16bit_out room_out_eq out_out header_chunk_def MThd_bytes)
  ultimately show ?thesis using fout_out [OF assms(1)] by (simp add: mf_write_header_chunk_def)
qed

text \<open>
  Writing a file whose tracks fit the format gives exactly its bytes in that format.
\<close>

definition new_stream :: "nat \<Rightarrow> FILE" where
  "new_stream limit = \<lparr>fdata = [], fpos = 0, flimit = limit, fseekable = True\<rparr>"

lemma Mfile_write_to_midi_out:
  assumes ts: "tracks m = map Some ts" "ntracks m = int (length ts)" "list_all (writable h) ts"
    and room: "length (midi_bytes (mf_format m) (mf_division m) (map (track_timed h) ts)) \<le> limit"
  shows "\<exists>f. Mfile_write_to_midi h m (Some (new_stream limit)) = Inr f
    \<and> fdata f = midi_bytes (mf_format m) (mf_division m) (map (track_timed h) ts)"
proof -
  let ?w = "\<lparr>fout = new_stream limit, laststatus = 0, Mf_numbyteswritten = 0\<rparr>"
  let ?e = "Some handle_out_error"
  have e: "at_end (fout ?w)" by (simp add: at_end_def new_stream_def)
  have hl: "length (header_chunk (mf_format m) (ntracks m) (mf_division m)) = 14"
    by (simp add: header_chunk_def tag_def)
  let ?cs = "concat (map (\<lambda>t. track_chunk (track_timed h t)) ts)"
  have mb: "midi_bytes (mf_format m) (mf_division m) (map (track_timed h) ts) =
      header_chunk (mf_format m) (ntracks m) (mf_division m) @ ?cs"
    by (simp add: midi_bytes_def ts(2) o_def)
  have "length (fdata (fout ?w)) + 14 \<le> flimit (fout ?w)" using room hl by (simp add: mb new_stream_def)
  from mf_write_header_chunk_out [OF e this, of ?e "mf_format m" "ntracks m" "mf_division m"] obtain w1 where
    1: "mf_write_header_chunk (stdio_fns ?e) (mf_format m) (ntracks m) (mf_division m) ?w = Inr w1"
    "fout w1 = appended (header_chunk (mf_format m) (ntracks m) (mf_division m)) (fout ?w)" by blast
  let ?w1 = "w1\<lparr>laststatus := 0\<rparr>"
  have tr: "track_at m (0 + int j) = Inr (ts ! j)" if "j < length ts" for j
    using that ts(1) by (simp add: track_at_def)
  have e1: "at_end (fout ?w1)" using e by (simp add: 1(2))
  have "length (fdata (fout ?w1)) + length ?cs \<le> flimit (fout ?w1)"
    using room by (simp add: 1(2) mb) (simp add: appended_def new_stream_def)
  from write_track_chunks_out [OF tr ts(3) e1 this, of ?e] obtain w2 where
    2: "write_track_chunks (stdio_fns ?e) (Some (handle_write_track (stdio_fns ?e) h m)) 0 (length ts) ?w1 = Inr w2"
    "fout w2 = appended ?cs (fout ?w1)" by blast
  have P: "Mf_putc (stdio_fns ?e) = Some fputc" by (simp add: stdio_fns_def)
  have "Mfile_write_to_midi h m (Some (new_stream limit)) = Inr (fout w2)"
    using 1(1) 2(1) ts(2) P
    by (simp add: Mfile_write_to_midi_def load_out_file_def bind_out_stdio mfwrite_def)
  then show ?thesis
    by (simp add: 2(2) 1(2) mb appended_appended) (simp add: appended_def new_stream_def)
qed

lemma Mfile_write_to_midi_unopened: "Mfile_write_to_midi h m None = Inl Null_Deref"
  by (simp add: Mfile_write_to_midi_def load_out_file_def)

section \<open>Reading a file and writing it back\<close>

text \<open>
  What a file becomes: the delay before the first event of each track is lost, and the data bytes
  of pitch bends are exchanged.
\<close>

fun rewritten_message :: "message \<Rightarrow> message" where
  "rewritten_message (Channel type chan d0 d1) =
     (if type = pitch_wheel then Channel type chan d1 d0 else Channel type chan d0 d1)"
| "rewritten_message (Meta type bs) = Meta type bs"

fun rewritten_track :: "timed list \<Rightarrow> timed list" where
  "rewritten_track [] = []"
| "rewritten_track ((dt, m) # es) = (0, rewritten_message m) # map (\<lambda>(dt, m). (dt, rewritten_message m)) es"

lemma body_of_view:
  assumes "message_ok m" "message_ok (rewritten_message m)"
  shows "body_ok (snd (message_view ct m)) \<and> message_of (snd (message_view ct m)) = rewritten_message m"
  using assms by (cases m) (auto simp: two_bytes_def pitch_wheel_def split: if_splits)

lemma word_s64: "(word_of_int (s64 x) :: ulong) = word_of_int x"
by (simp add: s64_def word_of_int_eq_iff take_bit_signed_take_bit)

text \<open>The delta times the reader computes are those of the file, except for the first.\<close>

lemma diffs_items:
  "list_all timed_ok es \<Longrightarrow>
    map unat (diffs (word_of_int t) (map fst (items_from t es))) = map fst es"
proof (induction es arbitrary: t)
  case Nil
  then show ?case by simp
next
  case (Cons e es)
  obtain dt m where e: "e = (dt, m)" by (cases e)
  have dt: "dt < 2 ^ 56" using Cons.prems e by (simp add: timed_ok_def)
  have v: "fst (message_view ct m) = ct" for ct by (cases m) simp_all
  have "(word_of_int (s64 (t + int dt)) :: ulong) - word_of_int t = word_of_nat dt"
    unfolding word_s64 by simp
  moreover have "unat (word_of_nat dt :: ulong) = dt" using dt by (simp add: unsigned_of_nat take_bit_nat_eq_self)
  ultimately show ?case using Cons.IH [of "s64 (t + int dt)"] Cons.prems by (simp add: e v)
qed

lemma bodies_items:
  "list_all timed_ok es \<Longrightarrow> list_all (\<lambda>e. message_ok (rewritten_message (snd e))) es \<Longrightarrow>
    map (message_of \<circ> snd) (items_from t es) = map (rewritten_message \<circ> snd) es
    \<and> list_all (body_ok \<circ> snd) (items_from t es)"
proof (induction es arbitrary: t)
  case Nil
  then show ?case by simp
next
  case (Cons e es)
  obtain dt m where e: "e = (dt, m)" by (cases e)
  have "message_ok m" "message_ok (rewritten_message m)" using Cons.prems e by (simp_all add: timed_ok_def)
  from body_of_view [OF this] Cons.IH [of "s64 (t + int dt)"] Cons.prems show ?case by (simp add: e)
qed

lemma zip_rewritten: "zip (map fst es) (map (rewritten_message \<circ> snd) es) = map (\<lambda>(dt, m). (dt, rewritten_message m)) es"
  by (induction es) auto

lemma track_timed_read:
  assumes b: "building (h, t)" and items: "track_items h t = items_from 0 es"
    and ok: "list_all timed_ok es" "list_all (\<lambda>e. message_ok (rewritten_message (snd e))) es"
  shows "track_timed h t = rewritten_track es \<and> list_all (event_writable h) (track_events h t)"
proof -
  note bi = bodies_items [OF ok, of 0]
  have cur: "map curtime (track_events h t) = map fst (items_from 0 es)"
    by (simp add: track_curtimes items)
  have deltas: "map unat (track_deltas h t) = map fst (rewritten_track es)"
  proof (cases es)
    case Nil
    then show ?thesis using b cur by (simp add: deltas_ok_def)
  next
    case (Cons e es')
    obtain dt m where e: "e = (dt, m)" by (cases e)
    have v: "fst (message_view ct m) = ct" for ct by (cases m) simp_all
    have es': "list_all timed_ok es'" using ok(1) Cons by simp
    have "track_deltas h t = deltas_of (map fst (items_from 0 es))"
      using b cur by (simp add: deltas_ok_def)
    then show ?thesis using diffs_items [OF es', of "s64 (int dt)"] by (simp add: Cons e v o_def case_prod_beta)
  qed
  have msgs: "map (message_of \<circ> event_body h) (track_events h t) = map (rewritten_message \<circ> snd) es"
  proof -
    have "map (message_of \<circ> snd) (track_items h t) = map (rewritten_message \<circ> snd) es"
      unfolding items using bi by blast
    then show ?thesis by (simp add: track_items_def o_def)
  qed
  have "track_timed h t = zip (map unat (track_deltas h t)) (map (message_of \<circ> event_body h) (track_events h t))"
    by (simp add: track_timed_def track_deltas_def zip_map_map zip_same_conv_map o_def)
  also have "\<dots> = rewritten_track es"
    unfolding deltas msgs
    by (cases es rule: rewritten_track.cases) (simp_all add: o_def case_prod_beta zip_map_map zip_same_conv_map)
  finally have tt: "track_timed h t = rewritten_track es" .
  have bodies: "\<forall>e \<in> set (track_events h t). body_ok (event_body h e)"
  proof -
    have "list_all (body_ok \<circ> snd) (track_items h t)" using bi items by simp
    then show ?thesis by (simp add: track_items_def list_all_iff)
  qed
  have "fst x < 2 ^ 56" if "x \<in> set (rewritten_track es)" for x
    using that ok(1) by (cases es rule: rewritten_track.cases) (auto simp: list_all_iff timed_ok_def)
  then have "\<forall>x \<in> set (track_timed h t). fst x < 2 ^ 56" using tt by simp
  then have "\<forall>e \<in> set (track_events h t). unat (deltatime e) < 2 ^ 56" by (simp add: track_timed_def)
  moreover have "\<forall>e \<in> set (track_events h t). buf_live h e"
    using b by (simp add: bufs_live_def list_all_iff)
  ultimately show ?thesis using tt bodies by (simp add: event_writable_def list_all_iff)
qed

definition track_rewritable :: "timed list \<Rightarrow> bool" where
  "track_rewritable es \<longleftrightarrow> list_all (\<lambda>e. message_ok (rewritten_message (snd e))) es
     \<and> length (track_bytes 0 (rewritten_track es)) < 2 ^ 32"

lemma read_write_file:
  assumes f: "fs path = Some (midi_bytes format division tss)" "path_ok path"
    and "0 \<le> format" "format < 2 ^ 16" "length tss < 2 ^ 16" "0 \<le> division" "division < 2 ^ 16"
    and fit: "list_all (track_fits (malloc_max r)) tss" "list_all track_rewritable tss" and h: "heap_ok (rd_heap s)"
    and room: "length (midi_bytes format division (map rewritten_track tss)) \<le> limit"
  shows "\<exists>m r' s' g. Mfile_from_file B fs path r s = Inr (Some m, r', s')
    \<and> Mfile_write_to_midi (rd_heap s') m (Some (new_stream limit)) = Inr g
    \<and> fdata g = midi_bytes format division (map rewritten_track tss)"
proof -
  from Mfile_from_file_reads [where fs = fs, OF f assms(3-7) fit(1) h, of B] obtain m ts r' s' where
    R: "Mfile_from_file B fs path r s = Inr (Some m, r', s')" "tracks m = map Some ts"
    "mf_format m = format" "mf_division m = division" "ntracks m = int (length tss)" "forest (rd_heap s') ts"
    "map (track_items (rd_heap s')) ts = map (items_from 0) tss" by blast
  let ?h = "rd_heap s'"
  have len: "length ts = length tss" using R(7) by (metis length_map)
  have one: "track_timed ?h (ts ! i) = rewritten_track (tss ! i) \<and> writable ?h (ts ! i)" if i: "i < length ts" for i
  proof -
    have b: "building (?h, ts ! i)" using R(6) i unfolding forest_def by simp
    have it: "track_items ?h (ts ! i) = items_from 0 (tss ! i)"
      using arg_cong [OF R(7), of "\<lambda>xs. xs ! i"] i len by simp
    have ok: "list_all timed_ok (tss ! i)" "list_all (\<lambda>e. message_ok (rewritten_message (snd e))) (tss ! i)"
      "length (track_bytes 0 (rewritten_track (tss ! i))) < 2 ^ 32"
      using fit i len by (simp_all add: list_all_length track_fits_def track_rewritable_def)
    from track_timed_read [OF b it ok(1,2)] ok(3) b show ?thesis by (simp add: writable_def)
  qed
  have tt: "map (track_timed ?h) ts = map rewritten_track tss"
    by (rule nth_equalityI) (simp_all add: len one)
  have w: "list_all (writable ?h) ts" using one by (simp add: list_all_length)
  have n: "ntracks m = int (length ts)" using R(5) len by simp
  have "length (midi_bytes (mf_format m) (mf_division m) (map (track_timed ?h) ts)) \<le> limit"
    using room by (simp add: tt R(3,4))
  from Mfile_write_to_midi_out [OF R(2) n w this] show ?thesis
    using R(1) by (auto simp: tt R(3,4))
qed

end
