(* ===== verification/Midi_Splitter.thy ===== *)
theory Midi_Splitter
  imports Midi_Writer
begin

text \<open>
  \<open>server/midi_splitter.c\<close>: the tracks of a file are dealt out to several files, one per client.
  The lemmas show which client gets which tracks.
\<close>

section \<open>The functions of midi_splitter.c\<close>

text \<open>
  \<open>track_num_map\<close> allocates \<open>dest_len\<close> bytes and stores \<open>dest_len\<close> integers of four bytes there;
  \<open>usable n\<close> is the number of bytes the allocator really provides for a request of \<open>n\<close>.
\<close>

fun num_map_loop :: "nat \<Rightarrow> int \<Rightarrow> int \<Rightarrow> int list" where
  "num_map_loop 0 base additional = []"
| "num_map_loop (Suc n) base additional =
     (if additional > 0 then (base + 1) # num_map_loop n base (additional - 1)
      else base # num_map_loop n base additional)"

definition track_num_map :: "(nat \<Rightarrow> nat) \<Rightarrow> int \<Rightarrow> int \<Rightarrow> int list res" where
  "track_num_map usable src_len dest_len =
     andThen (c_div src_len dest_len) (\<lambda>base. andThen (c_rem src_len dest_len) (\<lambda>additional.
       if usable (nat dest_len) < 4 * nat dest_len then Inl Out_Of_Bounds
       else Inr (num_map_loop (nat dest_len) base additional)))"

definition copy_at :: "build \<Rightarrow> heap \<Rightarrow> Mfile \<Rightarrow> int \<Rightarrow> (heap \<times> Mtrack) res" where
  "copy_at B h m i = andThen (track_at m i) (Mtrack_copy B h)"

definition headers_of :: "build \<Rightarrow> Mfile \<Rightarrow> Mfile res" where
  "headers_of B m =
     Mfile_from_headers B (mf_format m) (mf_division m) (filename m) (music_name m) (info_text m) (copyright_info m)"

text \<open>One destination when there are at least as many of them as tracks.\<close>

definition dest_alone :: "build \<Rightarrow> Mfile \<Rightarrow> int \<Rightarrow> int \<Rightarrow> heap \<Rightarrow> (heap \<times> Mfile) res" where
  "dest_alone B m nsrc i h =
     andThen (headers_of B m) (\<lambda>d.
       if mf_format m = 1 then
         andThen (c_rem i nsrc) (\<lambda>q. let src_i = q + 1 in
         andThen (assert_c B (src_i < ntracks m)) (\<lambda>_.
         andThen (copy_at B h m 0) (\<lambda>(h1, t0). andThen (copy_at B h1 m src_i) (\<lambda>(h2, t1).
           Inr (h2, d\<lparr>ntracks := 2, has_tempotrack := 1, tracks := [Some t0, Some t1]\<rparr>)))))
       else
         andThen (c_rem i nsrc) (\<lambda>q. let src_i = q + 1 in
         andThen (copy_at B h m src_i) (\<lambda>(h1, t).
           Inr (h1, d\<lparr>ntracks := 1, has_tempotrack := 0, tracks := [Some t]\<rparr>))))"

text \<open>The loop over \<open>dtrack_i\<close>: every \<open>ndest\<close>-th track from \<open>src_i\<close> on.\<close>

fun copy_every :: "build \<Rightarrow> Mfile \<Rightarrow> int \<Rightarrow> nat \<Rightarrow> int \<Rightarrow> heap \<Rightarrow> (heap \<times> Mtrack list) res" where
  "copy_every B m ndest 0 src_i h = Inr (h, [])"
| "copy_every B m ndest (Suc n) src_i h =
     andThen (assert_c B (src_i < ntracks m)) (\<lambda>_. andThen (copy_at B h m src_i) (\<lambda>(h1, t).
     andThen (copy_every B m ndest n (src_i + ndest) h1) (\<lambda>(h2, ts). Inr (h2, t # ts))))"

text \<open>One destination when tracks have to be mixed.\<close>

definition dest_mixed :: "build \<Rightarrow> Mfile \<Rightarrow> int list \<Rightarrow> int \<Rightarrow> int \<Rightarrow> heap \<Rightarrow> (heap \<times> Mfile) res" where
  "dest_mixed B m dest_map ndest i h =
     andThen (headers_of B m) (\<lambda>d. let total = dest_map ! nat i in
       if mf_format m = 1 then
         andThen (copy_at B h m 0) (\<lambda>(h1, t0).
         andThen (copy_every B m ndest (nat total) (i + 1) h1) (\<lambda>(h2, ts).
           Inr (h2, d\<lparr>ntracks := total + 1, tracks := Some t0 # map Some ts\<rparr>)))
       else
         andThen (copy_every B m ndest (nat total) i h) (\<lambda>(h1, ts).
           Inr (h1, d\<lparr>ntracks := total, tracks := map Some ts\<rparr>)))"

fun each_dest :: "(int \<Rightarrow> heap \<Rightarrow> (heap \<times> Mfile) res) \<Rightarrow> nat \<Rightarrow> int \<Rightarrow> heap \<Rightarrow> (heap \<times> Mfile list) res" where
  "each_dest f 0 i h = Inr (h, [])"
| "each_dest f (Suc n) i h =
     andThen (f i h) (\<lambda>(h1, d). andThen (each_dest f n (i + 1) h1) (\<lambda>(h2, ds). Inr (h2, d # ds)))"

definition Mfile_split_by_tracks ::
  "build \<Rightarrow> (nat \<Rightarrow> nat) \<Rightarrow> heap \<Rightarrow> Mfile \<Rightarrow> int \<Rightarrow> (heap \<times> Mfile list option) res" where
  "Mfile_split_by_tracks B usable h m ndest =
     (if mf_format m = 0 then Inr (h, None)
      else let nsrc = (if mf_format m = 1 then ntracks m - 1 else ntracks m) in
        if ndest \<ge> nsrc then
          andThen (each_dest (dest_alone B m nsrc) (nat ndest) 0 h) (\<lambda>(h1, ds). Inr (h1, Some ds))
        else
          andThen (track_num_map usable nsrc ndest) (\<lambda>dest_map.
          andThen (each_dest (dest_mixed B m dest_map ndest) (nat ndest) 0 h) (\<lambda>(h1, ds). Inr (h1, Some ds))))"

section \<open>How many tracks each destination gets\<close>

definition share :: "nat \<Rightarrow> nat \<Rightarrow> nat \<Rightarrow> nat" where
  "share n k i = n div k + (if i < n mod k then 1 else 0)"

lemma num_map_loop_eq:
  "num_map_loop k base (int a) = map (\<lambda>i. base + (if i < a then 1 else 0)) [0..<k]"
proof (induction k arbitrary: a)
  case 0
  then show ?case by simp
next
  case (Suc k)
  have upt: "map f [0..<Suc k] = f 0 # map (f \<circ> Suc) [0..<k]" for f :: "nat \<Rightarrow> int"
    by (simp add: upt_conv_Cons map_Suc_upt [symmetric] del: upt_Suc)
  show ?case
  proof (cases a)
    case 0
    with Suc.IH [of 0] show ?thesis unfolding upt by (simp add: o_def)
  next
    case (Suc b)
    have "int a - 1 = int b" using Suc by simp
    with Suc Suc.IH [of b] show ?thesis unfolding upt by (simp add: o_def)
  qed
qed

lemma track_num_map_ok:
  assumes "0 < k" "4 * k \<le> usable k"
  shows "track_num_map usable (int n) (int k) = Inr (map (\<lambda>i. int (share n k i)) [0..<k])"
  using assms num_map_loop_eq [of k "int n div int k" "n mod k"]
  by (simp add: track_num_map_def share_def zmod_int zdiv_int if_distrib)

text \<open>The tracks at \<open>i\<close>, \<open>i + k\<close>, \<open>i + 2 * k\<close>, \<dots> are those whose number is \<open>i\<close> modulo \<open>k\<close>.\<close>

lemma share_Suc:
  assumes "i < k"
  shows "share (Suc n) k i = share n k i + (if n mod k = i then 1 else 0)"
proof -
  have k: "n mod k < k" using assms by simp
  show ?thesis
  proof (cases "Suc (n mod k) = k")
    case True
    then have "Suc n mod k = 0" "Suc n div k = Suc (n div k)"
      by (simp_all add: mod_Suc div_Suc)
    with True assms show ?thesis by (auto simp: share_def)
  next
    case False
    then have "Suc n mod k = Suc (n mod k)" "Suc n div k = n div k"
      by (simp_all add: mod_Suc div_Suc)
    with assms show ?thesis by (auto simp: share_def)
  qed
qed

lemma stride_filter:
  assumes "i < k"
  shows "map (\<lambda>d. i + d * k) [0..<share n k i] = filter (\<lambda>j. j mod k = i) [0..<n]"
proof (induction n)
  case 0
  then show ?case using assms by (simp add: share_def)
next
  case (Suc n)
  have "n mod k = i \<Longrightarrow> share n k i = n div k" using assms by (auto simp: share_def)
  then have "n mod k = i \<Longrightarrow> i + share n k i * k = n" using div_mult_mod_eq [of n k] by simp
  with Suc show ?case by (simp add: share_Suc [OF assms])
qed

lemma share_balanced: "i < k \<Longrightarrow> j < k \<Longrightarrow> i \<le> j \<Longrightarrow> share n k j \<le> share n k i \<and> share n k i \<le> Suc (share n k j)"
  by (auto simp: share_def)

lemma share_sum: "0 < k \<Longrightarrow> (\<Sum>i<k. share n k i) = n"
proof -
  assume k: "0 < k"
  have "(\<Sum>i<k. if i < n mod k then 1 else 0 :: nat) = card {i. i < k \<and> i < n mod k}"
    by (simp add: sum.If_cases Int_def lessThan_def)
  also have "{i. i < k \<and> i < n mod k} = {..<n mod k}" using mod_less_divisor [OF k, of n] by auto
  finally show ?thesis by (simp add: share_def sum.distrib mult.commute [of k])
qed

section \<open>Copies next to their sources\<close>

lemma relinked_deltas:
  "deltas_ok h t \<Longrightarrow> relinked None (track_events h t) = deltas_of (map curtime (track_events h t))"
  by (cases "track_events h t") (simp_all add: deltas_ok_def track_deltas_def)

lemma forest_copy:
  assumes B: "bd_accumulator B" and f: "forest h ts" and t: "t \<in> set ts" "strings_ok t"
  shows "\<exists>h' c. Mtrack_copy B h t = Inr (h', c) \<and> forest h' (ts @ [c]) \<and> track_items h' c = track_items h t
    \<and> is_tempotrack c = is_tempotrack t \<and> map (track_items h') ts = map (track_items h) ts"
proof -
  have b: "heap_ok h" "track_ok h t" "bufs_live h t" "deltas_ok h t"
    using f t(1) by (auto simp: forest_def)
  from t(2) obtain n i x where s: "cstrdup (trk_name t) = Inr n" "cstrdup (trk_instrument t) = Inr i"
    "cstrdup (trk_text t) = Inr x"
    using cstrdup_ok unfolding strings_ok_def by metis
  from Mtrack_copy_ok [OF B b(1-3) s] obtain h' c where C: "Mtrack_copy B h t = Inr (h', c)" "heap_ok h'"
    "track_ok h' c" "bufs_live h' c" "track_addrs h' c = [brk h..<brk h + length (track_addrs h t)]"
    "same_elsewhere {brk h..} h h'" "track_items h' c = track_items h t"
    "track_deltas h' c = relinked None (track_events h t)" "is_tempotrack c = is_tempotrack t" by blast
  have below: "set (track_addrs h u) \<subseteq> {..<brk h}" if "u \<in> set ts" for u
    using f that building_addrs_below by (auto simp: forest_def simp del: building.simps)
  have disj: "set (track_addrs h u) \<inter> {brk h..} = {}" if "u \<in> set ts" for u
    using below [OF that] by force
  note F = forest_frame [OF f C(2,6) disj]
  have "deltas_ok h' c"
    using relinked_deltas [OF b(4)] C(7,8) by (simp add: deltas_ok_def track_curtimes)
  then have bc: "building (h', c)" using C(2-4) by simp
  have eq: "map (track_addrs h') ts = map (track_addrs h) ts" using F by simp
  have "set (concat (map (track_addrs h) ts)) \<inter> set (track_addrs h' c) = {}"
    using below C(5) by fastforce
  then have "distinct (concat (map (track_addrs h') (ts @ [c])))"
    unfolding map_append concat_append eq using f C(5) by (simp add: forest_def)
  then have "forest h' (ts @ [c])"
    using F bc by (simp add: forest_def del: building.simps)
  then show ?thesis using C(1,7,9) F by auto
qed

text \<open>
  The source tracks \<open>ts\<close> and the copies \<open>us\<close> made so far share one store; the items of all of them stay.
\<close>

definition copies :: "heap \<Rightarrow> Mtrack list \<Rightarrow> (ulong \<times> body) list list \<Rightarrow> Mtrack list \<Rightarrow> (ulong \<times> body) list list \<Rightarrow> bool" where
  "copies h ts itss us its \<longleftrightarrow> forest h (ts @ us) \<and> map (track_items h) ts = itss \<and> map (track_items h) us = its
     \<and> (\<forall>t \<in> set ts. strings_ok t)"

lemma copy_at_ok:
  assumes B: "bd_accumulator B" and c: "copies h ts itss us its" and m: "tracks m = map Some ts" and i: "i < length ts"
  shows "\<exists>h' u. copy_at B h m (int i) = Inr (h', u) \<and> copies h' ts itss (us @ [u]) (its @ [itss ! i])"
proof -
  have t: "ts ! i \<in> set (ts @ us)" "strings_ok (ts ! i)" using c i by (auto simp: copies_def)
  have f: "forest h (ts @ us)" using c by (simp add: copies_def)
  from forest_copy [OF B f t] obtain h' u where u: "Mtrack_copy B h (ts ! i) = Inr (h', u)"
    "forest h' ((ts @ us) @ [u])" "track_items h' u = track_items h (ts ! i)"
    "map (track_items h') (ts @ us) = map (track_items h) (ts @ us)" by blast
  have "track_at m (int i) = Inr (ts ! i)" using m i by (simp add: track_at_def)
  then have "copy_at B h m (int i) = Inr (h', u)" using u(1) by (simp add: copy_at_def)
  moreover have "track_items h' u = itss ! i" using u(3) c i by (auto simp: copies_def)
  ultimately show ?thesis using c u(2,4) by (auto simp: copies_def)
qed

lemma copy_every_ok:
  assumes "bd_accumulator B" "copies h ts itss us its" "tracks m = map Some ts" "ntracks m = int (length ts)"
    and "\<And>d. d < n \<Longrightarrow> i + d * k < length ts"
  shows "\<exists>h' vs. copy_every B m (int k) n (int i) h = Inr (h', vs)
    \<and> copies h' ts itss (us @ vs) (its @ map (\<lambda>d. itss ! (i + d * k)) [0..<n])"
  using assms(2,5)
proof (induction n arbitrary: h us its i)
  case 0
  then show ?case by simp
next
  case (Suc n)
  have i: "i < length ts" using Suc.prems(2) [of 0] by simp
  from copy_at_ok [OF assms(1) Suc.prems(1) assms(3) i] obtain h1 u where
    1: "copy_at B h m (int i) = Inr (h1, u)" "copies h1 ts itss (us @ [u]) (its @ [itss ! i])" by blast
  have "\<And>d. d < n \<Longrightarrow> (i + k) + d * k < length ts" using Suc.prems(2) [of "Suc d" for d] by (simp add: ac_simps)
  from Suc.IH [OF 1(2) this] obtain h2 vs where
    2: "copy_every B m (int k) n (int (i + k)) h1 = Inr (h2, vs)"
    "copies h2 ts itss ((us @ [u]) @ vs) ((its @ [itss ! i]) @ map (\<lambda>d. itss ! (i + k + d * k)) [0..<n])" by blast
  have "map (\<lambda>d. itss ! (i + d * k)) [0..<Suc n] = itss ! i # map (\<lambda>d. itss ! (i + k + d * k)) [0..<n]"
    by (simp add: upt_conv_Cons map_Suc_upt [symmetric] o_def add.assoc del: upt_Suc)
  then show ?case using 1(1) 2 i assms(4) by auto
qed

lemma headers_of_ok:
  assumes "bd_accumulator B" "file_strings_ok m"
  shows "\<exists>d. headers_of B m = Inr d \<and> mf_format d = mf_format m \<and> mf_division d = mf_division m
    \<and> has_tempotrack d = 0"
proof -
  from assms(2) obtain f n i c where "cstrdup (filename m) = Inr f" "cstrdup (music_name m) = Inr n"
    "cstrdup (info_text m) = Inr i" "cstrdup (copyright_info m) = Inr c"
    using cstrdup_ok unfolding file_strings_ok_def by metis
  then show ?thesis using assms(1) by (simp add: headers_of_def Mfile_from_headers_def new_mfile_def)
qed

text \<open>
  What a list of destinations holds: the items of each destination's tracks, all tracks sound.
\<close>

definition dest_holds :: "heap \<Rightarrow> int \<Rightarrow> int \<Rightarrow> Mfile \<Rightarrow> (ulong \<times> body) list list \<Rightarrow> bool" where
  "dest_holds h format division d its \<longleftrightarrow> mf_format d = format \<and> mf_division d = division
     \<and> ntracks d = int (length its) \<and> (\<exists>us. tracks d = map Some us \<and> (\<forall>u \<in> set us. building (h, u))
     \<and> map (track_items h) us = its)"

lemma each_dest_ok:
  assumes step: "\<And>j h us its. j < K \<Longrightarrow> copies h ts itss us its \<Longrightarrow> \<exists>h' d vs. f (int j) h = Inr (h', d)
      \<and> copies h' ts itss (us @ vs) (its @ want j) \<and> tracks d = map Some vs \<and> mf_format d = format
      \<and> mf_division d = division \<and> ntracks d = int (length (want j))"
    and "copies h ts itss us its" "i + n \<le> K"
  shows "\<exists>h' ds vss. each_dest f n (int i) h = Inr (h', ds) \<and> length ds = n
    \<and> map tracks ds = map (map Some) vss \<and> map length vss = map (length \<circ> want) [i..<i + n]
    \<and> copies h' ts itss (us @ concat vss) (its @ concat (map want [i..<i + n]))
    \<and> (\<forall>j < n. mf_format (ds ! j) = format \<and> mf_division (ds ! j) = division
        \<and> ntracks (ds ! j) = int (length (want (i + j))))"
  using assms(2,3)
proof (induction n arbitrary: h us its i)
  case 0
  then show ?case by simp
next
  case (Suc n)
  have "i < K" using Suc.prems(2) by simp
  from step [OF this Suc.prems(1)] obtain h1 d vs where
    1: "f (int i) h = Inr (h1, d)" "copies h1 ts itss (us @ vs) (its @ want i)" "tracks d = map Some vs"
    "mf_format d = format" "mf_division d = division" "ntracks d = int (length (want i))" by blast
  have "Suc i + n \<le> K" using Suc.prems(2) by simp
  from Suc.IH [OF 1(2) this] obtain h2 ds vss where
    2: "each_dest f n (int (Suc i)) h1 = Inr (h2, ds)" "length ds = n" "map tracks ds = map (map Some) vss"
    "map length vss = map (length \<circ> want) [Suc i..<Suc i + n]"
    "copies h2 ts itss ((us @ vs) @ concat vss) ((its @ want i) @ concat (map want [Suc i..<Suc i + n]))"
    "\<forall>j < n. mf_format (ds ! j) = format \<and> mf_division (ds ! j) = division
        \<and> ntracks (ds ! j) = int (length (want (Suc i + j)))" by blast
  have upt: "[i..<i + Suc n] = i # [Suc i..<Suc i + n]" by (simp add: upt_conv_Cons del: upt_Suc)
  have "length vs = length (want i)"
  proof -
    have "map (track_items h1) us = its" using Suc.prems(1) 1(2)
      by (metis append_eq_append_conv copies_def length_map map_append)
    moreover have "map (track_items h1) (us @ vs) = its @ want i" using 1(2) by (simp only: copies_def)
    ultimately have "map (track_items h1) vs = want i" by simp
    then show ?thesis by (metis length_map)
  qed
  moreover have "each_dest f (Suc n) (int i) h = Inr (h2, d # ds)"
    using 1(1) 2(1) by (simp add: add.commute)
  moreover have "\<forall>j < Suc n. mf_format ((d # ds) ! j) = format \<and> mf_division ((d # ds) ! j) = division
        \<and> ntracks ((d # ds) ! j) = int (length (want (i + j)))"
    using 1(4-6) 2(6) by (auto simp: less_Suc_eq_0_disj)
  ultimately show ?case
    using 1(3) 2(2-5) unfolding upt by (intro exI [of _ h2] exI [of _ "d # ds"] exI [of _ "vs # vss"]) simp
qed

lemma each_dest_holds:
  assumes step: "\<And>j h us its. j < n \<Longrightarrow> copies h ts itss us its \<Longrightarrow> \<exists>h' d vs. f (int j) h = Inr (h', d)
      \<and> copies h' ts itss (us @ vs) (its @ want j) \<and> tracks d = map Some vs \<and> mf_format d = format
      \<and> mf_division d = division \<and> ntracks d = int (length (want j))"
    and c: "copies h ts itss [] []"
  shows "\<exists>h' ds. each_dest f n 0 h = Inr (h', ds) \<and> length ds = n \<and> heap_ok h'
    \<and> (\<forall>j < n. dest_holds h' format division (ds ! j) (want j))
    \<and> forest h' ts \<and> map (track_items h') ts = itss"
proof -
  from each_dest_ok [where f = f and want = want and K = n, OF step c, of 0 n] obtain h' ds vss where
    E: "each_dest f n 0 h = Inr (h', ds)" "length ds = n" "map tracks ds = map (map Some) vss"
    "map length vss = map (length \<circ> want) [0..<n]" "copies h' ts itss (concat vss) (concat (map want [0..<n]))"
    "\<forall>j < n. mf_format (ds ! j) = format \<and> mf_division (ds ! j) = division \<and> ntracks (ds ! j) = int (length (want j))"
    by auto
  have len: "length vss = n" using E(4) by (metis diff_zero length_map length_upt)
  have "concat (map (map (track_items h')) vss) = concat (map want [0..<n])"
    using E(5) by (simp add: copies_def map_concat)
  then have items: "map (map (track_items h')) vss = map want [0..<n]"
  proof (rule concat_injective)
    show "length (map (map (track_items h')) vss) = length (map want [0..<n])" using len by simp
    show "\<forall>(x, y) \<in> set (zip (map (map (track_items h')) vss) (map want [0..<n])). length x = length y"
    proof -
      have "length (vss ! i) = length (want i)" if "i < n" for i
        using arg_cong [OF E(4), of "\<lambda>xs. xs ! i"] that len by simp
      then show ?thesis using len by (auto simp: set_zip)
    qed
  qed
  have "dest_holds h' format division (ds ! j) (want j)" if j: "j < n" for j
  proof -
    have "tracks (ds ! j) = map Some (vss ! j)"
      using arg_cong [OF E(3), of "\<lambda>xs. xs ! j"] j len E(2) by simp
    moreover have "map (track_items h') (vss ! j) = want j"
      using arg_cong [OF items, of "\<lambda>xs. xs ! j"] j len by simp
    moreover have "\<forall>u \<in> set (vss ! j). building (h', u)"
    proof
      fix u assume "u \<in> set (vss ! j)"
      then have "u \<in> set (ts @ concat vss)" using j len by (auto intro: nth_mem)
      with E(5) show "building (h', u)" unfolding copies_def forest_def by blast
    qed
    ultimately show ?thesis using E(6) j by (simp add: dest_holds_def)
  qed
  moreover have "forest h' ts" "heap_ok h'" "map (track_items h') ts = itss"
    using E(5) by (auto simp: copies_def forest_def)
  ultimately show ?thesis using E(1,2) by blast
qed

section \<open>Splitting a file\<close>

text \<open>A file that has been read: sound tracks, C strings.\<close>

definition file_ok :: "heap \<Rightarrow> Mfile \<Rightarrow> Mtrack list \<Rightarrow> bool" where
  "file_ok h m ts \<longleftrightarrow> tracks m = map Some ts \<and> ntracks m = int (length ts) \<and> forest h ts \<and> file_strings_ok m
     \<and> (\<forall>t \<in> set ts. strings_ok t)"

lemma file_ok_copies: "file_ok h m ts \<Longrightarrow> copies h ts (map (track_items h) ts) [] []"
  by (simp add: file_ok_def copies_def)

text \<open>
  Fewer destinations than tracks, format 1: every destination gets the tempo track and, of the
  others, those whose number is its own modulo the number of destinations.
\<close>

definition mixed_items :: "'a list \<Rightarrow> nat \<Rightarrow> nat \<Rightarrow> 'a list" where
  "mixed_items itss k i = itss ! 0 # map (\<lambda>j. itss ! Suc j) (filter (\<lambda>j. j mod k = i) [0..<length itss - 1])"

lemma dest_mixed_ok:
  assumes B: "bd_accumulator B" and m: "file_ok h0 m ts" "mf_format m = 1" "ts \<noteq> []"
    and i: "i < k" and c: "copies h ts itss us its"
  shows "\<exists>h' d vs. dest_mixed B m (map (\<lambda>i. int (share (length ts - 1) k i)) [0..<k]) (int k) (int i) h = Inr (h', d)
    \<and> copies h' ts itss (us @ vs) (its @ mixed_items itss k i) \<and> tracks d = map Some vs \<and> mf_format d = 1
    \<and> mf_division d = mf_division m \<and> ntracks d = int (length (mixed_items itss k i))"
proof -
  let ?n = "length ts - 1" and ?s = "share (length ts - 1) k i"
  have mt: "tracks m = map Some ts" "ntracks m = int (length ts)" "file_strings_ok m" using m(1) by (auto simp: file_ok_def)
  have len: "length itss = length ts" using c by (auto simp: copies_def)
  from headers_of_ok [OF B mt(3)] obtain d where d: "headers_of B m = Inr d" "mf_format d = mf_format m"
    "mf_division d = mf_division m" by blast
  have "0 < length ts" using m(3) by simp
  from copy_at_ok [OF B c mt(1) this] obtain h1 t0 where
    1: "copy_at B h m 0 = Inr (h1, t0)" "copies h1 ts itss (us @ [t0]) (its @ [itss ! 0])" by auto
  have sf: "map (\<lambda>d. i + d * k) [0..<?s] = filter (\<lambda>j. j mod k = i) [0..<?n]" by (rule stride_filter [OF i])
  have "Suc i + e * k < length ts" if "e < ?s" for e
  proof -
    have "i + e * k \<in> set (filter (\<lambda>j. j mod k = i) [0..<?n])" unfolding sf [symmetric] using that by auto
    then show ?thesis by auto
  qed
  from copy_every_ok [OF B 1(2) mt(1,2), of ?s "Suc i" k] this obtain h2 vs where
    2: "copy_every B m (int k) ?s (int (Suc i)) h1 = Inr (h2, vs)"
    "copies h2 ts itss ((us @ [t0]) @ vs) ((its @ [itss ! 0]) @ map (\<lambda>d. itss ! (Suc i + d * k)) [0..<?s])" by blast
  have "map (\<lambda>d. itss ! (Suc i + d * k)) [0..<?s] = map (\<lambda>j. itss ! Suc j) (map (\<lambda>d. i + d * k) [0..<?s])" by simp
  also have "\<dots> = map (\<lambda>j. itss ! Suc j) (filter (\<lambda>j. j mod k = i) [0..<?n])" unfolding sf ..
  finally have want: "itss ! 0 # map (\<lambda>d. itss ! (Suc i + d * k)) [0..<?s] = mixed_items itss k i"
    by (simp add: mixed_items_def len)
  have "length (mixed_items itss k i) = Suc ?s" unfolding want [symmetric] by simp
  moreover have "dest_mixed B m (map (\<lambda>i. int (share ?n k i)) [0..<k]) (int k) (int i) h =
      Inr (h2, d\<lparr>ntracks := int ?s + 1, tracks := Some t0 # map Some vs\<rparr>)"
    using d(1) 1(1) 2(1) i m(2) by (simp add: dest_mixed_def add.commute)
  moreover have "copies h2 ts itss (us @ (t0 # vs)) (its @ mixed_items itss k i)"
    using 2(2) want by simp
  ultimately show ?thesis using d(2,3) m(2)
    by (intro exI [of _ h2] exI [of _ "d\<lparr>ntracks := int ?s + 1, tracks := Some t0 # map Some vs\<rparr>"] exI [of _ "t0 # vs"]) simp
qed

lemma split_mixed:
  assumes B: "bd_accumulator B" and m: "file_ok h m ts" "mf_format m = 1"
    and k: "0 < k" "k < length ts - 1" "4 * k \<le> usable k"
  shows "\<exists>h' ds. Mfile_split_by_tracks B usable h m (int k) = Inr (h', Some ds) \<and> length ds = k
    \<and> (\<forall>i < k. dest_holds h' 1 (mf_division m) (ds ! i) (mixed_items (map (track_items h) ts) k i))
    \<and> forest h' ts \<and> map (track_items h') ts = map (track_items h) ts"
proof -
  have ts: "ts \<noteq> []" using k by auto
  let ?dm = "map (\<lambda>i. int (share (length ts - 1) k i)) [0..<k]" and ?itss = "map (track_items h) ts"
  have nt: "ntracks m - 1 = int (length ts - 1)"
  proof -
    have "1 \<le> length ts" using k(2) by linarith
    then show ?thesis using m(1) by (simp add: file_ok_def of_nat_diff)
  qed
  have map_ok: "track_num_map usable (int (length ts - 1)) (int k) = Inr ?dm"
    by (rule track_num_map_ok [where usable = usable, OF k(1,3)])
  have "\<exists>h' ds. each_dest (dest_mixed B m ?dm (int k)) k 0 h = Inr (h', ds) \<and> length ds = k \<and> heap_ok h'
    \<and> (\<forall>j < k. dest_holds h' 1 (mf_division m) (ds ! j) (mixed_items ?itss k j))
    \<and> forest h' ts \<and> map (track_items h') ts = ?itss"
  proof (rule each_dest_holds [where want = "mixed_items ?itss k"])
    show "copies h ts ?itss [] []" by (rule file_ok_copies [OF m(1)])
  qed (rule dest_mixed_ok [OF B m ts])
  then obtain h' ds where E: "each_dest (dest_mixed B m ?dm (int k)) k 0 h = Inr (h', ds)" "length ds = k"
    "\<forall>j < k. dest_holds h' 1 (mf_division m) (ds ! j) (mixed_items ?itss k j)"
    "forest h' ts" "map (track_items h') ts = ?itss" by blast
  have "\<not> int (length ts - 1) \<le> int k" using k(2) by simp
  then have "Mfile_split_by_tracks B usable h m (int k) = Inr (h', Some ds)"
    using m(2) map_ok E(1) by (simp add: Mfile_split_by_tracks_def nt Let_def del: of_nat_le_iff of_nat_diff)
  then show ?thesis using E by blast
qed


text \<open>
  At least as many destinations as tracks, format 1: each gets the tempo track and one other,
  going round.
\<close>

definition alone_items :: "'a list \<Rightarrow> nat \<Rightarrow> 'a list" where
  "alone_items itss i = [itss ! 0, itss ! Suc (i mod (length itss - 1))]"

lemma dest_alone_ok:
  assumes B: "bd_accumulator B" and m: "file_ok h0 m ts" "mf_format m = 1" "1 < length ts"
    and c: "copies h ts itss us its"
  shows "\<exists>h' d vs. dest_alone B m (int (length ts - 1)) (int i) h = Inr (h', d)
    \<and> copies h' ts itss (us @ vs) (its @ alone_items itss i) \<and> tracks d = map Some vs \<and> mf_format d = 1
    \<and> mf_division d = mf_division m \<and> ntracks d = int (length (alone_items itss i))"
proof -
  let ?n = "length ts - 1"
  have mt: "tracks m = map Some ts" "ntracks m = int (length ts)" "file_strings_ok m" using m(1) by (auto simp: file_ok_def)
  have len: "length itss = length ts" using c by (auto simp: copies_def)
  from headers_of_ok [OF B mt(3)] obtain d where d: "headers_of B m = Inr d" "mf_format d = mf_format m"
    "mf_division d = mf_division m" by blast
  have n: "0 < ?n" using m(3) by simp
  then have src: "Suc (i mod ?n) < length ts" using mod_less_divisor [OF n, of i] by linarith
  have z: "0 < length ts" using m(3) by linarith
  from copy_at_ok [OF B c mt(1) z] obtain h1 t0 where
    1: "copy_at B h m 0 = Inr (h1, t0)" "copies h1 ts itss (us @ [t0]) (its @ [itss ! 0])" by auto
  from copy_at_ok [OF B 1(2) mt(1) src] obtain h2 t1 where
    2: "copy_at B h1 m (int (Suc (i mod ?n))) = Inr (h2, t1)"
    "copies h2 ts itss ((us @ [t0]) @ [t1]) ((its @ [itss ! 0]) @ [itss ! Suc (i mod ?n)])" by blast
  have rem: "c_rem (int i) (int ?n) = Inr (int (i mod ?n))" using n by (simp add: zmod_int)
  have s: "int (i mod ?n) + 1 = int (Suc (i mod ?n))" by simp
  have "dest_alone B m (int ?n) (int i) h =
      Inr (h2, d\<lparr>ntracks := 2, has_tempotrack := 1, tracks := [Some t0, Some t1]\<rparr>)"
    unfolding dest_alone_def d(1) andThen_Inr rem Let_def s using m(2) mt(2) src 1(1) 2(1) by simp
  then show ?thesis using d(2,3) m(2) 2(2) len
    by (intro exI [of _ h2] exI [of _ "d\<lparr>ntracks := 2, has_tempotrack := 1, tracks := [Some t0, Some t1]\<rparr>"]
        exI [of _ "[t0, t1]"]) (simp add: alone_items_def)
qed

lemma split_alone:
  assumes B: "bd_accumulator B" and m: "file_ok h m ts" "mf_format m = 1"
    and k: "1 < length ts" "length ts - 1 \<le> k"
  shows "\<exists>h' ds. Mfile_split_by_tracks B usable h m (int k) = Inr (h', Some ds) \<and> length ds = k
    \<and> (\<forall>i < k. dest_holds h' 1 (mf_division m) (ds ! i) (alone_items (map (track_items h) ts) i))
    \<and> forest h' ts \<and> map (track_items h') ts = map (track_items h) ts"
proof -
  let ?itss = "map (track_items h) ts"
  have nt: "ntracks m - 1 = int (length ts - 1)"
    using m(1) k(1) by (simp add: file_ok_def of_nat_diff)
  have "\<exists>h' ds. each_dest (dest_alone B m (int (length ts - 1))) k 0 h = Inr (h', ds) \<and> length ds = k \<and> heap_ok h'
    \<and> (\<forall>j < k. dest_holds h' 1 (mf_division m) (ds ! j) (alone_items ?itss j))
    \<and> forest h' ts \<and> map (track_items h') ts = ?itss"
  proof (rule each_dest_holds [where want = "alone_items ?itss"])
    show "copies h ts ?itss [] []" by (rule file_ok_copies [OF m(1)])
  qed (rule dest_alone_ok [OF B m k(1)])
  then obtain h' ds where E: "each_dest (dest_alone B m (int (length ts - 1))) k 0 h = Inr (h', ds)" "length ds = k"
    "\<forall>j < k. dest_holds h' 1 (mf_division m) (ds ! j) (alone_items ?itss j)"
    "forest h' ts" "map (track_items h') ts = ?itss" by blast
  have "int (length ts - 1) \<le> int k" using k(2) by simp
  then have "Mfile_split_by_tracks B usable h m (int k) = Inr (h', Some ds)"
    using m(2) E(1) by (simp add: Mfile_split_by_tracks_def nt Let_def del: of_nat_le_iff of_nat_diff)
  then show ?thesis using E by blast
qed

text \<open>
  C37: A file of format 1 with nothing but its tempo track leaves no track to share: the number of the track
  for a destination is taken modulo 0.
\<close>

theorem split_only_tempotrack:
  assumes "bd_accumulator B" "file_ok h m [t]" "mf_format m = 1" "0 < k"
  shows "Mfile_split_by_tracks B usable h m (int k) = Inl Div_By_Zero"
proof -
  have nt: "ntracks m = 1" "file_strings_ok m" using assms(2) by (simp_all add: file_ok_def)
  from headers_of_ok [OF assms(1) nt(2)] obtain d where d: "headers_of B m = Inr d" by blast
  from assms(4) obtain j where "k = Suc j" by (cases k) auto
  then have "each_dest (dest_alone B m 0) k 0 h = Inl Div_By_Zero"
    using assms(3) d by (simp add: dest_alone_def)
  then show ?thesis using assms(3) nt(1) by (simp add: Mfile_split_by_tracks_def)
qed

lemma split_no_dest:
  assumes "mf_format m \<noteq> 0" "1 < ntracks m"
  shows "Mfile_split_by_tracks B usable h m 0 = Inl Div_By_Zero"
  using assms by (simp add: Mfile_split_by_tracks_def track_num_map_def)

text \<open>
  Format 2 with as many destinations as tracks: the index runs from 1 to \<open>nsrc\<close>, and the last one is
  past the end of the array.
\<close>

lemma each_dest_fails:
  assumes step: "\<And>j h us its. j < p \<Longrightarrow> copies h ts itss us its \<Longrightarrow>
      \<exists>h' d us' its'. f (int j) h = Inr (h', d) \<and> copies h' ts itss us' its'"
    and fail: "\<And>h us its. copies h ts itss us its \<Longrightarrow> f (int p) h = Inl e"
    and "copies h ts itss us its" "i \<le> p" "p < i + n"
  shows "each_dest f n (int i) h = Inl e"
  using assms(3-5)
proof (induction n arbitrary: h us its i)
  case 0
  then show ?case by simp
next
  case (Suc n)
  show ?case
  proof (cases "i = p")
    case True
    then show ?thesis using fail [OF Suc.prems(1)] by simp
  next
    case False
    then have i: "i < p" using Suc.prems(2) by simp
    from step [OF i Suc.prems(1)] obtain h1 d us1 its1 where
      1: "f (int i) h = Inr (h1, d)" "copies h1 ts itss us1 its1" by blast
    have "each_dest f n (int (Suc i)) h1 = Inl e"
      by (rule Suc.IH [OF 1(2)]) (use i Suc.prems(3) in simp_all)
    then show ?thesis using 1(1) by (simp add: add.commute)
  qed
qed

text \<open>
  C36: A file of format 2 has no tempo track, but the copying of single tracks still skips the first one: with as
  many destinations as tracks, or more, it reads behind the end of the array of tracks.
\<close>

theorem split_format_2:
  assumes B: "bd_accumulator B" and m: "file_ok h m ts" "mf_format m = 2"
    and k: "ts \<noteq> []" "length ts \<le> k"
  shows "Mfile_split_by_tracks B usable h m (int k) = Inl Out_Of_Bounds"
proof -
  have mt: "tracks m = map Some ts" "ntracks m = int (length ts)" "file_strings_ok m" using m(1) by (auto simp: file_ok_def)
  from headers_of_ok [OF B mt(3)] obtain d where d: "headers_of B m = Inr d" by blast
  have pos: "0 < length ts" using k(1) by simp
  have rem: "c_rem (int j) (int (length ts)) = Inr (int j)" if "j < length ts" for j
    using that pos by (simp add: zmod_int [symmetric])
  have "each_dest (dest_alone B m (int (length ts))) k (int 0) h = Inl Out_Of_Bounds"
  proof (rule each_dest_fails [where p = "length ts - 1" and its = "[]" and us = "[]"])
    show "copies h ts (map (track_items h) ts) [] []" by (rule file_ok_copies [OF m(1)])
    show "length ts - 1 < 0 + k" using k(2) pos by linarith
    have s: "int (length ts - 1) + 1 = int (length ts)" using pos by (simp add: of_nat_diff Suc_le_eq del: length_greater_0_conv)
    have "length ts - 1 < length ts" using pos by simp
    note r = rem [OF this]
    have "copy_at B h' m (int (length ts)) = Inl Out_Of_Bounds" for h'
      using mt(1) by (simp add: copy_at_def track_at_def)
    then show "dest_alone B m (int (length ts)) (int (length ts - 1)) h' = Inl Out_Of_Bounds" for h'
      unfolding dest_alone_def d andThen_Inr r Let_def s using m(2) by simp
  next
    fix j h' us its
    assume j: "j < length ts - 1" and c: "copies h' ts (map (track_items h) ts) us its"
    have "j < length ts" "Suc j < length ts" using j by simp_all
    note r = rem [OF this(1)]
    have s: "int j + 1 = int (Suc j)" by simp
    from copy_at_ok [OF B c mt(1) \<open>Suc j < length ts\<close>] obtain h1 u where
      1: "copy_at B h' m (int (Suc j)) = Inr (h1, u)"
      "copies h1 ts (map (track_items h) ts) (us @ [u]) (its @ [map (track_items h) ts ! Suc j])" by blast
    have "dest_alone B m (int (length ts)) (int j) h' =
        Inr (h1, d\<lparr>ntracks := 1, has_tempotrack := 0, tracks := [Some u]\<rparr>)"
      unfolding dest_alone_def d andThen_Inr r Let_def s using m(2) 1(1) by simp
    then show "\<exists>h1 d us' its'. dest_alone B m (int (length ts)) (int j) h' = Inr (h1, d)
        \<and> copies h1 ts (map (track_items h) ts) us' its'"
      using 1(2) by blast
  qed simp
  then show ?thesis using m(2) mt(2) k(2) by (simp add: Mfile_split_by_tracks_def)
qed

section \<open>From one file to a file for each destination\<close>

lemma track_writable_read:
  assumes "building (h, t)" "track_items h t = items_from 0 es" "list_all timed_ok es" "track_rewritable es"
  shows "track_timed h t = rewritten_track es \<and> writable h t"
  using track_timed_read [OF assms(1-3)] assms(1,4) by (simp add: track_rewritable_def writable_def)

lemma write_dest:
  assumes d: "dest_holds h format division d (map (items_from 0) ess)"
    and ok: "list_all (list_all timed_ok) ess" "list_all track_rewritable ess"
    and room: "length (midi_bytes format division (map rewritten_track ess)) \<le> limit"
  shows "\<exists>g. Mfile_write_to_midi h d (Some (new_stream limit)) = Inr g
    \<and> fdata g = midi_bytes format division (map rewritten_track ess)"
proof -
  from d obtain us where u: "tracks d = map Some us" "\<forall>u \<in> set us. building (h, u)"
    "map (track_items h) us = map (items_from 0) ess" "mf_format d = format" "mf_division d = division"
    "ntracks d = int (length ess)" by (auto simp: dest_holds_def)
  have len: "length us = length ess" using u(3) by (metis length_map)
  have one: "track_timed h (us ! i) = rewritten_track (ess ! i) \<and> writable h (us ! i)" if i: "i < length us" for i
  proof (rule track_writable_read)
    show "building (h, us ! i)" using u(2) nth_mem [OF i] by blast
    show "track_items h (us ! i) = items_from 0 (ess ! i)"
      using arg_cong [OF u(3), of "\<lambda>xs. xs ! i"] i len by simp
    show "list_all timed_ok (ess ! i)" "track_rewritable (ess ! i)"
      using ok i len by (simp_all add: list_all_length)
  qed
  have tt: "map (track_timed h) us = map rewritten_track ess"
    by (rule nth_equalityI) (simp_all add: len one)
  have w: "list_all (writable h) us" using one by (simp add: list_all_length)
  have n: "ntracks d = int (length us)" using u(6) len by simp
  have "length (midi_bytes (mf_format d) (mf_division d) (map (track_timed h) us)) \<le> limit"
    using room by (simp add: tt u(4,5))
  from Mfile_write_to_midi_out [OF u(1) n w this] show ?thesis by (simp add: tt u(4,5))
qed

lemma mixed_items_map: "xs \<noteq> [] \<Longrightarrow> mixed_items (map f xs) k i = map f (mixed_items xs k i)"
  by (auto simp: mixed_items_def less_diff_conv)

lemma alone_items_map: "1 < length xs \<Longrightarrow> alone_items (map f xs) i = map f (alone_items xs i)"
proof -
  assume l: "1 < length xs"
  then have "i mod (length xs - 1) < length xs - 1" by simp
  then have "Suc (i mod (length xs - 1)) < length xs" by linarith
  moreover have "0 < length xs" using l by linarith
  ultimately show ?thesis by (simp add: alone_items_def)
qed

lemma mixed_items_set: "xs \<noteq> [] \<Longrightarrow> set (mixed_items xs k i) \<subseteq> set xs"
  by (auto simp: mixed_items_def)

lemma alone_items_set: "1 < length xs \<Longrightarrow> set (alone_items xs i) \<subseteq> set xs"
proof -
  assume l: "1 < length xs"
  then have "i mod (length xs - 1) < length xs - 1" by simp
  then have "Suc (i mod (length xs - 1)) < length xs" by linarith
  moreover have "0 < length xs" using l by linarith
  ultimately show ?thesis by (simp add: alone_items_def)
qed

text \<open>Every track but the tempo track goes to exactly one destination.\<close>

lemma mixed_items_once:
  assumes "distinct xs" "Suc j < length xs" "i < k" "0 < k"
  shows "xs ! Suc j \<in> set (mixed_items xs k i) \<longleftrightarrow> j mod k = i"
proof -
  have z: "0 < length xs" using assms(2) by linarith
  have "xs ! Suc j = xs ! 0 \<longleftrightarrow> False" using nth_eq_iff_index_eq [OF assms(1,2) z] by simp
  then have "xs ! Suc j \<in> set (mixed_items xs k i)
      \<longleftrightarrow> (\<exists>l. l < length xs - 1 \<and> l mod k = i \<and> xs ! Suc j = xs ! Suc l)"
    by (auto simp: mixed_items_def)
  also have "\<dots> \<longleftrightarrow> (\<exists>l. l < length xs - 1 \<and> l mod k = i \<and> j = l)"
  proof -
    have "Suc l < length xs \<Longrightarrow> xs ! Suc j = xs ! Suc l \<longleftrightarrow> j = l" for l
      using nth_eq_iff_index_eq [OF assms(1,2), of "Suc l"] by simp
    then show ?thesis using assms(2) by (metis Suc_less_eq Suc_pred' less_diff_conv Suc_eq_plus1)
  qed
  also have "\<dots> \<longleftrightarrow> j mod k = i" using assms(2) by auto
  finally show ?thesis .
qed

text \<open>Reading a file of format 1, splitting it and writing the parts.\<close>

definition shares :: "'a list \<Rightarrow> nat \<Rightarrow> nat \<Rightarrow> 'a list" where
  "shares xs k i = (if length xs - 1 \<le> k then alone_items xs i else mixed_items xs k i)"

text \<open>\<open>loaded\<close>: a file of format 1 as reading leaves it in the store, with the tracks \<open>tss\<close> of its bytes.\<close>

definition loaded :: "heap \<Rightarrow> Mfile \<Rightarrow> int \<Rightarrow> timed list list \<Rightarrow> bool" where
  "loaded h m division tss \<longleftrightarrow> (\<exists>ts. file_ok h m ts \<and> mf_format m = 1 \<and> mf_division m = division
     \<and> map (track_items h) ts = map (items_from 0) tss)"

lemma read_loaded:
  assumes f: "fs path = Some (midi_bytes 1 division tss)" "path_ok path"
    and "length tss < 2 ^ 16" "0 \<le> division" "division < 2 ^ 16"
    and "list_all (track_fits (malloc_max r)) tss" "heap_ok (rd_heap s)"
  shows "\<exists>m r' s'. Mfile_from_file B fs path r s = Inr (Some m, r', s') \<and> loaded (rd_heap s') m division tss"
proof -
  from Mfile_from_file_reads [where fs = fs, OF f _ _ assms(3-7), of B] obtain m ts r' s' where
    R: "Mfile_from_file B fs path r s = Inr (Some m, r', s')" "tracks m = map Some ts"
    "mf_format m = 1" "mf_division m = division" "ntracks m = int (length tss)" "forest (rd_heap s') ts"
    "map (track_items (rd_heap s')) ts = map (items_from 0) tss" "file_strings_ok m" "\<forall>t \<in> set ts. strings_ok t" by auto
  moreover have "length ts = length tss" using R(7) by (metis length_map)
  ultimately have "loaded (rd_heap s') m division tss" by (auto simp: loaded_def file_ok_def)
  then show ?thesis using R(1) by blast
qed

text \<open>Splitting a loaded file: the \<open>i\<close>-th part holds the \<open>i\<close>-th share of the tracks.\<close>

lemma split_loaded:
  assumes m: "loaded h m division tss" and "1 < length tss" "0 < k" "4 * k \<le> usable k" and B: "bd_accumulator B"
  shows "\<exists>h' ds. Mfile_split_by_tracks B usable h m (int k) = Inr (h', Some ds) \<and> length ds = k
    \<and> (\<forall>i < k. dest_holds h' 1 division (ds ! i) (map (items_from 0) (shares tss k i)))"
proof -
  from m obtain ts where R: "file_ok h m ts" "mf_format m = 1" "mf_division m = division"
    "map (track_items h) ts = map (items_from 0) tss" by (auto simp: loaded_def)
  have len: "length ts = length tss" using R(4) by (metis length_map)
  have ne: "tss \<noteq> []" using assms(2) by auto
  show ?thesis
  proof (cases "length tss - 1 \<le> k")
    case True
    have "1 < length ts" "length ts - 1 \<le> k" using True assms(2) len by simp_all
    from split_alone [OF B R(1,2) this, of usable] show ?thesis
      using True R(3,4) alone_items_map [OF assms(2), of "items_from 0"] by (auto simp: shares_def)
  next
    case False
    have "k < length ts - 1" using False len by simp
    from split_mixed [where usable = usable, OF B R(1,2) assms(3) this assms(4)] show ?thesis
      using False R(3,4) mixed_items_map [OF ne, of "items_from 0"] by (auto simp: shares_def)
  qed
qed

definition writable_file :: "nat \<Rightarrow> timed list list \<Rightarrow> bool" where
  "writable_file limit tss \<longleftrightarrow> list_all (track_fits limit) tss \<and> list_all track_rewritable tss"

text \<open>The bytes of the \<open>i\<close>-th part when it is written.\<close>

definition part_bytes :: "int \<Rightarrow> timed list list \<Rightarrow> nat \<Rightarrow> nat \<Rightarrow> byte list" where
  "part_bytes division tss k i = midi_bytes 1 division (map rewritten_track (shares tss k i))"

lemma write_share:
  assumes d: "dest_holds h' 1 division d (map (items_from 0) (shares tss k i))"
    and "1 < length tss" "writable_file n tss" "length (part_bytes division tss k i) \<le> limit"
  shows "\<exists>g. Mfile_write_to_midi h' d (Some (new_stream limit)) = Inr g \<and> fdata g = part_bytes division tss k i"
proof -
  have ne: "tss \<noteq> []" using assms(2) by auto
  have sub: "set (shares tss k i) \<subseteq> set tss"
    using alone_items_set [OF assms(2)] mixed_items_set [OF ne] by (simp add: shares_def)
  have "list_all (list_all timed_ok) (shares tss k i)" "list_all track_rewritable (shares tss k i)"
    using assms(3) sub by (auto simp: list_all_iff track_fits_def writable_file_def)
  from write_dest [OF d this assms(4) [unfolded part_bytes_def]] show ?thesis by (simp add: part_bytes_def)
qed


end
