(* ===== verification/Utils.thy ===== *)
theory Utils
  imports Prelude
begin

text \<open>
  \<open>server/utils.c\<close>: cutting a command line into words, with the array of words as the code lays it
  out (its size is the number of separators plus one, its elements start uninitialised). The lemmas
  compare it with splitting the line at every separator.
\<close>

section \<open>The console\<close>

text \<open>
  What the program prints: a format string with its integer and string arguments, on one of the
  two streams. The line feed that ends a message is left out.
\<close>

datatype console =
    Stdout string "int list" "string list"
  | Stderr string "int list" "string list"

definition puts :: "string \<Rightarrow> console" where
  "puts s = Stdout s [] []"

definition parser_error :: "string \<Rightarrow> console" where
  "parser_error msg = Stderr ''Parser error: %s'' [] [msg]"

definition sys_error :: "string \<Rightarrow> console" where
  "sys_error msg = Stderr ''System error: %s'' [] [msg]"

definition writer_error :: "string \<Rightarrow> console" where
  "writer_error msg = Stderr ''Writer error: %s'' [] [msg]"

definition sys_warning :: "string \<Rightarrow> console" where
  "sys_warning msg = Stderr ''Warning: %s'' [] [msg]"

section \<open>Words of a line\<close>

definition max_c :: "int \<Rightarrow> int \<Rightarrow> int" where
  "max_c a b = (if a > b then a else b)"

fun count_char_loop :: "string \<Rightarrow> char \<Rightarrow> nat \<Rightarrow> nat" where
  "count_char_loop [] c found = found"
| "count_char_loop (x # xs) c found = count_char_loop xs c (if x = c then found + 1 else found)"

definition count_char :: "string \<Rightarrow> char \<Rightarrow> nat" where
  "count_char str c = count_char_loop str c 0"

text \<open>
  One call of \<open>strtok\<close> on what is left of the string: separators are skipped, the token ends at the
  next separator, which is overwritten; \<open>None\<close> when nothing but separators is left.
\<close>

definition strtok_next :: "char \<Rightarrow> string \<Rightarrow> (string \<times> string) option" where
  "strtok_next c s = (let t = dropWhile (\<lambda>x. x = c) s in
     if t = [] then None else Some (takeWhile (\<lambda>x. x \<noteq> c) t, tl (dropWhile (\<lambda>x. x \<noteq> c) t)))"

text \<open>An element of the array \<open>args\<close>: never written, a null pointer, or a word.\<close>

datatype slot = Unset | Null_Ptr | Word string

definition store_slot :: "slot list \<Rightarrow> nat \<Rightarrow> slot \<Rightarrow> slot list res" where
  "store_slot args i v = (if i < length args then Inr (args[i := v]) else Inl Out_Of_Bounds)"

lemma strtok_next_shorter: "strtok_next c s = Some (t, r) \<Longrightarrow> length r < length s"
proof -
  assume a: "strtok_next c s = Some (t, r)"
  let ?d = "dropWhile (\<lambda>x. x = c) s"
  have ne: "?d \<noteq> []" and r: "r = tl (dropWhile (\<lambda>x. x \<noteq> c) ?d)"
    using a by (auto simp: strtok_next_def Let_def split: if_splits)
  have le: "length (dropWhile (\<lambda>x. x \<noteq> c) ?d) \<le> length ?d" "length ?d \<le> length s"
    by (rule length_dropWhile_le)+
  have "0 < length ?d" using ne by (simp only: length_greater_0_conv not_False_eq_True)
  moreover have "length r = length (dropWhile (\<lambda>x. x \<noteq> c) ?d) - 1" unfolding r by (rule length_tl)
  ultimately show ?thesis using le by linarith
qed

function parse_loop :: "slot list \<Rightarrow> nat \<Rightarrow> string \<Rightarrow> slot list res" where
  "parse_loop args i rest =
     (case strtok_next CHR '' '' rest of
        None \<Rightarrow> Inr args
      | Some (token, rest') \<Rightarrow> andThen (store_slot args i (Word token)) (\<lambda>args'. parse_loop args' (i + 1) rest'))"
  by pat_completeness auto
termination
  by (relation "measure (\<lambda>(a, i, r). length r)") (auto dest: strtok_next_shorter)

declare parse_loop.simps [simp del]

text \<open>\<open>mem\<close> tells whether \<open>malloc\<close> succeeds.\<close>

definition parse_line :: "bool \<Rightarrow> string \<Rightarrow> (nat \<times> slot list) res" where
  "parse_line mem line =
     (let n = count_char line CHR '' '' + 1 in
      if \<not> mem then Inl (Exit 1 ''malloc'')
      else andThen (case strtok_next CHR '' '' line of
             None \<Rightarrow> store_slot (replicate n Unset) 0 Null_Ptr
           | Some (token, rest) \<Rightarrow>
               andThen (store_slot (replicate n Unset) 0 (Word token)) (\<lambda>args. parse_loop args 1 rest))
           (\<lambda>args. Inr (n, args)))"

section \<open>Comparison with splitting at every separator\<close>

fun split_on :: "char \<Rightarrow> string \<Rightarrow> string list" where
  "split_on c [] = [[]]"
| "split_on c (x # xs) =
     (if x = c then [] # split_on c xs
      else case split_on c xs of [] \<Rightarrow> [[x]] | w # ws \<Rightarrow> (x # w) # ws)"

definition words_of :: "string \<Rightarrow> string list" where
  "words_of line = filter (\<lambda>w. w \<noteq> []) (split_on CHR '' '' line)"

lemma count_char_loop_eq: "count_char_loop s c n = n + length (filter (\<lambda>x. x = c) s)"
  by (induction s arbitrary: n) simp_all

lemma split_on_nonempty [simp]: "split_on c s \<noteq> []"
  by (cases s) (auto split: list.splits)

lemma length_split_on: "length (split_on c s) = Suc (length (filter (\<lambda>x. x = c) s))"
proof (induction s)
  case Nil
  then show ?case by simp
next
  case (Cons x xs)
  then show ?case by (cases "split_on c xs") auto
qed

lemma split_on_first:
  "split_on c s = takeWhile (\<lambda>x. x \<noteq> c) s #
     (case dropWhile (\<lambda>x. x \<noteq> c) s of [] \<Rightarrow> [] | _ # r \<Rightarrow> split_on c r)"
  by (induction s) (auto split: list.splits)

lemma split_on_tl:
  "filter (\<lambda>w. w \<noteq> []) (case d of [] \<Rightarrow> [] | _ # r \<Rightarrow> split_on c r) = filter (\<lambda>w. w \<noteq> []) (split_on c (tl d))"
  by (cases d) simp_all

lemma words_strtok:
  "words_of s = (case strtok_next CHR '' '' s of None \<Rightarrow> [] | Some (t, r) \<Rightarrow> t # words_of r)"
proof (induction s)
  case Nil
  then show ?case by (simp add: words_of_def strtok_next_def)
next
  case (Cons x xs)
  show ?case
  proof (cases "x = CHR '' ''")
    case True
    then have "words_of (x # xs) = words_of xs" "strtok_next CHR '' '' (x # xs) = strtok_next CHR '' '' xs"
      by (simp_all add: words_of_def strtok_next_def)
    then show ?thesis using Cons.IH by simp
  next
    case False
    let ?d = "dropWhile (\<lambda>y. y \<noteq> CHR '' '') xs"
    have "words_of (x # xs) = (x # takeWhile (\<lambda>y. y \<noteq> CHR '' '') xs) # words_of (tl ?d)"
      unfolding words_of_def split_on_first [of "CHR '' ''" "x # xs"] using False
      by (simp add: split_on_tl)
    then show ?thesis using False by (simp add: strtok_next_def)
  qed
qed

lemma words_fit: "length (words_of line) \<le> count_char line CHR '' '' + 1"
proof -
  have "length (words_of line) \<le> length (split_on CHR '' '' line)"
    unfolding words_of_def by (rule length_filter_le)
  then show ?thesis by (simp add: length_split_on count_char_def count_char_loop_eq)
qed

lemma parse_loop_ok:
  assumes "i + length (words_of rest) \<le> length args"
  shows "parse_loop args i rest =
    Inr (take i args @ map Word (words_of rest) @ drop (i + length (words_of rest)) args)"
  using assms
proof (induction args i rest rule: parse_loop.induct)
  case (1 args i rest)
  show ?case
  proof (cases "strtok_next CHR '' '' rest")
    case None
    then show ?thesis using words_strtok [of rest] by (subst parse_loop.simps) simp
  next
    case (Some tr)
    obtain t r where tr: "tr = (t, r)" by (cases tr)
    have w: "words_of rest = t # words_of r" using words_strtok [of rest] Some tr by simp
    have i: "i < length args" using "1.prems" w by simp
    have "store_slot args i (Word t) = Inr (args[i := Word t])" using i by (simp add: store_slot_def)
    moreover from this have "parse_loop (args[i := Word t]) (i + 1) r =
        Inr (take (i + 1) (args[i := Word t]) @ map Word (words_of r)
             @ drop (i + 1 + length (words_of r)) (args[i := Word t]))"
      using "1.IH" [OF Some] tr "1.prems" w by simp
    ultimately show ?thesis using Some tr w i
      by (subst parse_loop.simps) (simp add: take_Suc_conv_app_nth)
  qed
qed

text \<open>
  The array never overflows; it starts with the words of the line, and what follows them was
  never written. A line without a word gives a null pointer as its first word.
\<close>

lemma parse_line_ok:
  "parse_line True line = Inr (count_char line CHR '' '' + 1,
     (if words_of line = [] then Null_Ptr # replicate (count_char line CHR '' '') Unset
      else map Word (words_of line) @ replicate (count_char line CHR '' '' + 1 - length (words_of line)) Unset))"
proof -
  let ?n = "count_char line CHR '' ''"
  show ?thesis
  proof (cases "strtok_next CHR '' '' line")
    case None
    then have "words_of line = []" using words_strtok [of line] by simp
    then show ?thesis using None by (simp add: parse_line_def store_slot_def)
  next
    case (Some tr)
    obtain t r where tr: "tr = (t, r)" by (cases tr)
    have w: "words_of line = t # words_of r" using words_strtok [of line] Some tr by simp
    have "length (words_of r) \<le> ?n" using words_fit [of line] w by simp
    then show ?thesis using Some tr w parse_loop_ok [of 1 r "Word t # replicate ?n Unset"]
      by (simp add: parse_line_def store_slot_def Suc_diff_le)
  qed
qed

section \<open>Decimal numbers\<close>

text \<open>\<open>%d\<close> of \<open>printf\<close>, and \<open>atoi\<close> on a string of digits (its value before it is cut to an \<open>int\<close>).\<close>

definition digit :: "nat \<Rightarrow> char" where
  "digit n = char_of (48 + n)"

fun dec_nat :: "nat \<Rightarrow> string" where
  "dec_nat n = (if n < 10 then [digit n] else dec_nat (n div 10) @ [digit (n mod 10)])"

declare dec_nat.simps [simp del]

definition dec :: "int \<Rightarrow> string" where
  "dec i = (if i < 0 then CHR ''-'' # dec_nat (nat (- i)) else dec_nat (nat i))"

definition isdigit :: "char \<Rightarrow> bool" where
  "isdigit c \<longleftrightarrow> 48 \<le> (of_char c :: nat) \<and> (of_char c :: nat) \<le> 57"

fun digits_val :: "nat \<Rightarrow> string \<Rightarrow> nat" where
  "digits_val n [] = n"
| "digits_val n (c # cs) = (if isdigit c then digits_val (10 * n + (of_char c - 48)) cs else n)"

lemma of_char_digit: "n < 10 \<Longrightarrow> (of_char (digit n) :: nat) = 48 + n"
  by (simp add: digit_def)

lemma isdigit_digit: "n < 10 \<Longrightarrow> isdigit (digit n)"
  by (simp add: isdigit_def of_char_digit)

lemma dec_nat_digits: "list_all isdigit (dec_nat n)"
proof (induction n rule: dec_nat.induct)
  case (1 n)
  then show ?case by (subst dec_nat.simps) (simp add: isdigit_digit)
qed

lemma digits_val_append:
  "list_all isdigit xs \<Longrightarrow> digits_val n (xs @ ys) = digits_val (digits_val n xs) ys"
  by (induction xs arbitrary: n) simp_all

lemma digits_val_dec_nat: "digits_val 0 (dec_nat n) = n"
proof (induction n rule: dec_nat.induct)
  case (1 n)
  then show ?case
    by (subst dec_nat.simps)
       (auto simp: digits_val_append dec_nat_digits isdigit_digit of_char_digit)
qed

lemma length_dec_nat:
  "length (dec_nat n) \<le> k \<longleftrightarrow> n < 10 ^ k \<and> 0 < k"
proof (induction k arbitrary: n)
  case 0
  then show ?case by (subst dec_nat.simps) simp
next
  case (Suc k)
  show ?case
  proof (cases "n < 10")
    case True
    have "n < 10 ^ Suc k" using True by (simp add: order_less_le_trans [of n 10])
    then show ?thesis using True by (subst dec_nat.simps) simp
  next
    case False
    have "n < 10 ^ Suc k \<longleftrightarrow> n div 10 < 10 ^ k" by (simp add: div_less_iff_less_mult mult.commute)
    then show ?thesis using False Suc.IH [of "n div 10"]
      by (subst dec_nat.simps) (cases k; auto)
  qed
qed

end
