(* ===== verification/Net.thy ===== *)
theory Net
  imports Wire
begin

text \<open>
  The loops that move a whole buffer through a socket: \<open>sendall\<close> of \<open>server/server_thread.c\<close> and
  \<open>recvall\<close> of \<open>client/socket_client.c\<close>. The socket is a parameter: a state \<open>'s\<close> and the calls
  \<open>send\<close> and \<open>recv\<close> on it, with \<open>None\<close> for the result \<open>-1\<close>.
\<close>

section \<open>Sending\<close>

type_synonym 's send_op = "byte list \<Rightarrow> 's \<Rightarrow> nat option \<times> 's"
type_synonym 's recv_op = "nat \<Rightarrow> 's \<Rightarrow> byte list option \<times> 's"

text \<open>
  \<open>n\<close> is the variable of that name: \<open>None\<close> while it is uninitialised, \<open>Some None\<close> when it is \<open>-1\<close>.
  The loop need not end, so it is a partial function; \<open>None\<close> is the run that does not.
\<close>

partial_function (option) sendall_loop ::
  "'s send_op \<Rightarrow> byte list \<Rightarrow> int \<Rightarrow> int \<Rightarrow> nat option option \<Rightarrow> 's \<Rightarrow> (int \<times> nat option option \<times> 's) option" where
  "sendall_loop send buf len tot n s =
     (if tot < len then
        (case send (take (nat (len - tot)) (drop (nat tot) buf)) s of
           (None, s1) \<Rightarrow> Some (tot, Some None, s1)
         | (Some k, s1) \<Rightarrow> sendall_loop send buf len (tot + int k) (Some (Some k)) s1)
      else Some (tot, n, s))"

text \<open>
  The result: the number of bytes sent, and 0 or \<open>-1\<close>; for an empty buffer the test of \<open>n\<close> reads an
  uninitialised variable.
\<close>

definition sendall :: "'s send_op \<Rightarrow> byte list \<Rightarrow> int \<Rightarrow> 's \<Rightarrow> (int \<times> int \<times> 's) res" where
  "sendall send buf len s =
     (case sendall_loop send buf len 0 None s of
        None \<Rightarrow> Inl Diverges
      | Some (tot, None, s1) \<Rightarrow> Inl Uninitialised
      | Some (tot, Some None, s1) \<Rightarrow> Inr (tot, -1, s1)
      | Some (tot, Some (Some k), s1) \<Rightarrow> Inr (tot, 0, s1))"

text \<open>
  What \<open>send\<close> is documented to do: it takes a nonempty beginning of the buffer, or fails;
  \<open>sent\<close> is what the socket has taken so far.
\<close>

definition sends_bytes :: "'s send_op \<Rightarrow> ('s \<Rightarrow> byte list) \<Rightarrow> bool" where
  "sends_bytes send sent \<longleftrightarrow> (\<forall>b s. case send b s of
      (None, s') \<Rightarrow> sent s' = sent s
    | (Some k, s') \<Rightarrow> k \<le> length b \<and> (b \<noteq> [] \<longrightarrow> 0 < k) \<and> sent s' = sent s @ take k b)"

lemma sends_bytes_Some:
  "sends_bytes send sent \<Longrightarrow> send b s = (Some k, s') \<Longrightarrow>
     k \<le> length b \<and> (b \<noteq> [] \<longrightarrow> 0 < k) \<and> sent s' = sent s @ take k b"
  by (auto simp: sends_bytes_def dest!: spec [of _ b] spec [of _ s])

lemma sends_bytes_None: "sends_bytes send sent \<Longrightarrow> send b s = (None, s') \<Longrightarrow> sent s' = sent s"
  by (auto simp: sends_bytes_def dest!: spec [of _ b] spec [of _ s])

lemma sendall_loop_ok:
  assumes "sends_bytes send sent" "t \<le> length buf"
  shows "\<exists>t' n' s'. sendall_loop send buf (int (length buf)) (int t) n s = Some (int t', n', s')
    \<and> t \<le> t' \<and> t' \<le> length buf \<and> sent s' = sent s @ take (t' - t) (drop t buf)
    \<and> (if t = length buf then n' = n else n' \<noteq> None \<and> (n' \<noteq> Some None \<longrightarrow> t' = length buf))"
  using assms(2)
proof (induction "length buf - t" arbitrary: t n s rule: less_induct)
  case less
  show ?case
  proof (cases "t = length buf")
    case True
    then show ?thesis by (subst sendall_loop.simps) auto
  next
    case False
    then have lt: "t < length buf" using less.prems by simp
    let ?b = "drop t buf"
    have req: "take (nat (int (length buf) - int t)) (drop (nat (int t)) buf) = ?b" by simp
    obtain r s1 where st: "send ?b s = (r, s1)" by (cases "send ?b s")
    show ?thesis
    proof (cases r)
      case None
      then show ?thesis using st lt sends_bytes_None [OF assms(1), of ?b s s1]
        by (subst sendall_loop.simps) (auto simp: req)
    next
      case (Some k)
      note k = sends_bytes_Some [OF assms(1) st [unfolded Some]]
      have ne: "?b \<noteq> []" using lt by simp
      have step: "length buf - (t + k) < length buf - t" and le: "t + k \<le> length buf"
        using k ne lt by auto
      from less.hyps [OF step le, of "Some (Some k)" s1] obtain t' n' s' where
        R: "sendall_loop send buf (int (length buf)) (int (t + k)) (Some (Some k)) s1 = Some (int t', n', s')"
        "t + k \<le> t'" "t' \<le> length buf" "sent s' = sent s1 @ take (t' - (t + k)) (drop (t + k) buf)"
        "if t + k = length buf then n' = Some (Some k) else n' \<noteq> None \<and> (n' \<noteq> Some None \<longrightarrow> t' = length buf)"
        by blast
      have run: "sendall_loop send buf (int (length buf)) (int t) n s = Some (int t', n', s')"
        using st Some lt R(1) by (subst sendall_loop.simps) (simp add: req)
      have "take k ?b @ take (t' - (t + k)) (drop (t + k) buf) = take (t' - t) ?b"
      proof -
        have "t' - t = k + (t' - (t + k))" using R(2) by simp
        then show ?thesis by (simp add: take_add add.commute)
      qed
      then have "sent s' = sent s @ take (t' - t) ?b" using R(4) k by simp
      then show ?thesis using run R(2,3,5) lt by (intro exI [of _ t'] exI [of _ n'] exI [of _ s']) (auto split: if_splits)
    qed
  qed
qed

text \<open>\<open>sendall\<close> of a nonempty buffer ends, has sent a beginning of it, and all of it when it returns 0.\<close>

lemma sendall_ok:
  assumes "sends_bytes send sent" "buf \<noteq> []"
  shows "\<exists>t rc s'. sendall send buf (int (length buf)) s = Inr (int t, rc, s') \<and> t \<le> length buf
    \<and> sent s' = sent s @ take t buf \<and> (rc = 0 \<and> t = length buf \<or> rc = -1)"
proof -
  from sendall_loop_ok [OF assms(1), of 0 buf None s] obtain t n' s' where
    "sendall_loop send buf (int (length buf)) 0 None s = Some (int t, n', s')" "t \<le> length buf"
    "sent s' = sent s @ take t buf" "n' \<noteq> None" "n' \<noteq> Some None \<longrightarrow> t = length buf"
    using assms(2) by auto
  then show ?thesis by (cases n'; cases "the n'") (auto simp: sendall_def)
qed

lemma sendall_empty: "sendall send [] 0 s = Inl Uninitialised"
  by (simp add: sendall_def sendall_loop.simps)

lemma sendall_loop_unfailing:
  assumes "\<And>b s. fst (send b s) \<noteq> None" "n \<noteq> Some None"
    and run: "sendall_loop send buf len tot n s = Some (tot', n', s')"
  shows "n' \<noteq> Some None"
proof -
  have "send = send \<longrightarrow> n \<noteq> Some None \<longrightarrow> fst (snd (tot', n', s')) \<noteq> Some None"
  proof (rule sendall_loop.raw_induct [where P = "\<lambda>sd buf len tot n s y. sd = send \<longrightarrow> n \<noteq> Some None \<longrightarrow> fst (snd y) \<noteq> Some None",
      OF _ run], goal_cases)
    case (1 f sd buf len tot n s y)
    show ?case
    proof (intro impI)
      assume a: "sd = send" "n \<noteq> Some None"
      let ?b = "take (nat (len - tot)) (drop (nat tot) buf)"
      obtain k s1 where k: "send ?b s = (Some k, s1)"
        using assms(1) [of ?b s] by (cases "send ?b s") auto
      show "fst (snd y) \<noteq> Some None"
      proof (cases "tot < len")
        case True
        from 1(2) True k a(1) have "f sd buf len (tot + int k) (Some (Some k)) s1 = Some y" by simp
        from 1(1) [OF this] a(1) show ?thesis by simp
      next
        case False
        from 1(2) False a(2) show ?thesis by auto
      qed
    qed
  qed
  then show ?thesis using assms(2) by simp
qed

lemma sendall_unfailing:
  assumes "sends_bytes send sent" "buf \<noteq> []" "\<And>b s. fst (send b s) \<noteq> None"
  shows "\<exists>s'. sendall send buf (int (length buf)) s = Inr (int (length buf), 0, s') \<and> sent s' = sent s @ buf"
proof -
  from sendall_loop_ok [OF assms(1), of 0 buf None s] obtain t n' s' where
    R: "sendall_loop send buf (int (length buf)) 0 None s = Some (int t, n', s')"
    "sent s' = sent s @ take t buf" "n' \<noteq> None" "n' \<noteq> Some None \<longrightarrow> t = length buf"
    using assms(2) by auto
  moreover have "n' \<noteq> Some None" by (rule sendall_loop_unfailing [OF assms(3) _ R(1)]) auto
  ultimately show ?thesis by (cases n'; cases "the n'") (auto simp: sendall_def)
qed

section \<open>Receiving\<close>

text \<open>
  \<open>recvall\<close> counts the bytes still to come in an \<open>int\<close> and the total against an \<open>unsigned\<close>;
  \<open>got\<close> is what has been stored in the buffer.
\<close>

partial_function (option) recvall_loop ::
  "'s recv_op \<Rightarrow> nat \<Rightarrow> int \<Rightarrow> byte list \<Rightarrow> byte list option option \<Rightarrow> 's
     \<Rightarrow> (byte list \<times> byte list option option \<times> 's) option" where
  "recvall_loop recv len bytesleft got n s =
     (if length got < len then
        (case recv (nat (bytesleft mod 2 ^ 64)) s of
           (None, s1) \<Rightarrow> Some (got, Some None, s1)
         | (Some bs, s1) \<Rightarrow> recvall_loop recv len (bytesleft - int (length bs)) (got @ bs) (Some (Some bs)) s1)
      else Some (got, n, s))"

definition recvall :: "'s recv_op \<Rightarrow> nat \<Rightarrow> 's \<Rightarrow> (byte list \<times> int \<times> 's) res" where
  "recvall recv len s =
     (case recvall_loop recv len (s32 (int len)) [] None s of
        None \<Rightarrow> Inl Diverges
      | Some (got, None, s1) \<Rightarrow> Inl Uninitialised
      | Some (got, Some None, s1) \<Rightarrow> Inr (got, -1, s1)
      | Some (got, Some (Some bs), s1) \<Rightarrow> Inr (got, 0, s1))"

text \<open>
  What \<open>recv\<close> is documented to do: it delivers a beginning of what is still to come, at most as
  much as asked for and not nothing while there is something; at the end it delivers nothing.
\<close>

definition receives_bytes :: "'s recv_op \<Rightarrow> ('s \<Rightarrow> byte list) \<Rightarrow> bool" where
  "receives_bytes recv pend \<longleftrightarrow> (\<forall>n s. case recv n s of
      (None, s') \<Rightarrow> True
    | (Some bs, s') \<Rightarrow> length bs \<le> n \<and> (0 < n \<and> pend s \<noteq> [] \<longrightarrow> bs \<noteq> []) \<and> pend s = bs @ pend s')"

lemma receives_bytes_Some:
  "receives_bytes recv pend \<Longrightarrow> recv n s = (Some bs, s') \<Longrightarrow>
     length bs \<le> n \<and> (0 < n \<and> pend s \<noteq> [] \<longrightarrow> bs \<noteq> []) \<and> pend s = bs @ pend s'"
  by (auto simp: receives_bytes_def dest!: spec [of _ n] spec [of _ s])

lemma recvall_loop_ok:
  assumes R: "receives_bytes recv pend" and "\<And>n s. fst (recv n s) \<noteq> None"
    and "length got + length bs = len" "pend s = bs @ rest" "len < 2 ^ 31"
  shows "\<exists>n' s'. recvall_loop recv len (int (length bs)) got n s = Some (got @ bs, n', s') \<and> pend s' = rest
    \<and> (if bs = [] then n' = n else \<exists>x. n' = Some (Some x))"
  using assms(3,4)
proof (induction "length bs" arbitrary: bs got n s rule: less_induct)
  case less
  show ?case
  proof (cases "bs = []")
    case True
    then show ?thesis using less.prems by (subst recvall_loop.simps) simp
  next
    case False
    have small: "nat (int (length bs) mod 2 ^ 64) = length bs"
      using less.prems(1) assms(5) by (simp add: mod_pos_pos_trivial)
    obtain x s1 where x: "recv (length bs) s = (Some x, s1)"
      using assms(2) [of "length bs" s] by (cases "recv (length bs) s") auto
    note rb = receives_bytes_Some [OF R x]
    have "pend s \<noteq> []" using less.prems(2) False by simp
    then have ne: "x \<noteq> []" and le: "length x \<le> length bs" and eq: "bs @ rest = x @ pend s1"
      using rb False less.prems(2) by (blast, blast, metis)
    define y where "y = drop (length x) bs"
    have y: "bs = x @ y" "pend s1 = y @ rest"
      using le eq append_take_drop_id [of "length x" bs]
      by (auto simp: y_def append_eq_append_conv_if simp del: append_take_drop_id split: if_splits)
    have "length y < length bs" "length (got @ x) + length y = len" using y(1) ne less.prems(1) by simp_all
    from less.hyps [OF this y(2), of "Some (Some x)"] obtain n' s' where
      "recvall_loop recv len (int (length y)) (got @ x) (Some (Some x)) s1 = Some ((got @ x) @ y, n', s')"
      "pend s' = rest" "if y = [] then n' = Some (Some x) else \<exists>x. n' = Some (Some x)" by blast
    moreover have "length got < len" using less.prems(1) False by (metis length_greater_0_conv less_add_same_cancel1)
    moreover have "int (length bs) - int (length x) = int (length y)" using y(1) by simp
    ultimately have "recvall_loop recv len (int (length bs)) got n s = Some (got @ bs, n', s')"
      using x small y(1) [symmetric] by (subst recvall_loop.simps) simp
    moreover have "\<exists>x. n' = Some (Some x)" using \<open>if y = [] then _ else _\<close> by (auto split: if_splits)
    ultimately show ?thesis using False \<open>pend s' = rest\<close> by simp
  qed
qed

lemma recvall_ok:
  assumes "receives_bytes recv pend" "\<And>n s. fst (recv n s) \<noteq> None"
    and "pend s = bs @ rest" "bs \<noteq> []" "length bs < 2 ^ 31"
  shows "\<exists>s'. recvall recv (length bs) s = Inr (bs, 0, s') \<and> pend s' = rest"
proof -
  have "s32 (int (length bs)) = int (length bs)" using assms(5) by (intro s32_id) simp_all
  then show ?thesis
    using recvall_loop_ok [OF assms(1,2), of "[]" bs "length bs" s rest None] assms(3-5)
    by (auto simp: recvall_def)
qed


text \<open>
  When the peer has closed the connection too early, \<open>recv\<close> returns 0 for ever and the loop does
  not end.
\<close>

lemma recvall_loop_closed:
  assumes "receives_bytes recv pend" "\<And>n s. pend s = [] \<Longrightarrow> fst (recv n s) \<noteq> None"
  shows "recvall_loop recv len left' got n s = Some y \<Longrightarrow> length got < len \<Longrightarrow> pend s \<noteq> []"
proof -
  assume run: "recvall_loop recv len left' got n s = Some y" and lt: "length got < len"
  have "recv = recv \<longrightarrow> len = len \<longrightarrow> length got < len \<longrightarrow> pend s \<noteq> []"
  proof (rule recvall_loop.raw_induct [where P = "\<lambda>rv l left' g n s y. rv = recv \<longrightarrow> l = len \<longrightarrow> length g < len \<longrightarrow> pend s \<noteq> []",
      OF _ run], goal_cases)
    case (1 f rv l lf g n s y)
    show ?case
    proof (intro impI notI)
      assume a: "rv = recv" "l = len" "length g < len" "pend s = []"
      let ?n = "nat (lf mod 2 ^ 64)"
      obtain bs s1 where r: "recv ?n s = (Some bs, s1)"
        using assms(2) [OF a(4), of ?n] by (cases "recv ?n s") auto
      from receives_bytes_Some [OF assms(1) r] a(4) have b: "bs = []" "pend s1 = []" by auto
      from 1(2) r a b(1) have "f rv l lf g (Some (Some [])) s1 = Some y" by simp
      from 1(1) [OF this] a b(2) show False by simp
    qed
  qed
  then show ?thesis using lt by simp
qed

lemma recvall_closed:
  assumes "receives_bytes recv pend" "\<And>n s. pend s = [] \<Longrightarrow> fst (recv n s) \<noteq> None"
    and "pend s = []" "0 < len"
  shows "recvall recv len s = Inl Diverges"
proof (cases "recvall_loop recv len (s32 (int len)) [] None s")
  case None
  then show ?thesis by (simp add: recvall_def)
next
  case (Some y)
  from recvall_loop_closed [OF assms(1,2) Some] assms(3,4) show ?thesis by simp
qed

text \<open>What every call keeps, receiving a whole buffer keeps.\<close>

lemma recvall_loop_inv:
  assumes P: "\<And>n s. P s \<Longrightarrow> P (snd (recv n s))" and run: "recvall_loop recv len left' got n s = Some y" and "P s"
  shows "P (snd (snd y))"
proof -
  have "recv = recv \<longrightarrow> P s \<longrightarrow> P (snd (snd y))"
  proof (rule recvall_loop.raw_induct [where P = "\<lambda>rv l left' g n s y. rv = recv \<longrightarrow> P s \<longrightarrow> P (snd (snd y))",
      OF _ run], goal_cases)
    case (1 f rv l lf g n s y)
    show ?case
    proof (intro impI)
      assume a: "rv = recv" "P s"
      obtain r s1 where r: "recv (nat (lf mod 2 ^ 64)) s = (r, s1)" by (cases "recv (nat (lf mod 2 ^ 64)) s")
      have s1: "P s1" using P [OF a(2), of "nat (lf mod 2 ^ 64)"] r by simp
      show "P (snd (snd y))"
      proof (cases "length g < l \<and> r \<noteq> None")
        case True
        then obtain bs where "r = Some bs" by blast
        with 1(2) r True a(1) have "f rv l (lf - int (length bs)) (g @ bs) (Some (Some bs)) s1 = Some y" by simp
        from 1(1) [OF this] a(1) s1 show ?thesis by simp
      next
        case False
        with 1(2) r a s1 show ?thesis by (auto split: if_splits)
      qed
    qed
  qed
  then show ?thesis using assms(3) by simp
qed

lemma recvall_inv:
  assumes "\<And>n s. P s \<Longrightarrow> P (snd (recv n s))" "recvall recv len s = Inr (got, rc, s')" "P s"
  shows "P s'"
proof -
  obtain y where y: "recvall_loop recv len (s32 (int len)) [] None s = Some y"
    using assms(2) by (cases "recvall_loop recv len (s32 (int len)) [] None s") (simp_all add: recvall_def)
  moreover have "s' = snd (snd y)"
    using assms(2) y by (simp add: recvall_def split: prod.splits option.splits)
  moreover have "P (snd (snd y))" by (rule recvall_loop_inv [of P, OF assms(1) y assms(3)])
  ultimately show ?thesis by simp
qed

end
