(* ===== verification/Sys.thy ===== *)
theory Sys
  imports Utils Net
begin

text \<open>
  The world a process of the program talks to: the C library, the kernel, fluidsynth and readline.
  None of it is under \<open>src/\<close>, so it is a parameter: an environment answers each call, and its
  answer may depend on everything that was called and answered before. The process records
  the calls it makes and their answers.
\<close>

section \<open>Calls and answers\<close>

text \<open>
  \<open>Recv\<close> is \<open>recv\<close>, or \<open>read\<close> on a socket. \<open>Call f xs ss\<close> is the call of the library
  function \<open>f\<close> (or the use of a library variable) with the integers and pointers \<open>xs\<close> and the strings \<open>ss\<close> as arguments; pointers are numbers, 0 is
  the null pointer.
\<close>

datatype libcall =
    Print console
  | Perror string
  | Send int "byte list"
  | Recv int int
  | Call string "int list" "string list"

text \<open>\<open>bytes\<close>, \<open>str\<close> and \<open>stored\<close>: what the call leaves behind a pointer argument.\<close>

record answer =
  ret :: int
  bytes :: "byte list"
  str :: string
  stored :: int

type_synonym trace = "(libcall \<times> answer) list"
type_synonym env = "trace \<Rightarrow> libcall \<Rightarrow> answer"

record world =
  trace :: trace

definition ask :: "env \<Rightarrow> libcall \<Rightarrow> 'a world_scheme \<Rightarrow> answer \<times> 'a world_scheme" where
  "ask E c w = (let a = E (trace w) c in (a, w\<lparr>trace := trace w @ [(c, a)]\<rparr>))"

text \<open>A call whose result is an \<open>int\<close> or a pointer, and one whose result is not used.\<close>

definition get :: "env \<Rightarrow> string \<Rightarrow> int list \<Rightarrow> string list \<Rightarrow> 'a world_scheme \<Rightarrow> int \<times> 'a world_scheme" where
  "get E f xs ss w = apfst ret (ask E (Call f xs ss) w)"

definition tell :: "env \<Rightarrow> libcall \<Rightarrow> 'a world_scheme \<Rightarrow> 'a world_scheme" where
  "tell E c w = snd (ask E c w)"

abbreviation run :: "env \<Rightarrow> string \<Rightarrow> int list \<Rightarrow> string list \<Rightarrow> 'a world_scheme \<Rightarrow> 'a world_scheme" where
  "run E f xs ss \<equiv> tell E (Call f xs ss)"

named_theorems sys "what a call does to the state of the process"

text \<open>
  Every call comes down to \<open>tell\<close>. What is observed of a process is a function of its trace that
  goes by the last call, so that proofs never look at the answers they do not need.
\<close>

lemma get_eq [sys]: "get E f xs ss w = (ret (E (trace w) (Call f xs ss)), run E f xs ss w)"
  by (simp add: get_def tell_def ask_def Let_def)

lemma ask_eq [sys]: "ask E c w = (E (trace w) c, tell E c w)"
  by (simp add: tell_def ask_def Let_def)

lemma trace_tell: "trace (tell E c w) = trace w @ [(c, E (trace w) c)]"
  by (simp add: tell_def ask_def Let_def)

lemma more_tell [simp]: "world.more (tell E c w) = world.more w"
  by (simp add: tell_def ask_def Let_def)

text \<open>Whether the process goes on or has called \<open>exit\<close>.\<close>

datatype flow = Going | Ended int

section \<open>Printing while a line is edited\<close>

text \<open>
  \<open>my_rl_printf\<close>: while readline reads a line, the line is put away, the message printed and the line
  brought back. \<open>RL_ISSTATE\<close> stands for the test \<open>rl_readline_state & RL_STATE_READCMD\<close>;
  assigning to a variable of readline is a call with an equals sign.
\<close>

definition my_rl_printf :: "env \<Rightarrow> console \<Rightarrow> 'a world_scheme \<Rightarrow> 'a world_scheme" where
  "my_rl_printf E msg w =
     (let (need_hack, w1) = get E ''RL_ISSTATE'' [] [''RL_STATE_READCMD''] w in
      if 0 < need_hack then
        (let (saved_point, w2) = get E ''rl_point'' [] [] w1;
             (rl_end, w3) = get E ''rl_end'' [] [] w2;
             (saved_line, w4) = ask E (Call ''rl_copy_text'' [0, rl_end] []) w3;
             w5 = run E ''rl_save_prompt'' [] [] w4;
             w6 = run E ''rl_replace_line'' [0] [''''] w5;
             w7 = run E ''rl_redisplay'' [] [] w6;
             w8 = tell E (Print msg) w7;
             w9 = run E ''rl_restore_prompt'' [] [] w8;
             w10 = run E ''rl_replace_line'' [0] [str saved_line] w9;
             w11 = run E ''rl_point ='' [saved_point] [] w10;
             w12 = run E ''rl_redisplay'' [] [] w11
         in run E ''free'' [ret saved_line] [] w12)
      else tell E (Print msg) w1)"

definition printed :: "'a world_scheme \<Rightarrow> console list" where
  "printed w = concat (map (\<lambda>(c, a). case c of Print m \<Rightarrow> [m] | _ \<Rightarrow> []) (trace w))"

lemma printed_tell [simp]:
  "printed (tell E c w) = printed w @ (case c of Print m \<Rightarrow> [m] | _ \<Rightarrow> [])"
  by (simp add: printed_def trace_tell)

text \<open>Whatever the state of readline, exactly the message is printed, once.\<close>

lemma printed_my_rl_printf: "printed (my_rl_printf E msg w) = printed w @ [msg]"
  by (simp add: my_rl_printf_def Let_def sys split_beta)

text \<open>
  The line being edited, as readline documents the functions used here: the text, the position of
  the cursor and the prompt that is put away. \<open>edit\<close> is what the calls of a trace make of it.
\<close>

type_synonym edit = "string \<times> int \<times> nat"

fun edit_call :: "edit \<Rightarrow> libcall \<Rightarrow> edit" where
  "edit_call (l, p, n) (Call f xs ss) =
     (if f = ''rl_replace_line'' then (hd ss, min p (int (length (hd ss))), n)
      else if f = ''rl_point ='' then (l, hd xs, n)
      else if f = ''rl_save_prompt'' then (l, p, n + 1)
      else if f = ''rl_restore_prompt'' then (l, p, n - 1) else (l, p, n))"
| "edit_call e (Print v) = e"
| "edit_call e (Perror v) = e"
| "edit_call e (Send fd b) = e"
| "edit_call e (Recv fd n) = e"

definition edited :: "edit \<Rightarrow> trace \<Rightarrow> edit" where
  "edited e t = foldl edit_call e (map fst t)"

lemma edited_tell [simp]: "edited e (trace (tell E c w)) = edit_call (edited e (trace w)) c"
  by (simp add: edited_def trace_tell)

text \<open>Readline answers with the line it holds.\<close>

definition readline_answers :: "edit \<Rightarrow> env \<Rightarrow> bool" where
  "readline_answers e E \<longleftrightarrow> (\<forall>t. ret (E t (Call ''rl_point'' [] [])) = fst (snd (edited e t))
     \<and> ret (E t (Call ''rl_end'' [] [])) = int (length (fst (edited e t)))
     \<and> str (E t (Call ''rl_copy_text'' [0, int (length (fst (edited e t)))] [])) = fst (edited e t))"

text \<open>
  C25: Printing while a line is edited leaves the line as it was, cursor and prompt included.
\<close>

theorem my_rl_printf_keeps_line:
  assumes "readline_answers e E"
  shows "edited e (trace (my_rl_printf E msg w)) = edited e (trace w)"
proof -
  have a: "ret (E t (Call ''rl_point'' [] [])) = fst (snd (edited e t))"
    "ret (E t (Call ''rl_end'' [] [])) = int (length (fst (edited e t)))"
    "str (E t (Call ''rl_copy_text'' [0, int (length (fst (edited e t)))] [])) = fst (edited e t)" for t
    using assms by (simp_all add: readline_answers_def)
  obtain l p n where lpn: "edited e (trace w) = (l, p, n)" by (cases "edited e (trace w)")
  have c: "str (E (trace v) (Call ''rl_copy_text'' [0, int (length l)] [])) = l"
    if "edited e (trace v) = (l, p, n)" for v :: "'b world_scheme"
    using a(3) [of "trace v"] that by simp
  show ?thesis by (simp add: my_rl_printf_def Let_def sys split_beta a(1,2) lpn c)
qed

section \<open>Sockets\<close>

text \<open>\<open>send\<close> and \<open>recv\<close> on a descriptor, in the form the loops of theory \<open>Net\<close> use them.\<close>

definition send_on :: "env \<Rightarrow> int \<Rightarrow> 'a world_scheme send_op" where
  "send_on E fd b w = (let (a, w') = ask E (Send fd b) w in (if ret a = -1 then None else Some (nat (ret a)), w'))"

definition recv_on :: "env \<Rightarrow> int \<Rightarrow> 'a world_scheme recv_op" where
  "recv_on E fd n w = (let (a, w') = ask E (Recv fd (int n)) w in (if ret a = -1 then None else Some (bytes a), w'))"

text \<open>What went out on a descriptor: of each \<open>send\<close> the bytes its result says were taken.\<close>

definition sent_on :: "int \<Rightarrow> 'a world_scheme \<Rightarrow> byte list" where
  "sent_on fd w = concat (map (\<lambda>(c, a). case c of
      Send fd' b \<Rightarrow> if fd' = fd \<and> ret a \<noteq> -1 then take (nat (ret a)) b else [] | _ \<Rightarrow> []) (trace w))"

lemma sent_on_tell [simp]:
  "(\<And>b. c \<noteq> Send fd b) \<Longrightarrow> sent_on fd (tell E c w) = sent_on fd w"
  by (auto simp: sent_on_def trace_tell split: libcall.splits)

lemma sent_on_Send:
  "sent_on fd (tell E (Send fd b) w) = sent_on fd w @
     (if ret (E (trace w) (Send fd b)) = -1 then [] else take (nat (ret (E (trace w) (Send fd b)))) b)"
  by (simp add: sent_on_def trace_tell)

text \<open>
  The documented behaviour of \<open>send\<close> on a blocking socket: \<open>-1\<close>, or the number of bytes taken,
  which is not 0 unless there were none.
\<close>

definition send_ok :: "env \<Rightarrow> int \<Rightarrow> bool" where
  "send_ok E fd \<longleftrightarrow> (\<forall>t b. ret (E t (Send fd b)) = -1
      \<or> 0 \<le> ret (E t (Send fd b)) \<and> ret (E t (Send fd b)) \<le> int (length b) \<and> (b \<noteq> [] \<longrightarrow> ret (E t (Send fd b)) \<noteq> 0))"

lemma send_on_bytes:
  assumes "send_ok E fd"
  shows "sends_bytes (send_on E fd) (sent_on fd)"
  unfolding sends_bytes_def
proof (intro allI)
  fix b and w :: "'a world_scheme"
  have "ret (E (trace w) (Send fd b)) = -1 \<or> 0 \<le> ret (E (trace w) (Send fd b))
      \<and> ret (E (trace w) (Send fd b)) \<le> int (length b) \<and> (b \<noteq> [] \<longrightarrow> ret (E (trace w) (Send fd b)) \<noteq> 0)"
    using assms by (simp add: send_ok_def)
  then show "case send_on E fd b w of (None, w') \<Rightarrow> sent_on fd w' = sent_on fd w
    | (Some k, w') \<Rightarrow> k \<le> length b \<and> (b \<noteq> [] \<longrightarrow> 0 < k) \<and> sent_on fd w' = sent_on fd w @ take k b"
    by (auto simp: send_on_def sys sent_on_Send)
qed

end
