(* ===== verification/Player.thy ===== *)
theory Player
  imports Sys
begin

text \<open>
  \<open>server/midi_player.c\<close> and its copy \<open>client/midi_player.c\<close>: the four fluidsynth objects the
  program keeps in global variables. fluidsynth is the environment of theory \<open>Sys\<close>; what it
  documents about the life of its objects is the contract the lemmas use.
\<close>

section \<open>State and operations\<close>

record player = world +
  settings :: int
  synth :: int
  player :: int
  adriver :: int

text \<open>What the headers of fluidsynth fix.\<close>

record fluid_h =
  FLUIDSYNTH_VERSION :: string
  FLUID_PLAYER_READY :: int
  FLUID_PLAYER_PLAYING :: int
  FLUID_PLAYER_DONE :: int

definition MIDI_SOUNDFONT :: string where
  "MIDI_SOUNDFONT = ''../timbres_of_heaven.sf2''"

definition need_settings :: "env \<Rightarrow> 'a player_scheme \<Rightarrow> 'a player_scheme" where
  "need_settings E p = (if settings p = 0
     then (let (a, p') = get E ''new_fluid_settings'' [] [] p in p'\<lparr>settings := a\<rparr>) else p)"

definition need_synth :: "env \<Rightarrow> 'a player_scheme \<Rightarrow> 'a player_scheme" where
  "need_synth E p = (if synth p = 0
     then (let (a, p') = get E ''new_fluid_synth'' [settings p] [] p in p'\<lparr>synth := a\<rparr>) else p)"

definition renew_player :: "env \<Rightarrow> 'a player_scheme \<Rightarrow> 'a player_scheme" where
  "renew_player E p =
     (let p1 = (if player p \<noteq> 0 then run E ''delete_fluid_player'' [player p] [] p else p);
          (a, p2) = get E ''new_fluid_player'' [synth p1] [] p1
      in p2\<lparr>player := a\<rparr>)"

definition need_adriver :: "env \<Rightarrow> 'a player_scheme \<Rightarrow> 'a player_scheme" where
  "need_adriver E p = (if adriver p = 0
     then (let (a, p') = get E ''new_fluid_audio_driver'' [settings p, synth p] [] p in p'\<lparr>adriver := a\<rparr>) else p)"

definition player_setup :: "fluid_h \<Rightarrow> env \<Rightarrow> 'a player_scheme \<Rightarrow> 'a player_scheme" where
  "player_setup F E p =
     (let p1 = tell E (Print (puts (''fluid version: '' @ FLUIDSYNTH_VERSION F))) p;
          p2 = renew_player E (need_synth E (need_settings E p1));
          p3 = run E ''fluid_settings_setstr'' [settings p2] [''audio.driver'', ''pulseaudio''] p2;
          p4 = run E ''fluid_settings_setstr'' [settings p3] [''midi.driver'', ''alsa_seq''] p3;
          p5 = run E ''fluid_synth_sfload'' [synth p4, 1] [MIDI_SOUNDFONT] p4
      in need_adriver E p5)"

definition player_add_midi_file :: "env \<Rightarrow> string \<Rightarrow> 'a player_scheme \<Rightarrow> 'a player_scheme" where
  "player_add_midi_file E path p = run E ''fluid_player_add'' [player p] [path] p"

text \<open>The new player is created but not stored.\<close>

definition player_clear_midi_files :: "env \<Rightarrow> 'a player_scheme \<Rightarrow> 'a player_scheme" where
  "player_clear_midi_files E p =
     (if player p = 0 then p
      else let p1 = run E ''fluid_player_stop'' [player p] [] p;
               p2 = run E ''delete_fluid_player'' [player p1] [] p1
           in run E ''new_fluid_player'' [synth p2] [] p2)"

definition player_play :: "env \<Rightarrow> 'a player_scheme \<Rightarrow> 'a player_scheme" where
  "player_play E p = run E ''fluid_player_play'' [player p] [] p"

definition player_pause :: "env \<Rightarrow> 'a player_scheme \<Rightarrow> 'a player_scheme" where
  "player_pause E p = run E ''fluid_player_stop'' [player p] [] p"

definition player_get_total_ticks :: "env \<Rightarrow> 'a player_scheme \<Rightarrow> int \<times> 'a player_scheme" where
  "player_get_total_ticks E p = get E ''fluid_player_get_total_ticks'' [player p] [] p"

definition player_get_cur_tick :: "env \<Rightarrow> 'a player_scheme \<Rightarrow> int \<times> 'a player_scheme" where
  "player_get_cur_tick E p = get E ''fluid_player_get_current_tick'' [player p] [] p"

definition player_seek :: "env \<Rightarrow> int \<Rightarrow> 'a player_scheme \<Rightarrow> 'a player_scheme" where
  "player_seek E tick p = run E ''fluid_player_seek'' [player p, tick] [] p"

definition player_setloop :: "env \<Rightarrow> int \<Rightarrow> 'a player_scheme \<Rightarrow> 'a player_scheme" where
  "player_setloop E looping p = run E ''fluid_player_set_loop'' [player p, looping] [] p"

definition player_restart :: "env \<Rightarrow> 'a player_scheme \<Rightarrow> 'a player_scheme" where
  "player_restart E p = run E ''fluid_player_seek'' [player p, 0] [] p"

definition delete_unless_null :: "env \<Rightarrow> string \<Rightarrow> int \<Rightarrow> 'a player_scheme \<Rightarrow> 'a player_scheme" where
  "delete_unless_null E f a p = (if a \<noteq> 0 then run E f [a] [] p else p)"

definition player_cleanup :: "env \<Rightarrow> 'a player_scheme \<Rightarrow> 'a player_scheme" where
  "player_cleanup E p =
     (let p1 = delete_unless_null E ''delete_fluid_audio_driver'' (adriver p) p;
          p2 = delete_unless_null E ''delete_fluid_player'' (player p) p1;
          p3 = delete_unless_null E ''delete_fluid_synth'' (synth p) p2
      in delete_unless_null E ''delete_fluid_settings'' (settings p) p3)"

text \<open>The buffer is passed by its address.\<close>

definition player_add_midi_mem :: "env \<Rightarrow> int \<Rightarrow> int \<Rightarrow> 'a player_scheme \<Rightarrow> 'a player_scheme" where
  "player_add_midi_mem E buff len p = run E ''fluid_player_add_mem'' [player p, buff, len] [] p"

text \<open>A status that is none of the three falls off the end of the function.\<close>

definition player_get_status :: "build \<Rightarrow> fluid_h \<Rightarrow> env \<Rightarrow> 'a player_scheme \<Rightarrow> (int \<times> 'a player_scheme) res" where
  "player_get_status B F E p =
     (if player p = 0 then Inr (-1, p)
      else let (status, p1) = get E ''fluid_player_get_status'' [player p] [] p in
        if status = FLUID_PLAYER_DONE F then Inr (2, p1)
        else if status = FLUID_PLAYER_PLAYING F then Inr (1, p1)
        else if status = FLUID_PLAYER_READY F then Inr (0, p1)
        else fall_off B (status, p1))"

section \<open>The copy in the client\<close>

text \<open>
  \<open>client/midi_player.c\<close> repeats the file line by line, with a message of its own in front of playing. It is a
  program of its own, so its functions are definitions of their own.
\<close>

definition client_player_setup :: "fluid_h \<Rightarrow> env \<Rightarrow> 'a player_scheme \<Rightarrow> 'a player_scheme" where
  "client_player_setup F E p = player_setup F E p"

definition client_player_add_midi_file :: "env \<Rightarrow> string \<Rightarrow> 'a player_scheme \<Rightarrow> 'a player_scheme" where
  "client_player_add_midi_file E path p = run E ''fluid_player_add'' [player p] [path] p"

definition client_player_clear_midi_files :: "env \<Rightarrow> 'a player_scheme \<Rightarrow> 'a player_scheme" where
  "client_player_clear_midi_files E p =
     (if player p = 0 then p
      else run E ''new_fluid_player'' [synth p] []
             (run E ''delete_fluid_player'' [player p] [] (run E ''fluid_player_stop'' [player p] [] p)))"

definition client_player_play :: "env \<Rightarrow> 'a player_scheme \<Rightarrow> 'a player_scheme" where
  "client_player_play E p =
     (let p1 = tell E (Print (puts ''Let's play. Hearing sound?'')) p
      in run E ''fluid_player_play'' [player p1] [] p1)"

definition client_player_pause :: "env \<Rightarrow> 'a player_scheme \<Rightarrow> 'a player_scheme" where
  "client_player_pause E p = run E ''fluid_player_stop'' [player p] [] p"

definition client_player_get_total_ticks :: "env \<Rightarrow> 'a player_scheme \<Rightarrow> int \<times> 'a player_scheme" where
  "client_player_get_total_ticks E p = get E ''fluid_player_get_total_ticks'' [player p] [] p"

definition client_player_get_cur_tick :: "env \<Rightarrow> 'a player_scheme \<Rightarrow> int \<times> 'a player_scheme" where
  "client_player_get_cur_tick E p = get E ''fluid_player_get_current_tick'' [player p] [] p"

definition client_player_seek :: "env \<Rightarrow> int \<Rightarrow> 'a player_scheme \<Rightarrow> 'a player_scheme" where
  "client_player_seek E tick p = run E ''fluid_player_seek'' [player p, tick] [] p"

definition client_player_setloop :: "env \<Rightarrow> int \<Rightarrow> 'a player_scheme \<Rightarrow> 'a player_scheme" where
  "client_player_setloop E looping p = run E ''fluid_player_set_loop'' [player p, looping] [] p"

definition client_player_restart :: "env \<Rightarrow> 'a player_scheme \<Rightarrow> 'a player_scheme" where
  "client_player_restart E p = run E ''fluid_player_seek'' [player p, 0] [] p"

definition client_player_cleanup :: "env \<Rightarrow> 'a player_scheme \<Rightarrow> 'a player_scheme" where
  "client_player_cleanup E p =
     (let p1 = delete_unless_null E ''delete_fluid_audio_driver'' (adriver p) p;
          p2 = delete_unless_null E ''delete_fluid_player'' (player p) p1;
          p3 = delete_unless_null E ''delete_fluid_synth'' (synth p) p2
      in delete_unless_null E ''delete_fluid_settings'' (settings p) p3)"

definition client_player_add_midi_mem :: "env \<Rightarrow> int \<Rightarrow> int \<Rightarrow> 'a player_scheme \<Rightarrow> 'a player_scheme" where
  "client_player_add_midi_mem E buff len p = run E ''fluid_player_add_mem'' [player p, buff, len] [] p"

definition client_player_get_status :: "build \<Rightarrow> fluid_h \<Rightarrow> env \<Rightarrow> 'a player_scheme \<Rightarrow> (int \<times> 'a player_scheme) res" where
  "client_player_get_status B F E p =
     (if player p = 0 then Inr (-1, p)
      else let (status, p1) = get E ''fluid_player_get_status'' [player p] [] p in
        if status = FLUID_PLAYER_DONE F then Inr (2, p1)
        else if status = FLUID_PLAYER_PLAYING F then Inr (1, p1)
        else if status = FLUID_PLAYER_READY F then Inr (0, p1)
        else fall_off B (status, p1))"

section \<open>The life of the objects\<close>

text \<open>
  \<open>made f\<close> and \<open>unmade f\<close>: the kind of object the function creates or deletes. \<open>kinds f\<close>: the kinds
  its pointer arguments must have.
\<close>

datatype kind = Settings | Synth | Player_Object | Audio_Driver

definition made :: "string \<Rightarrow> kind option" where
  "made f = (if f = ''new_fluid_settings'' then Some Settings else if f = ''new_fluid_synth'' then Some Synth
     else if f = ''new_fluid_player'' then Some Player_Object
     else if f = ''new_fluid_audio_driver'' then Some Audio_Driver else None)"

definition unmade :: "string \<Rightarrow> kind option" where
  "unmade f = (if f = ''delete_fluid_settings'' then Some Settings else if f = ''delete_fluid_synth'' then Some Synth
     else if f = ''delete_fluid_player'' then Some Player_Object
     else if f = ''delete_fluid_audio_driver'' then Some Audio_Driver else None)"

definition kinds :: "string \<Rightarrow> kind list" where
  "kinds f = (if f \<in> {''new_fluid_synth'', ''fluid_settings_setstr'', ''delete_fluid_settings''} then [Settings]
     else if f \<in> {''new_fluid_player'', ''fluid_synth_sfload'', ''delete_fluid_synth''} then [Synth]
     else if f \<in> {''delete_fluid_player'', ''fluid_player_add'', ''fluid_player_add_mem'', ''fluid_player_play'', ''fluid_player_join'',
       ''fluid_player_stop'', ''fluid_player_seek'', ''fluid_player_set_loop'', ''fluid_player_get_status'',
       ''fluid_player_get_total_ticks'', ''fluid_player_get_current_tick''} then [Player_Object]
     else if f = ''new_fluid_audio_driver'' then [Settings, Synth]
     else if f = ''delete_fluid_audio_driver'' then [Audio_Driver] else [])"

text \<open>The kinds of object that must be gone before one of the kind is deleted.\<close>

fun users :: "kind \<Rightarrow> kind set" where
  "users Settings = {Synth, Audio_Driver}"
| "users Synth = {Player_Object, Audio_Driver}"
| "users Player_Object = {}"
| "users Audio_Driver = {}"

fun live_call :: "(kind \<times> int) set \<Rightarrow> libcall \<times> answer \<Rightarrow> (kind \<times> int) set" where
  "live_call L (Call f xs ss, a) = (case made f of
       Some k \<Rightarrow> insert (k, ret a) L
     | None \<Rightarrow> (case unmade f of Some k \<Rightarrow> L - {(k, hd xs)} | None \<Rightarrow> L))"
| "live_call L (c, a) = L"

definition live_in :: "trace \<Rightarrow> (kind \<times> int) set" where
  "live_in t = foldl live_call {} t"

abbreviation live :: "'a world_scheme \<Rightarrow> (kind \<times> int) set" where
  "live w \<equiv> live_in (trace w)"

text \<open>
  A call respects the contract of fluidsynth in a situation: every object it gets is one that
  lives, and an object in use is not deleted.
\<close>

fun call_ok :: "(kind \<times> int) set \<Rightarrow> libcall \<Rightarrow> bool" where
  "call_ok L (Call f xs ss) \<longleftrightarrow> length (kinds f) \<le> length xs \<and> set (zip (kinds f) xs) \<subseteq> L
     \<and> (case unmade f of None \<Rightarrow> True | Some k \<Rightarrow> \<forall>(j, a) \<in> L. j \<notin> users k)"
| "call_ok L c \<longleftrightarrow> True"

fun calls_ok :: "(kind \<times> int) set \<Rightarrow> trace \<Rightarrow> bool" where
  "calls_ok L [] \<longleftrightarrow> True"
| "calls_ok L (x # t) \<longleftrightarrow> call_ok L (fst x) \<and> calls_ok (live_call L x) t"

definition lawful_in :: "trace \<Rightarrow> bool" where
  "lawful_in t \<longleftrightarrow> calls_ok {} t"

abbreviation lawful :: "'a world_scheme \<Rightarrow> bool" where
  "lawful w \<equiv> lawful_in (trace w)"

lemma calls_ok_append: "calls_ok L (t @ u) \<longleftrightarrow> calls_ok L t \<and> calls_ok (foldl live_call L t) u"
  by (induction t arbitrary: L) simp_all

lemma live_tell: "live (tell E c w) = live_call (live w) (c, E (trace w) c)"
  by (simp add: live_in_def trace_tell)

lemma lawful_tell: "lawful (tell E c w) \<longleftrightarrow> lawful w \<and> call_ok (live w) c"
  by (simp add: lawful_in_def live_in_def trace_tell calls_ok_append)

text \<open>
  The creating functions of fluidsynth, as documented: their result is a new object. (They may
  return a null pointer when memory runs out, which the program never tests.)
\<close>

definition fluid_gives :: "env \<Rightarrow> bool" where
  "fluid_gives E \<longleftrightarrow> (\<forall>t f xs ss k. made f = Some k \<longrightarrow>
      ret (E t (Call f xs ss)) \<noteq> 0 \<and> (k, ret (E t (Call f xs ss))) \<notin> live_in t)"

lemma fluid_givesD:
  assumes "fluid_gives E" "made f = Some k"
  shows "ret (E t (Call f xs ss)) \<noteq> 0" "(k, ret (E t (Call f xs ss))) \<notin> live_in t"
  using assms by (auto simp: fluid_gives_def)

section \<open>The objects in the global variables\<close>

definition held :: "kind \<Rightarrow> int \<Rightarrow> (kind \<times> int) set" where
  "held k a = (if a = 0 then {} else {(k, a)})"

definition objects :: "'a player_scheme \<Rightarrow> (kind \<times> int) set" where
  "objects p = held Settings (settings p) \<union> held Synth (synth p) \<union> held Player_Object (player p)
     \<union> held Audio_Driver (adriver p)"

text \<open>
  The invariant: the objects that live are those the variables hold, and every call so far was
  within the contract. \<open>ready\<close>: there is an object in each variable.
\<close>

definition player_inv :: "'a player_scheme \<Rightarrow> bool" where
  "player_inv p \<longleftrightarrow> live p = objects p \<and> lawful p"

definition ready :: "'a player_scheme \<Rightarrow> bool" where
  "ready p \<longleftrightarrow> settings p \<noteq> 0 \<and> synth p \<noteq> 0 \<and> player p \<noteq> 0 \<and> adriver p \<noteq> 0"

lemma player_fields_tell [simp]:
  "settings (tell E c p) = settings p" "synth (tell E c p) = synth p"
  "player (tell E c p) = player p" "adriver (tell E c p) = adriver p"
  by (simp_all add: tell_def ask_def Let_def)

lemma objects_tell [simp]: "objects (tell E c p) = objects p"
  by (simp add: objects_def)

lemma ready_tell [simp]: "ready (tell E c p) = ready p"
  by (simp add: ready_def)

lemmas player_eqs = held_def sys Let_def live_tell lawful_tell made_def unmade_def kinds_def

text \<open>A call that creates and deletes nothing, on objects in the variables.\<close>

lemma player_inv_tell:
  assumes "player_inv p" "case c of Call f xs ss \<Rightarrow> made f = None \<and> unmade f = None \<and> length (kinds f) \<le> length xs
      \<and> set (zip (kinds f) xs) \<subseteq> objects p | _ \<Rightarrow> True"
  shows "player_inv (tell E c p)"
  using assms by (cases c) (auto simp: player_inv_def live_tell lawful_tell split: option.splits)

lemma need_settings_inv:
  assumes "fluid_gives E" "player_inv p"
  shows "player_inv (need_settings E p)" "settings (need_settings E p) \<noteq> 0"
  using assms fluid_givesD [OF assms(1), of "''new_fluid_settings''" Settings "trace p" "[]" "[]"]
  by (auto simp: need_settings_def player_inv_def objects_def player_eqs)

lemma need_synth_inv:
  assumes "fluid_gives E" "player_inv p" "settings p \<noteq> 0"
  shows "player_inv (need_synth E p)" "synth (need_synth E p) \<noteq> 0" "settings (need_synth E p) = settings p"
  using assms fluid_givesD [OF assms(1), of "''new_fluid_synth''" Synth "trace p" "[settings p]" "[]"]
  by (auto simp: need_synth_def player_inv_def objects_def player_eqs)

lemma renew_player_inv:
  assumes "fluid_gives E" "player_inv p" "synth p \<noteq> 0"
  shows "player_inv (renew_player E p)" "player (renew_player E p) \<noteq> 0"
    "settings (renew_player E p) = settings p" "synth (renew_player E p) = synth p"
  using assms fluid_givesD [OF assms(1), of "''new_fluid_player''" Player_Object _ "[synth p]" "[]"]
  by (auto simp: renew_player_def player_inv_def objects_def player_eqs)

lemma need_adriver_inv:
  assumes "fluid_gives E" "player_inv p" "settings p \<noteq> 0" "synth p \<noteq> 0" "player p \<noteq> 0"
  shows "player_inv (need_adriver E p)" "ready (need_adriver E p)"
  using assms fluid_givesD [OF assms(1), of "''new_fluid_audio_driver''" Audio_Driver "trace p" "[settings p, synth p]" "[]"]
  by (auto simp: need_adriver_def player_inv_def objects_def ready_def player_eqs)

lemma run_settings_inv:
  "player_inv p \<Longrightarrow> a = settings p \<Longrightarrow> a \<noteq> 0 \<Longrightarrow> player_inv (run E ''fluid_settings_setstr'' [a] ss p)"
  by (rule player_inv_tell) (simp_all add: player_eqs objects_def)

lemma run_sfload_inv:
  "player_inv p \<Longrightarrow> a = synth p \<Longrightarrow> a \<noteq> 0 \<Longrightarrow> player_inv (run E ''fluid_synth_sfload'' [a, n] ss p)"
  by (rule player_inv_tell) (simp_all add: player_eqs objects_def)

lemma player_setup_inv:
  assumes "fluid_gives E" "player_inv p"
  shows "player_inv (player_setup F E p)" "ready (player_setup F E p)"
proof -
  define p1 where "p1 = tell E (Print (puts (''fluid version: '' @ FLUIDSYNTH_VERSION F))) p"
  have "player_inv p1" unfolding p1_def by (rule player_inv_tell [OF assms(2)]) simp
  note a = need_settings_inv [OF assms(1) this]
  note b = need_synth_inv [OF assms(1) a]
  note c = renew_player_inv [OF assms(1) b(1,2)]
  define p2 where "p2 = renew_player E (need_synth E (need_settings E p1))"
  have o: "player_inv p2" "settings p2 \<noteq> 0" "synth p2 \<noteq> 0" "player p2 \<noteq> 0" using a b c by (simp_all add: p2_def)
  define p3 where "p3 = run E ''fluid_settings_setstr'' [settings p2] [''audio.driver'', ''pulseaudio''] p2"
  define p4 where "p4 = run E ''fluid_settings_setstr'' [settings p3] [''midi.driver'', ''alsa_seq''] p3"
  define p5 where "p5 = run E ''fluid_synth_sfload'' [synth p4, 1] [MIDI_SOUNDFONT] p4"
  have "player_inv p5" using o by (simp add: p3_def p4_def p5_def run_settings_inv run_sfload_inv)
  then have "player_inv (need_adriver E p5) \<and> ready (need_adriver E p5)"
    using need_adriver_inv [OF assms(1), of p5] o by (simp add: p3_def p4_def p5_def)
  moreover have "player_setup F E p = need_adriver E p5"
    by (simp add: player_setup_def Let_def p1_def p2_def p3_def p4_def p5_def)
  ultimately show "player_inv (player_setup F E p)" "ready (player_setup F E p)" by simp_all
qed

text \<open>What the server and the client do with a player once there is one.\<close>

datatype player_op = Setup | Add_File string | Add_Mem int int | Play | Client_Play | Pause | Total_Ticks
  | Cur_Tick | Seek int | Set_Loop int | Restart

fun do_op :: "fluid_h \<Rightarrow> env \<Rightarrow> player_op \<Rightarrow> 'a player_scheme \<Rightarrow> 'a player_scheme" where
  "do_op F E Setup p = player_setup F E p"
| "do_op F E (Add_File path) p = player_add_midi_file E path p"
| "do_op F E (Add_Mem buff n) p = player_add_midi_mem E buff n p"
| "do_op F E Play p = player_play E p"
| "do_op F E Client_Play p = client_player_play E p"
| "do_op F E Pause p = player_pause E p"
| "do_op F E Total_Ticks p = snd (player_get_total_ticks E p)"
| "do_op F E Cur_Tick p = snd (player_get_cur_tick E p)"
| "do_op F E (Seek tick) p = player_seek E tick p"
| "do_op F E (Set_Loop looping) p = player_setloop E looping p"
| "do_op F E Restart p = player_restart E p"

lemmas player_op_defs = client_player_add_midi_mem_def client_player_pause_def client_player_seek_def
  client_player_setloop_def client_player_setup_def
  player_add_midi_file_def player_add_midi_mem_def player_play_def client_player_play_def
  player_pause_def player_get_total_ticks_def player_get_cur_tick_def player_seek_def player_setloop_def
  player_restart_def

lemma do_op_inv:
  assumes "fluid_gives E" "player_inv p" "ready p"
  shows "player_inv (do_op F E op p) \<and> ready (do_op F E op p)"
proof (cases "op = Setup")
  case True
  then show ?thesis using player_setup_inv [OF assms(1,2), of F] by simp
next
  case False
  then show ?thesis using assms(2,3)
    by (cases op) (auto simp: player_op_defs player_eqs player_inv_def objects_def ready_def)
qed

lemma fold_do_op_inv:
  "fluid_gives E \<Longrightarrow> player_inv p \<Longrightarrow> ready p \<Longrightarrow>
     player_inv (fold (do_op F E) ops p) \<and> ready (fold (do_op F E) ops p)"
  by (induction ops arbitrary: p) (simp_all add: do_op_inv)

lemma player_get_status_cases:
  "player_get_status B F E p = Inr (status, p') \<Longrightarrow>
     p' = p \<and> status = -1 \<and> player p = 0 \<or> p' = run E ''fluid_player_get_status'' [player p] [] p \<and> player p \<noteq> 0"
  by (simp add: player_get_status_def sys fall_off_def split: if_splits)

lemma player_get_status_inv:
  assumes "player_get_status B F E p = Inr (status, p')" "player_inv p"
  shows "player_inv p' \<and> objects p' = objects p"
proof (cases "player p = 0")
  case True
  then show ?thesis using player_get_status_cases [OF assms(1)] assms(2) by blast
next
  case False
  then have "p' = run E ''fluid_player_get_status'' [player p] [] p"
    using player_get_status_cases [OF assms(1)] by blast
  moreover have "player_inv (run E ''fluid_player_get_status'' [player p] [] p)"
    using False by (intro player_inv_tell [OF assms(2)]) (simp add: made_def unmade_def kinds_def objects_def held_def)
  ultimately show ?thesis by simp
qed

text \<open>\<open>player_cleanup\<close> deletes every object, each before the ones it uses.\<close>

lemma delete_unless_null_ok:
  assumes "lawful p" "live p = M \<union> held k a" "unmade f = Some k" "made f = None" "kinds f = [k]"
    and "fst ` M \<inter> insert k (users k) = {}" "k \<notin> users k"
  shows "lawful (delete_unless_null E f a p) \<and> live (delete_unless_null E f a p) = M"
proof -
  have "(k, a) \<notin> M" "\<forall>(j, b) \<in> M. j \<notin> users k" using assms(6) by force+
  then show ?thesis using assms(1-5,7)
    by (cases "a = 0") (auto simp: delete_unless_null_def live_tell lawful_tell held_def)
qed

lemma held_kind: "fst ` held k a \<subseteq> {k}"
  by (simp add: held_def)

lemma player_cleanup_deletes:
  assumes "player_inv p"
  shows "lawful (player_cleanup E p) \<and> live (player_cleanup E p) = {}"
proof -
  let ?S = "held Settings (settings p)" and ?Y = "held Synth (synth p)" and ?P = "held Player_Object (player p)"
  define p1 where "p1 = delete_unless_null E ''delete_fluid_audio_driver'' (adriver p) p"
  define p2 where "p2 = delete_unless_null E ''delete_fluid_player'' (player p) p1"
  define p3 where "p3 = delete_unless_null E ''delete_fluid_synth'' (synth p) p2"
  note kind = held_kind [of Settings "settings p"] held_kind [of Synth "synth p"] held_kind [of Player_Object "player p"]
  have 1: "lawful p1 \<and> live p1 = ?S \<union> ?Y \<union> ?P" unfolding p1_def
    using assms kind by (intro delete_unless_null_ok) (auto simp: player_inv_def objects_def unmade_def made_def kinds_def)
  have 2: "lawful p2 \<and> live p2 = ?S \<union> ?Y" unfolding p2_def
    using 1 kind by (intro delete_unless_null_ok) (auto simp: unmade_def made_def kinds_def)
  have 3: "lawful p3 \<and> live p3 = ?S" unfolding p3_def
    using 2 kind by (intro delete_unless_null_ok) (auto simp: unmade_def made_def kinds_def)
  have "player_cleanup E p = delete_unless_null E ''delete_fluid_settings'' (settings p) p3"
    by (simp add: player_cleanup_def Let_def p1_def p2_def p3_def)
  moreover have "lawful (delete_unless_null E ''delete_fluid_settings'' (settings p) p3)
      \<and> live (delete_unless_null E ''delete_fluid_settings'' (settings p) p3) = {}"
    using 3 by (intro delete_unless_null_ok [where k = Settings]) (auto simp: unmade_def made_def kinds_def)
  ultimately show ?thesis by simp
qed


end
