(* ===== verification/Server_Thread.thy ===== *)
theory Server_Thread
  imports Sys
begin

text \<open>
  \<open>server/server_thread.c\<close>: the thread that serves one client, the loop that sends a whole buffer,
  and the list of client threads the server keeps. The list lives in a store of addressed cells, as
  the events of theory \<open>Midi\<close> do; the thread talks to the environment of theory \<open>Sys\<close>.
\<close>

section \<open>The structures of server_thread.h\<close>

text \<open>
  The last four fields are pointers to variables of \<open>cmd_handlers.c\<close>; they are named by the
  variable they lead to.
\<close>

record s_thread_arg =
  socket :: int
  arg_tid :: int
  midi_ready_ptr :: string
  midi_ready_cond :: string
  midi_ready_cond_mutex :: string
  midi_play_barrier :: string

record tlist =
  tl_first :: "addr option"
  tl_last :: "addr option"
  tl_len :: int

record tnode =
  thread :: int
  arg :: addr
  nextn :: "addr option"

definition MIDI_OUT_FORMAT :: string where
  "MIDI_OUT_FORMAT = ''out_%d.mid''"

text \<open>\<open>enum client_protocol\<close> of \<open>client_protocol.h\<close>.\<close>

definition CLIENT_PLAY :: byte where "CLIENT_PLAY = 0"
definition CLIENT_PAUSE :: byte where "CLIENT_PAUSE = 1"
definition CLIENT_RESUME :: byte where "CLIENT_RESUME = 2"
definition CLIENT_SEEK :: byte where "CLIENT_SEEK = 3"
definition CLIENT_LOOP :: byte where "CLIENT_LOOP = 4"
definition CLIENT_NOLOOP :: byte where "CLIENT_NOLOOP = 5"
definition CLIENT_NFILE :: byte where "CLIENT_NFILE = 6"
definition CLIENT_QUIT :: byte where "CLIENT_QUIT = 7"
definition CLIENT_READY :: byte where "CLIENT_READY = 10"

lemmas protocol_defs = CLIENT_PLAY_def CLIENT_PAUSE_def CLIENT_RESUME_def CLIENT_SEEK_def CLIENT_LOOP_def
  CLIENT_NOLOOP_def CLIENT_NFILE_def CLIENT_QUIT_def CLIENT_READY_def

section \<open>The store of the list\<close>

record theap =
  nodes :: "addr \<Rightarrow> tnode option"
  thread_args :: "addr \<Rightarrow> s_thread_arg option"
  lists :: "addr \<Rightarrow> tlist option"
  tbrk :: addr

definition empty_theap :: theap where
  "empty_theap = \<lparr>nodes = (\<lambda>_. None), thread_args = (\<lambda>_. None), lists = (\<lambda>_. None), tbrk = 0\<rparr>"

definition get_node :: "theap \<Rightarrow> addr \<Rightarrow> tnode res" where
  "get_node h a = (case nodes h a of None \<Rightarrow> Inl Use_After_Free | Some n \<Rightarrow> Inr n)"

definition get_list :: "theap \<Rightarrow> addr option \<Rightarrow> tlist res" where
  "get_list h p = (case p of None \<Rightarrow> Inl Null_Deref
     | Some a \<Rightarrow> (case lists h a of None \<Rightarrow> Inl Use_After_Free | Some l \<Rightarrow> Inr l))"

definition free_list_cell :: "theap \<Rightarrow> addr \<Rightarrow> theap res" where
  "free_list_cell h a = (if lists h a = None then Inl Double_Free else Inr (h\<lparr>lists := (lists h)(a := None)\<rparr>))"

definition alloc_arg :: "theap \<Rightarrow> s_thread_arg \<Rightarrow> theap \<times> addr" where
  "alloc_arg h x = (h\<lparr>thread_args := (thread_args h)(tbrk h \<mapsto> x), tbrk := Suc (tbrk h)\<rparr>, tbrk h)"

definition new_tlist :: "theap \<Rightarrow> theap \<times> addr" where
  "new_tlist h = (h\<lparr>lists := (lists h)(tbrk h \<mapsto> \<lparr>tl_first = None, tl_last = None, tl_len = 0\<rparr>), tbrk := Suc (tbrk h)\<rparr>, tbrk h)"

text \<open>\<open>mem\<close> tells whether \<open>malloc\<close> succeeds.\<close>

definition new_tnode :: "bool \<Rightarrow> theap \<Rightarrow> int \<Rightarrow> addr \<Rightarrow> (theap \<times> addr) res" where
  "new_tnode mem h th a =
     (if \<not> mem then Inl (Exit 1 ''malloc'')
      else Inr (h\<lparr>nodes := (nodes h)(tbrk h \<mapsto> \<lparr>thread = th, arg = a, nextn = None\<rparr>), tbrk := Suc (tbrk h)\<rparr>, tbrk h))"

text \<open>The list is updated in place: the new record of the list, to be stored at its address.\<close>

definition append_tnode :: "theap \<Rightarrow> tlist \<Rightarrow> addr \<Rightarrow> (theap \<times> tlist) res" where
  "append_tnode h l a =
     (if tl_len l = 0
      then Inr (h, l\<lparr>tl_first := Some a, tl_last := Some a, tl_len := 1\<rparr>)
      else case tl_last l of
        None \<Rightarrow> Inl Null_Deref
      | Some b \<Rightarrow> andThen (get_node h b) (\<lambda>n.
          Inr (h\<lparr>nodes := (nodes h)(b \<mapsto> n\<lparr>nextn := Some a\<rparr>)\<rparr>,
               l\<lparr>tl_last := Some a, tl_len := tl_len l + 1\<rparr>)))"

definition free_tnode :: "theap \<Rightarrow> addr \<Rightarrow> theap res" where
  "free_tnode h a =
     andThen (get_node h a) (\<lambda>n.
       if thread_args h (arg n) = None then Inl Double_Free
       else Inr (h\<lparr>thread_args := (thread_args h)(arg n := None), nodes := (nodes h)(a := None)\<rparr>))"

fun free_tnodes :: "nat \<Rightarrow> theap \<Rightarrow> addr option \<Rightarrow> theap res" where
  "free_tnodes fuel h None = Inr h"
| "free_tnodes 0 h (Some a) = Inl Diverges"
| "free_tnodes (Suc fuel) h (Some a) =
     andThen (get_node h a) (\<lambda>n. andThen (free_tnode h a) (\<lambda>h1. free_tnodes fuel h1 (nextn n)))"

definition free_tlist :: "theap \<Rightarrow> addr \<Rightarrow> theap res" where
  "free_tlist h a =
     andThen (get_list h (Some a)) (\<lambda>l. andThen (free_tnodes (Suc (tbrk h)) h (tl_first l)) (\<lambda>h1. free_list_cell h1 a))"

section \<open>Names and sending\<close>

text \<open>
  The buffer of the file name has room for the format and two more bytes; \<open>sprintf\<close> does not
  know that.
\<close>

definition out_name :: "int \<Rightarrow> string" where
  "out_name i = ''out_'' @ dec i @ ''.mid''"

definition out_name_in_buffer :: "int \<Rightarrow> string res" where
  "out_name_in_buffer i =
     (if length (out_name i) + 1 \<le> length MIDI_OUT_FORMAT + 2 then Inr (out_name i) else Inl Out_Of_Bounds)"

definition get_midi_filename :: "string option \<Rightarrow> int \<Rightarrow> string res" where
  "get_midi_filename tmp_dir i =
     andThen (out_name_in_buffer i) (\<lambda>fname.
       case tmp_dir of None \<Rightarrow> Inl Null_Deref | Some d \<Rightarrow> Inr (d @ fname))"

text \<open>\<open>send\<close> inside \<open>sendall\<close>: the buffer it gets is all that is left, and success is reported.\<close>

definition send_left :: "env \<Rightarrow> int \<Rightarrow> 'a world_scheme send_op" where
  "send_left E fd b w =
     (case send_on E fd b w of
        (None, w1) \<Rightarrow> (None, w1)
      | (Some n, w1) \<Rightarrow> (Some n, my_rl_printf E
          (Stdout ''sendall: bytessent: %d, bytesleft: %d'' [int n, int (length b) - int n] []) w1))"

definition sendall_fd :: "env \<Rightarrow> int \<Rightarrow> byte list \<Rightarrow> int \<Rightarrow> 'a world_scheme \<Rightarrow> (int \<times> int \<times> 'a world_scheme) res" where
  "sendall_fd E fd buf len w =
     andThen (sendall (send_left E fd) buf len w) (\<lambda>(tot, rc, w1).
       Inr (tot, rc, if rc = -1 then tell E (Perror ''send'') w1 else w1))"

text \<open>\<open>htonl\<close>, as the four bytes in memory.\<close>

definition htonl_bytes :: "int \<Rightarrow> byte list" where
  "htonl_bytes v = [word_of_int (v div 2 ^ 24), word_of_int (v div 2 ^ 16), word_of_int (v div 2 ^ 8), word_of_int v]"

definition chars :: "string \<Rightarrow> byte list" where
  "chars s = map of_char s"

section \<open>The thread\<close>

definition new_server_thread :: "env \<Rightarrow> addr \<Rightarrow> 'a world_scheme \<Rightarrow> (int \<times> 'a world_scheme) res" where
  "new_server_thread E a w =
     (let (r, w1) = ask E (Call ''pthread_create'' [int a] [''server_thread'']) w in
      if ret r \<noteq> 0 then Inl (Exit 1 ''pthread_create'') else Inr (stored r, w1))"

text \<open>The greeting: the results of both sends are only printed or not looked at.\<close>

definition greet :: "env \<Rightarrow> s_thread_arg \<Rightarrow> 'a world_scheme \<Rightarrow> 'a world_scheme res" where
  "greet E a w =
     (let (sd, w1) = ask E (Send (socket a) (chars ''connected'' @ [0])) w;
          w2 = my_rl_printf E (Stdout ''bytes of 'connected' sent: %ld'' [ret sd] []) w1
      in andThen (sendall_fd E (socket a) (htonl_bytes (arg_tid a)) 4 w2) (\<lambda>(len, rc, w3). Inr w3))"

text \<open>
  Waiting for the files. The variable belongs to the main thread, so reading it is a question to
  the environment.
\<close>

partial_function (option) wait_ready :: "env \<Rightarrow> s_thread_arg \<Rightarrow> 'a world_scheme \<Rightarrow> 'a world_scheme option" where
  "wait_ready E a w =
     (let (r, w1) = get E ''*'' [] [midi_ready_ptr a] w in
      if r \<noteq> 0 then Some w1
      else wait_ready E a (run E ''pthread_cond_wait'' [] [midi_ready_cond a, midi_ready_cond_mutex a] w1))"

definition wait_for_files :: "env \<Rightarrow> s_thread_arg \<Rightarrow> 'a world_scheme \<Rightarrow> 'a world_scheme res" where
  "wait_for_files E a w =
     (case wait_ready E a (run E ''pthread_mutex_lock'' [] [midi_ready_cond_mutex a] w) of
        None \<Rightarrow> Inl Diverges
      | Some w1 \<Rightarrow> Inr (run E ''pthread_mutex_unlock'' [] [midi_ready_cond_mutex a] w1))"

definition send_byte :: "env \<Rightarrow> int \<Rightarrow> byte \<Rightarrow> 'a world_scheme \<Rightarrow> 'a world_scheme" where
  "send_byte E fd c w =
     (let (a, w1) = ask E (Send fd [c]) w in if ret a = -1 then tell E (Perror ''send'') w1 else w1)"

text \<open>
  Reading the file: its size is cut to 32 bits; what \<open>fread\<close> does not fill of the array on the
  stack is whatever was there.
\<close>

definition read_out_file :: "env \<Rightarrow> int \<Rightarrow> int \<Rightarrow> 'a world_scheme \<Rightarrow> byte list \<times> bool \<times> 'a world_scheme" where
  "read_out_file E f fsize w =
     (let (garbage, w1) = ask E (Call ''char buf[]'' [fsize] []) w;
          w2 = run E ''fseek'' [f, 0] [''SEEK_SET''] w1;
          (r, w3) = ask E (Call ''fread'' [fsize, 1, f] []) w2;
          (err, w4) = get E ''ferror'' [f] [] w3
      in (take (nat fsize) (bytes r @ drop (length (bytes r)) (bytes garbage)), err \<noteq> 0, w4))"

datatype thread_end = Finished | Thread_Exit

definition thread_error :: "env \<Rightarrow> s_thread_arg \<Rightarrow> 'a world_scheme \<Rightarrow> (thread_end option \<times> 'a world_scheme) res" where
  "thread_error E a w = Inr (Some Thread_Exit, run E ''close'' [socket a] [] w)"

definition send_file :: "env \<Rightarrow> string option \<Rightarrow> s_thread_arg \<Rightarrow> 'a world_scheme
    \<Rightarrow> (thread_end option \<times> 'a world_scheme) res" where
  "send_file E tmp_dir a w =
     andThen (get_midi_filename tmp_dir (arg_tid a)) (\<lambda>fname.
     (let (f, w1) = get E ''fopen'' [] [fname, ''r''] w in
      if f = 0 then Inl (Exit 1 ''fopen'')
      else let w2 = run E ''fseek'' [f, 0] [''SEEK_END''] w1;
               (size, w3) = get E ''ftell'' [f] [] w2;
               fsize = size mod 2 ^ 32
           in andThen (sendall_fd E (socket a) (htonl_bytes fsize) 4 w3) (\<lambda>(len, rc, w4).
              let (buf, err, w5) = read_out_file E f fsize w4 in
              if err then thread_error E a (tell E (Perror ''fread'') w5)
              else andThen (sendall_fd E (socket a) buf (s32 fsize) w5) (\<lambda>(tot, rc, w6).
                if rc = -1 then thread_error E a w6 else Inr (None, w6)))))"

text \<open>After the file: one byte from the client, the barrier, and the order to play.\<close>

definition finish :: "env \<Rightarrow> s_thread_arg \<Rightarrow> 'a world_scheme \<Rightarrow> 'a world_scheme" where
  "finish E a w =
     (let (r, w1) = ask E (Recv (socket a) 1) w;
          w2 = (if ret r = -1 then tell E (Perror ''recv'') w1 else w1);
          w3 = tell E (Print (Stdout ''thread %d before wait'' [arg_tid a] [])) w2;
          w4 = run E ''pthread_barrier_wait'' [] [midi_play_barrier a] w3;
          w5 = tell E (Print (Stdout ''thread %d after wait'' [arg_tid a] [])) w4
      in send_byte E (socket a) CLIENT_PLAY w5)"

definition server_thread :: "env \<Rightarrow> string option \<Rightarrow> s_thread_arg \<Rightarrow> 'a world_scheme
    \<Rightarrow> (thread_end \<times> 'a world_scheme) res" where
  "server_thread E tmp_dir a w =
     andThen (greet E a w) (\<lambda>w1. andThen (wait_for_files E a w1) (\<lambda>w2.
       andThen (send_file E tmp_dir a (send_byte E (socket a) CLIENT_NFILE w2)) (\<lambda>(e, w3).
         case e of Some x \<Rightarrow> Inr (x, w3) | None \<Rightarrow> Inr (Finished, finish E a w3))))"

section \<open>The list of threads\<close>

fun tchain :: "theap \<Rightarrow> addr option \<Rightarrow> addr list \<Rightarrow> bool" where
  "tchain h p [] \<longleftrightarrow> p = None"
| "tchain h p (a # as) \<longleftrightarrow> p = Some a \<and> (case nodes h a of None \<Rightarrow> False | Some n \<Rightarrow> tchain h (nextn n) as)"

fun twalk :: "theap \<Rightarrow> nat \<Rightarrow> addr option \<Rightarrow> addr list" where
  "twalk h fuel None = []"
| "twalk h 0 (Some a) = []"
| "twalk h (Suc fuel) (Some a) = a # (case nodes h a of None \<Rightarrow> [] | Some n \<Rightarrow> twalk h fuel (nextn n))"

definition theap_ok :: "theap \<Rightarrow> bool" where
  "theap_ok h \<longleftrightarrow> (\<forall>a \<ge> tbrk h. nodes h a = None)"

definition members :: "theap \<Rightarrow> tlist \<Rightarrow> addr list" where
  "members h l = twalk h (tbrk h) (tl_first l)"

text \<open>The threads and arguments the list holds, in order.\<close>

definition threads_of :: "theap \<Rightarrow> tlist \<Rightarrow> (int \<times> addr) list" where
  "threads_of h l = map (\<lambda>a. (thread (the (nodes h a)), arg (the (nodes h a)))) (members h l)"

fun tlist_ok :: "theap \<times> tlist \<Rightarrow> bool" where
  "tlist_ok (h, l) \<longleftrightarrow> theap_ok h \<and> (let as = members h l in tchain h (tl_first l) as \<and> distinct as
     \<and> tl_len l = int (length as) \<and> (as \<noteq> [] \<longrightarrow> tl_last l = Some (last as)))"

lemma tchain_twalk: "tchain h p as \<Longrightarrow> length as \<le> fuel \<Longrightarrow> twalk h fuel p = as"
proof (induction as arbitrary: p fuel)
  case (Cons a as)
  from Cons.prems obtain f where "fuel = Suc f" by (cases fuel) auto
  with Cons show ?case by (auto split: option.splits)
qed simp

lemma tchain_frame:
  "(\<And>a. a \<in> set as \<Longrightarrow> nodes h' a = nodes h a) \<Longrightarrow> tchain h' p as = tchain h p as"
  by (induction as arbitrary: p) (auto split: option.splits)

lemma tchain_live: "tchain h p as \<Longrightarrow> a \<in> set as \<Longrightarrow> \<exists>n. nodes h a = Some n"
  by (induction as arbitrary: p) (auto split: option.splits)

lemma tchain_below: "theap_ok h \<Longrightarrow> tchain h p as \<Longrightarrow> set as \<subseteq> {..<tbrk h}"
proof (induction as arbitrary: p)
  case (Cons a as)
  then obtain n where "nodes h a = Some n" "tchain h (nextn n) as" by (auto split: option.splits)
  moreover from this Cons.prems(1) have "a < tbrk h" by (metis theap_ok_def linorder_not_le option.distinct(1))
  ultimately show ?case using Cons by simp
qed simp

lemma tchain_length: "theap_ok h \<Longrightarrow> tchain h p as \<Longrightarrow> distinct as \<Longrightarrow> length as \<le> tbrk h"
  by (metis card_lessThan card_mono distinct_card finite_lessThan tchain_below)

lemma members_eq: "theap_ok h \<Longrightarrow> tchain h (tl_first l) as \<Longrightarrow> distinct as \<Longrightarrow> members h l = as"
  by (simp add: members_def tchain_twalk tchain_length)

lemma tlist_okI:
  assumes "theap_ok h" "tchain h (tl_first l) as" "distinct as" "tl_len l = int (length as)"
    "as \<noteq> [] \<Longrightarrow> tl_last l = Some (last as)"
  shows "tlist_ok (h, l)" "members h l = as"
  using assms members_eq [OF assms(1-3)] by (simp_all add: Let_def)

lemma tchain_snoc:
  "tchain h p as \<Longrightarrow> distinct as \<Longrightarrow> as \<noteq> [] \<Longrightarrow> nodes h' (last as) = Some n \<Longrightarrow> nextn n = Some a \<Longrightarrow>
   nodes h' a = Some m \<Longrightarrow> nextn m = None \<Longrightarrow> (\<And>x. x \<in> set (butlast as) \<Longrightarrow> nodes h' x = nodes h x) \<Longrightarrow>
   tchain h' p (as @ [a])"
proof (induction as arbitrary: p)
  case (Cons b as)
  show ?case
  proof (cases "as = []")
    case True
    with Cons.prems show ?thesis by auto
  next
    case False
    from Cons.prems(1) obtain nb where nb: "nodes h b = Some nb" "tchain h (nextn nb) as" "p = Some b"
      by (auto split: option.splits)
    have "tchain h' (nextn nb) (as @ [a])"
      using Cons.prems False by (intro Cons.IH [OF nb(2)]) auto
    moreover have "nodes h' b = nodes h b" using Cons.prems(8) False by simp
    ultimately show ?thesis using nb by simp
  qed
qed simp

text \<open>Adding a thread, as \<open>handle_socket\<close> does: a new node behind the last one.\<close>

fun add_thread :: "theap \<times> tlist \<Rightarrow> int \<times> addr \<Rightarrow> (theap \<times> tlist) res" where
  "add_thread (h, l) (th, a) = andThen (new_tnode True h th a) (\<lambda>(h1, n). append_tnode h1 l n)"

lemma add_thread_ok:
  assumes "tlist_ok (h, l)"
  shows "\<exists>h' l'. add_thread (h, l) (th, a) = Inr (h', l') \<and> tlist_ok (h', l')
    \<and> threads_of h' l' = threads_of h l @ [(th, a)] \<and> thread_args h' = thread_args h \<and> lists h' = lists h
    \<and> tl_len l' = tl_len l + 1 \<and> tbrk h' = Suc (tbrk h)"
proof -
  let ?as = "members h l"
  have t: "theap_ok h" "tchain h (tl_first l) ?as" "distinct ?as" "tl_len l = int (length ?as)"
    "?as \<noteq> [] \<Longrightarrow> tl_last l = Some (last ?as)" using assms by (auto simp: Let_def)
  let ?m = "\<lparr>thread = th, arg = a, nextn = None\<rparr>"
  let ?h1 = "h\<lparr>nodes := (nodes h)(tbrk h \<mapsto> ?m), tbrk := Suc (tbrk h)\<rparr>"
  have below: "set ?as \<subseteq> {..<tbrk h}" using tchain_below [OF t(1,2)] .
  have new: "new_tnode True h th a = Inr (?h1, tbrk h)" by (simp add: new_tnode_def)
  show ?thesis
  proof (cases "?as = []")
    case True
    let ?l = "l\<lparr>tl_first := Some (tbrk h), tl_last := Some (tbrk h), tl_len := 1\<rparr>"
    have app: "append_tnode ?h1 l (tbrk h) = Inr (?h1, ?l)" using True t(4) by (simp add: append_tnode_def)
    have h1: "theap_ok ?h1" using t(1) by (simp add: theap_ok_def)
    have "tlist_ok (?h1, ?l)" "members ?h1 ?l = [tbrk h]"
      using tlist_okI [OF h1, of ?l "[tbrk h]"] by simp_all
    then show ?thesis using new app True t(4) by (simp add: threads_of_def)
  next
    case False
    let ?b = "last ?as"
    from False have lin: "?b \<in> set ?as" by simp
    with below have ne: "?b \<noteq> tbrk h" by auto
    obtain n where n: "nodes h ?b = Some n" using tchain_live [OF t(2) lin] by blast
    let ?h2 = "?h1\<lparr>nodes := (nodes ?h1)(?b \<mapsto> n\<lparr>nextn := Some (tbrk h)\<rparr>)\<rparr>"
    let ?l = "l\<lparr>tl_last := Some (tbrk h), tl_len := tl_len l + 1\<rparr>"
    have app: "append_tnode ?h1 l (tbrk h) = Inr (?h2, ?l)"
      using False t(4,5) ne n by (simp add: append_tnode_def get_node_def)
    have h2: "theap_ok ?h2" using t(1) n by (auto simp: theap_ok_def)
    have same: "nodes ?h2 x = nodes h x" if "x \<in> set ?as" "x \<noteq> ?b" for x
      using that below by auto
    have split_as: "?as = butlast ?as @ [?b]" using False by simp
    have before: "x \<noteq> ?b" if "x \<in> set (butlast ?as)" for x
      using that t(3) split_as by (metis disjoint_iff distinct_append list.set_intros(1))
    have chain: "tchain ?h2 (tl_first l) (?as @ [tbrk h])"
      using ne before same below
      by (intro tchain_snoc [OF t(2,3) False]) (auto dest!: in_set_butlastD)
    have dist: "distinct (?as @ [tbrk h])" using t(3) below by auto
    have ok: "tlist_ok (?h2, ?l)" "members ?h2 ?l = ?as @ [tbrk h]"
      using tlist_okI [OF h2, of ?l "?as @ [tbrk h]"] chain dist t(4) by simp_all
    have eq: "thread (the (nodes ?h2 x)) = thread (the (nodes h x)) \<and> arg (the (nodes ?h2 x)) = arg (the (nodes h x))"
      if "x \<in> set ?as" for x using that same n by (cases "x = ?b") auto
    have "threads_of ?h2 ?l = threads_of h l @ [(th, a)]"
      unfolding threads_of_def ok(2) using eq ne by auto
    then show ?thesis using new app ok by (intro exI [of _ ?h2] exI [of _ ?l]) simp
  qed
qed

interpretation thread_list: append_list add_thread "\<lambda>(h, l). threads_of h l" tlist_ok "\<lambda>v. v" "\<lambda>v. True"
proof unfold_locales
  fix s :: "theap \<times> tlist" and v :: "int \<times> addr"
  assume "tlist_ok s"
  then show "\<exists>s'. add_thread s v = Inr s' \<and> tlist_ok s'
      \<and> (case s' of (h, l) \<Rightarrow> threads_of h l) = (case s of (h, l) \<Rightarrow> threads_of h l) @ [v]"
    using add_thread_ok [of "fst s" "snd s" "fst v" "snd v"] by (cases s; cases v) fastforce
qed

section \<open>Freeing the list\<close>

text \<open>The store without the nodes at \<open>A\<close> and the arguments at \<open>B\<close>.\<close>

definition dropped :: "addr set \<Rightarrow> addr set \<Rightarrow> theap \<Rightarrow> theap" where
  "dropped A B h = h\<lparr>nodes := (\<lambda>x. if x \<in> A then None else nodes h x),
                    thread_args := (\<lambda>x. if x \<in> B then None else thread_args h x)\<rparr>"

definition node_arg :: "theap \<Rightarrow> addr \<Rightarrow> addr" where
  "node_arg h a = arg (the (nodes h a))"

lemma free_tnodes_ok:
  assumes "tchain h p as" "distinct as" "distinct (map (node_arg h) as)"
    and "\<forall>a \<in> set as. thread_args h (node_arg h a) \<noteq> None" "length as \<le> fuel"
  shows "free_tnodes fuel h p = Inr (dropped (set as) (node_arg h ` set as) h)"
  using assms
proof (induction as arbitrary: h p fuel)
  case Nil
  then show ?case by (simp add: dropped_def)
next
  case (Cons a as)
  from Cons.prems(1) obtain n where n: "nodes h a = Some n" "tchain h (nextn n) as" "p = Some a"
    by (auto split: option.splits)
  from Cons.prems(5) obtain f where f: "fuel = Suc f" "length as \<le> f" by (cases fuel) auto
  let ?h1 = "dropped {a} {node_arg h a} h"
  have free: "free_tnode h a = Inr ?h1"
    using n(1) Cons.prems(4) by (auto simp: free_tnode_def get_node_def node_arg_def dropped_def fun_upd_def intro!: theap.equality)
  have ev: "nodes ?h1 x = nodes h x" "node_arg ?h1 x = node_arg h x" if "x \<in> set as" for x
    using that Cons.prems(2) by (auto simp: dropped_def node_arg_def)
  have "free_tnodes f ?h1 (nextn n) = Inr (dropped (set as) (node_arg ?h1 ` set as) ?h1)"
  proof (rule Cons.IH)
    show "tchain ?h1 (nextn n) as" using n(2) by (subst tchain_frame [of as ?h1 h]) (auto simp: ev)
    show "distinct as" "length as \<le> f" using Cons.prems(2) f(2) by auto
    have "map (node_arg ?h1) as = map (node_arg h) as" by (simp add: ev)
    then show "distinct (map (node_arg ?h1) as)" using Cons.prems(3) by (simp only:) simp
    show "\<forall>x \<in> set as. thread_args ?h1 (node_arg ?h1 x) \<noteq> None"
    proof
      fix x assume x: "x \<in> set as"
      then have "node_arg h x \<noteq> node_arg h a" using Cons.prems(3) by (auto simp: image_iff)
      then show "thread_args ?h1 (node_arg ?h1 x) \<noteq> None"
        using Cons.prems(4) x unfolding ev(2) [OF x] by (simp add: dropped_def)
    qed
  qed
  moreover have "node_arg ?h1 ` set as = node_arg h ` set as" using ev(2) by (rule image_cong [OF refl])
  moreover have "dropped (set as) B (dropped {a} {b} h) = dropped (insert a (set as)) (insert b B) h" for B b
    by (auto simp: dropped_def fun_eq_iff)
  ultimately show ?case using f(1) n(1,3) free by (simp add: get_node_def)
qed

text \<open>
  Freeing the list of threads frees every node, every argument and the list itself, exactly once,
  when no two threads share an argument.
\<close>

lemma free_tlist_ok:
  assumes "lists h a = Some l" "tlist_ok (h, l)" "distinct (map snd (threads_of h l))"
    and "\<forall>(t, x) \<in> set (threads_of h l). thread_args h x \<noteq> None"
  shows "free_tlist h a = Inr ((dropped (set (members h l)) (snd ` set (threads_of h l)) h)\<lparr>lists := (lists h)(a := None)\<rparr>)"
proof -
  have t: "theap_ok h" "tchain h (tl_first l) (members h l)" "distinct (members h l)"
    using assms(2) by (auto simp: Let_def)
  have args: "map snd (threads_of h l) = map (node_arg h) (members h l)"
    "snd ` set (threads_of h l) = node_arg h ` set (members h l)"
    by (simp_all add: threads_of_def node_arg_def o_def image_image)
  have "free_tnodes (Suc (tbrk h)) h (tl_first l) = Inr (dropped (set (members h l)) (node_arg h ` set (members h l)) h)"
    using assms(3,4) tchain_length [OF t] unfolding args
    by (intro free_tnodes_ok [OF t(2,3)]) (auto simp: threads_of_def node_arg_def)
  then show ?thesis using assms(1)
    by (simp add: free_tlist_def get_list_def free_list_cell_def args dropped_def)
qed

section \<open>What the thread sends\<close>

lemma sent_on_print [simp]: "sent_on fd (my_rl_printf E m w) = sent_on fd w"
  by (simp add: my_rl_printf_def Let_def sys split_beta)

lemma send_left_bytes:
  assumes "send_ok E fd"
  shows "sends_bytes (send_left E fd) (sent_on fd)"
  unfolding sends_bytes_def
proof (intro allI)
  fix b and w :: "'a world_scheme"
  have "case send_on E fd b w of (None, w') \<Rightarrow> sent_on fd w' = sent_on fd w
    | (Some k, w') \<Rightarrow> k \<le> length b \<and> (b \<noteq> [] \<longrightarrow> 0 < k) \<and> sent_on fd w' = sent_on fd w @ take k b"
    using send_on_bytes [OF assms, where 'a = 'a] unfolding sends_bytes_def by (elim allE [of _ b] allE [of _ w])
  then show "case send_left E fd b w of (None, w') \<Rightarrow> sent_on fd w' = sent_on fd w
    | (Some k, w') \<Rightarrow> k \<le> length b \<and> (b \<noteq> [] \<longrightarrow> 0 < k) \<and> sent_on fd w' = sent_on fd w @ take k b"
    by (auto simp: send_left_def split: option.splits prod.splits)
qed

text \<open>A connection that does not break: no \<open>send\<close> and no \<open>recv\<close> fails.\<close>

definition connected :: "env \<Rightarrow> int \<Rightarrow> bool" where
  "connected E fd \<longleftrightarrow> send_ok E fd \<and> (\<forall>t b. ret (E t (Send fd b)) \<noteq> -1)"

lemma send_left_unfailing: "connected E fd \<Longrightarrow> fst (send_left E fd b w) \<noteq> None"
  by (simp add: connected_def send_left_def send_on_def sys)

lemma sendall_fd_ok:
  assumes "connected E fd" "buf \<noteq> []"
  shows "\<exists>w'. sendall_fd E fd buf (int (length buf)) w = Inr (int (length buf), 0, w')
    \<and> sent_on fd w' = sent_on fd w @ buf"
proof -
  have "sends_bytes (send_left E fd) (sent_on fd :: 'a world_scheme \<Rightarrow> byte list)"
    using assms(1) by (intro send_left_bytes) (simp add: connected_def)
  from sendall_unfailing [OF this assms(2) send_left_unfailing [OF assms(1)], of w]
  show ?thesis by (auto simp: sendall_fd_def)
qed

text \<open>
  C20: \<open>sendall\<close> on a socket that takes a nonempty beginning of what it is given, or fails, always ends: it has
  sent everything and returns 0, or it has sent a beginning and returns -1.
\<close>

theorem sendall_fd_prefix:
  assumes "send_ok E fd" "buf \<noteq> []"
  shows "\<exists>t rc w'. sendall_fd E fd buf (int (length buf)) w = Inr (int t, rc, w') \<and> t \<le> length buf
    \<and> sent_on fd w' = sent_on fd w @ take t buf \<and> (rc = 0 \<and> t = length buf \<or> rc = -1)"
proof -
  from sendall_ok [OF send_left_bytes [OF assms(1)] assms(2), of w]
  show ?thesis by (fastforce simp: sendall_fd_def)
qed

lemma send_byte_ok: "connected E fd \<Longrightarrow> sent_on fd (send_byte E fd c w) = sent_on fd w @ [c]"
proof -
  assume "connected E fd"
  then have "ret (E (trace w) (Send fd [c])) = 1"
    by (auto simp: connected_def send_ok_def dest!: spec [of _ "trace w"] spec [of _ "[c]"])
  then show ?thesis by (simp add: send_byte_def sys sent_on_Send)
qed

text \<open>
  The main thread makes the files ready sooner or later: once the thread has been woken \<open>k\<close> times
  it finds the flag set.
\<close>

definition woken :: "trace \<Rightarrow> nat" where
  "woken t = length (filter (\<lambda>(c, a). case c of Call f xs ss \<Rightarrow> f = ''pthread_cond_wait'' | _ \<Rightarrow> False) t)"

definition ready_after :: "nat \<Rightarrow> env \<Rightarrow> s_thread_arg \<Rightarrow> bool" where
  "ready_after k E a \<longleftrightarrow> (\<forall>t. k \<le> woken t \<longrightarrow> ret (E t (Call ''*'' [] [midi_ready_ptr a])) \<noteq> 0)"

lemma wait_ready_ends:
  assumes "ready_after k E a"
  shows "\<exists>w'. wait_ready E a w = Some w' \<and> sent_on fd w' = sent_on fd w"
proof (induction "k - woken (trace w)" arbitrary: w)
  case 0
  then have "ret (E (trace w) (Call ''*'' [] [midi_ready_ptr a])) \<noteq> 0"
    using assms by (simp add: ready_after_def)
  then show ?case by (subst wait_ready.simps) (simp add: sys)
next
  case (Suc n)
  let ?w1 = "run E ''*'' [] [midi_ready_ptr a] w"
  let ?w2 = "run E ''pthread_cond_wait'' [] [midi_ready_cond a, midi_ready_cond_mutex a] ?w1"
  have "woken (trace ?w2) = Suc (woken (trace w))" by (simp add: woken_def trace_tell)
  then have "n = k - woken (trace ?w2)" using Suc.hyps(2) by simp
  from Suc.hyps(1) [OF this] show ?case by (subst wait_ready.simps) (simp add: sys)
qed

lemma wait_for_files_ok:
  assumes "ready_after k E a"
  shows "\<exists>w'. wait_for_files E a w = Inr w' \<and> sent_on fd w' = sent_on fd w"
proof -
  from wait_ready_ends [OF assms, of "run E ''pthread_mutex_lock'' [] [midi_ready_cond_mutex a] w" fd]
  show ?thesis by (auto simp: wait_for_files_def)
qed


text \<open>The file that waits for the client, as the library presents it.\<close>

definition file_there :: "env \<Rightarrow> string \<Rightarrow> byte list \<Rightarrow> bool" where
  "file_there E fname content \<longleftrightarrow> (\<forall>t. ret (E t (Call ''fopen'' [] [fname, ''r''])) \<noteq> 0
     \<and> (let f = ret (E t (Call ''fopen'' [] [fname, ''r''])) in \<forall>u.
          ret (E u (Call ''ftell'' [f] [])) = int (length content)
        \<and> bytes (E u (Call ''fread'' [int (length content), 1, f] [])) = content
        \<and> ret (E u (Call ''ferror'' [f] [])) = 0))"

lemma sent_on_calls [simp]:
  "sent_on fd (snd (snd (read_out_file E f n w))) = sent_on fd w"
  by (simp add: read_out_file_def Let_def sys split_beta)

lemma read_out_file_ok:
  assumes "\<And>u. bytes (E u (Call ''fread'' [int (length content), 1, f] [])) = content"
    and "\<And>u. ret (E u (Call ''ferror'' [f] [])) = 0"
  shows "\<exists>w'. read_out_file E f (int (length content)) w = (content, False, w') \<and> sent_on fd w' = sent_on fd w"
  using assms by (simp add: read_out_file_def Let_def sys split_beta)

lemma send_file_ok:
  assumes c: "connected E (socket a)" and f: "file_there E fname content" "content \<noteq> []" "length content < 2 ^ 31"
    and name: "get_midi_filename tmp_dir (arg_tid a) = Inr fname"
  shows "\<exists>w'. send_file E tmp_dir a w = Inr (None, w')
    \<and> sent_on (socket a) w' = sent_on (socket a) w @ htonl_bytes (int (length content)) @ content"
proof -
  let ?f = "ret (E (trace w) (Call ''fopen'' [] [fname, ''r'']))"
  let ?w1 = "run E ''fopen'' [] [fname, ''r''] w"
  let ?w2 = "run E ''fseek'' [?f, 0] [''SEEK_END''] ?w1"
  let ?w3 = "run E ''ftell'' [?f] [] ?w2"
  have F: "?f \<noteq> 0" "\<And>u. ret (E u (Call ''ftell'' [?f] [])) = int (length content)"
    "\<And>u. bytes (E u (Call ''fread'' [int (length content), 1, ?f] [])) = content"
    "\<And>u. ret (E u (Call ''ferror'' [?f] [])) = 0"
    using f(1) by (simp_all add: file_there_def Let_def)
  have len: "int (length content) mod 2 ^ 32 = int (length content)" using f(3) by simp
  from sendall_fd_ok [OF c, of "htonl_bytes (int (length content))" ?w3] obtain w4 where w4:
    "sendall_fd E (socket a) (htonl_bytes (int (length content))) 4 ?w3 = Inr (4, 0, w4)"
    "sent_on (socket a) w4 = sent_on (socket a) w @ htonl_bytes (int (length content))"
    by (auto simp: htonl_bytes_def)
  from read_out_file_ok [where E = E and f = ?f and w = w4 and fd = "socket a", OF F(3,4)] obtain w5 where w5:
    "read_out_file E ?f (int (length content)) w4 = (content, False, w5)" "sent_on (socket a) w5 = sent_on (socket a) w4"
    by blast
  from sendall_fd_ok [OF c f(2), of w5] obtain w6 where w6:
    "sendall_fd E (socket a) content (int (length content)) w5 = Inr (int (length content), 0, w6)"
    "sent_on (socket a) w6 = sent_on (socket a) w5 @ content" by blast
  have s: "s32 (int (length content)) = int (length content)" using f(3) by (intro s32_id) simp_all
  show ?thesis
    using F(1,2) w4 w5 w6 len s name by (simp add: send_file_def sys)
qed

lemma finish_ok:
  "connected E (socket a) \<Longrightarrow> sent_on (socket a) (finish E a w) = sent_on (socket a) w @ [CLIENT_PLAY]"
  by (simp add: finish_def Let_def sys split_beta send_byte_ok)

lemma greet_ok:
  assumes "connected E (socket a)" "\<And>t. ret (E t (Send (socket a) (chars ''connected'' @ [0]))) = 10"
  shows "\<exists>w'. greet E a w = Inr w'
    \<and> sent_on (socket a) w' = sent_on (socket a) w @ chars ''connected'' @ [0] @ htonl_bytes (arg_tid a)"
proof -
  let ?w1 = "tell E (Send (socket a) (chars ''connected'' @ [0])) w"
  let ?w2 = "my_rl_printf E (Stdout ''bytes of 'connected' sent: %ld'' [10] []) ?w1"
  from sendall_fd_ok [OF assms(1), of "htonl_bytes (arg_tid a)" ?w2] obtain w' where
    "sendall_fd E (socket a) (htonl_bytes (arg_tid a)) 4 ?w2 = Inr (4, 0, w')"
    "sent_on (socket a) w' = sent_on (socket a) ?w1 @ htonl_bytes (arg_tid a)"
    by (auto simp: htonl_bytes_def)
  then show ?thesis using assms(2) by (simp add: greet_def sys sent_on_Send chars_def)
qed

text \<open>
  The whole conversation, from the greeting to the order to play: with the connection up, the greeting taken in
  one piece, the files made ready sooner or later and the file in place, the thread ends
  normally and has sent exactly these bytes.
\<close>

definition conversation :: "int \<Rightarrow> byte list \<Rightarrow> byte list" where
  "conversation i content = chars ''connected'' @ [0] @ htonl_bytes i @ [CLIENT_NFILE]
     @ htonl_bytes (int (length content)) @ content @ [CLIENT_PLAY]"

lemma server_thread_ok:
  assumes "connected E (socket a)" "\<And>t. ret (E t (Send (socket a) (chars ''connected'' @ [0]))) = 10"
    and "ready_after k E a" "get_midi_filename tmp_dir (arg_tid a) = Inr fname"
    and "file_there E fname content" "content \<noteq> []" "length content < 2 ^ 31"
  shows "\<exists>w'. server_thread E tmp_dir a w = Inr (Finished, w')
    \<and> sent_on (socket a) w' = sent_on (socket a) w @ conversation (arg_tid a) content"
proof -
  from greet_ok [OF assms(1,2), of w] obtain w1 where w1: "greet E a w = Inr w1"
    "sent_on (socket a) w1 = sent_on (socket a) w @ chars ''connected'' @ [0] @ htonl_bytes (arg_tid a)" by auto
  from wait_for_files_ok [OF assms(3), of w1 "socket a"] obtain w2 where w2: "wait_for_files E a w1 = Inr w2"
    "sent_on (socket a) w2 = sent_on (socket a) w1" by blast
  from send_file_ok [OF assms(1,5,6,7,4), of "send_byte E (socket a) CLIENT_NFILE w2"] obtain w3 where
    "send_file E tmp_dir a (send_byte E (socket a) CLIENT_NFILE w2) = Inr (None, w3)"
    "sent_on (socket a) w3 = sent_on (socket a) (send_byte E (socket a) CLIENT_NFILE w2)
       @ htonl_bytes (int (length content)) @ content" by blast
  then show ?thesis using w1 w2
    by (simp add: server_thread_def finish_ok [OF assms(1)] send_byte_ok [OF assms(1)] conversation_def)
qed

text \<open>A file of 2 GiB or more is not sent: its size is negative as an \<open>int\<close>.\<close>

lemma sendall_fd_huge: "len \<le> 0 \<Longrightarrow> sendall_fd E fd buf len w = Inl Uninitialised"
  by (simp add: sendall_fd_def sendall_def sendall_loop.simps)

text \<open>The name fits into its buffer for the first thousand clients only.\<close>

lemma out_name_fits:
  assumes "0 \<le> i"
  shows "out_name_in_buffer i = (if i < 1000 then Inr (out_name i) else Inl Out_Of_Bounds)"
proof -
  have "length (dec_nat (nat i)) \<le> 3 \<longleftrightarrow> nat i < 1000" using length_dec_nat [of "nat i" 3] by simp
  then show ?thesis using assms by (auto simp: out_name_in_buffer_def out_name_def MIDI_OUT_FORMAT_def dec_def)
qed

end
