(* ===== verification/Socket.thy ===== *)
theory Socket
  imports Sys
begin

text \<open>
  \<open>server/socket.c\<close> and \<open>client/socket_client.c\<close>: opening the listening socket, connecting to it, and
  reading addresses. An address is the bytes of its \<open>struct sockaddr\<close> in the layout of Linux.
\<close>

section \<open>Addresses\<close>

definition AF_INET :: int where "AF_INET = 2"

definition sa_family :: "byte list \<Rightarrow> int" where
  "sa_family sa = uint (sa ! 0) + 256 * uint (sa ! 1)"

text \<open>The functions return a pointer into the address: its offset.\<close>

definition get_in_addr :: "byte list \<Rightarrow> nat" where
  "get_in_addr sa = (if sa_family sa = AF_INET then 4 else 8)"

definition get_in_port :: "byte list \<Rightarrow> byte list" where
  "get_in_port sa = (if sa_family sa = AF_INET then take 2 (drop 2 sa) else take 2 (drop 2 sa))"

definition ntohs :: "byte list \<Rightarrow> int" where
  "ntohs b = 256 * uint (b ! 0) + uint (b ! 1)"

text \<open>\<open>inet_ntop\<close> on an address; the buffer keeps its text when the call fails.\<close>

definition inet_ntop :: "env \<Rightarrow> int \<Rightarrow> byte list \<Rightarrow> string \<Rightarrow> 'a world_scheme \<Rightarrow> string \<times> 'a world_scheme" where
  "inet_ntop E family sa s w =
     (let (a, w1) = ask E (Call ''inet_ntop'' (family # map uint (drop (get_in_addr sa) sa)) []) w
      in (if ret a = 0 then s else str a, w1))"

section \<open>The listening socket\<close>

definition PORT :: string where "PORT = ''14440''"
definition BACKLOG :: int where "BACKLOG = 20"

record addrinfo =
  ai_family :: int
  ai_socktype :: int
  ai_protocol :: int
  ai_addr :: "byte list"

text \<open>
  One \<open>addrinfo\<close> after the other, until one can be bound: \<open>Some (sockfd, p)\<close> when the loop was
  left through \<open>break\<close>.
\<close>

fun bind_first :: "env \<Rightarrow> addrinfo list \<Rightarrow> 'a world_scheme \<Rightarrow> ((int \<times> addrinfo) option \<times> 'a world_scheme) res" where
  "bind_first E [] w = Inr (None, w)"
| "bind_first E (p # ps) w =
     (let (sockfd, w1) = get E ''socket'' [ai_family p, ai_socktype p, ai_protocol p] [] w in
      if sockfd = -1 then bind_first E ps (tell E (Perror ''server: socket'') w1)
      else let (r, w2) = get E ''setsockopt'' [sockfd, 1] [''SOL_SOCKET'', ''SO_REUSEADDR''] w1 in
        if r = -1 then Inl (Exit 1 ''setsockopt'')
        else let (b, w3) = get E ''bind'' (sockfd # map uint (ai_addr p)) [] w2 in
          if b = -1 then bind_first E ps (tell E (Perror ''server: bind'') (run E ''close'' [sockfd] [] w3))
          else Inr (Some (sockfd, p),
                 tell E (Print (Stdout ''Listening on port %d'' [ntohs (get_in_port (ai_addr p))] [])) w3))"

text \<open>
  \<open>resolve\<close> is \<open>getaddrinfo\<close>: its result and the list it stores. When it fails the function
  returns 1, which its caller takes for a descriptor.
\<close>

definition setup_server :: "env \<Rightarrow> (trace \<Rightarrow> addrinfo list) \<Rightarrow> 'a world_scheme \<Rightarrow> (int \<times> 'a world_scheme) res" where
  "setup_server E resolve w =
     (let servinfo = resolve (trace w);
          (rv, w1) = get E ''getaddrinfo'' [] [''NULL'', PORT, ''AF_UNSPEC, SOCK_STREAM, AI_PASSIVE''] w in
      if rv \<noteq> 0 then
        (let (e, w2) = ask E (Call ''gai_strerror'' [rv] []) w1
         in Inr (1, tell E (Print (Stderr ''getaddrinfo: %s'' [] [str e])) w2))
      else andThen (bind_first E servinfo w1) (\<lambda>(found, w2).
        let w3 = run E ''freeaddrinfo'' [] [] w2 in
        case found of
          None \<Rightarrow> Inl (Exit 1 ''server: failed to bind'')
        | Some (sockfd, p) \<Rightarrow>
            let (l, w4) = get E ''listen'' [sockfd, BACKLOG] [] w3 in
            if l = -1 then Inl (Exit 1 ''listen'') else Inr (sockfd, w4)))"

section \<open>Connecting\<close>

fun connect_first :: "env \<Rightarrow> addrinfo list \<Rightarrow> 'a world_scheme \<Rightarrow> (int \<times> addrinfo) option \<times> 'a world_scheme" where
  "connect_first E [] w = (None, w)"
| "connect_first E (p # ps) w =
     (let (sockfd, w1) = get E ''socket'' [ai_family p, ai_socktype p, ai_protocol p] [] w in
      if sockfd = -1 then connect_first E ps (tell E (Perror ''client: socket'') w1)
      else let (c, w2) = get E ''connect'' (sockfd # map uint (ai_addr p)) [] w1 in
        if c = -1 then connect_first E ps (run E ''close'' [sockfd] [] (tell E (Perror ''client: connect'') w2))
        else (Some (sockfd, p), w2))"

text \<open>\<open>garbage\<close>: what the uninitialised buffer \<open>s\<close> holds.\<close>

definition connect_to :: "env \<Rightarrow> (trace \<Rightarrow> addrinfo list) \<Rightarrow> string \<Rightarrow> string \<Rightarrow> 'a world_scheme \<Rightarrow> int \<times> 'a world_scheme" where
  "connect_to E resolve garbage server_addr w =
     (let servinfo = resolve (trace w);
          (rv, w1) = get E ''getaddrinfo'' [] [server_addr, PORT, ''AF_UNSPEC, SOCK_STREAM''] w in
      if rv \<noteq> 0 then
        (let (e, w2) = ask E (Call ''gai_strerror'' [rv] []) w1
         in (-1, tell E (Print (Stderr ''getaddrinfo: %s'' [] [str e])) w2))
      else let (found, w2) = connect_first E servinfo w1 in
        case found of
          None \<Rightarrow> (-1, tell E (Print (Stderr ''client: failed to connect'' [] [])) w2)
        | Some (sockfd, p) \<Rightarrow>
            let (s, w3) = inet_ntop E (ai_family p) (ai_addr p) garbage w2;
                w4 = tell E (Print (Stdout ''client: connecting to %s'' [] [s])) w3
            in (sockfd, run E ''freeaddrinfo'' [] [] w4))"

section \<open>Descriptors\<close>

text \<open>
  The descriptors a trace has opened and not closed, and the ones that listen.
\<close>

fun open_call :: "int set \<Rightarrow> libcall \<times> answer \<Rightarrow> int set" where
  "open_call D (Call f xs ss, a) =
     (if f = ''socket'' \<or> f = ''accept'' then (if ret a = -1 then D else insert (ret a) D)
      else if f = ''close'' then D - {hd xs} else D)"
| "open_call D (c, a) = D"

definition open_fds :: "'a world_scheme \<Rightarrow> int set" where
  "open_fds w = foldl open_call {} (trace w)"

definition listening :: "'a world_scheme \<Rightarrow> int \<Rightarrow> bool" where
  "listening w fd \<longleftrightarrow> (\<exists>a. (Call ''listen'' [fd, BACKLOG] [], a) \<in> set (trace w) \<and> ret a \<noteq> -1)"

lemma open_fds_tell: "open_fds (tell E c w) = open_call (open_fds w) (c, E (trace w) c)"
  by (simp add: open_fds_def trace_tell)

lemma listening_tell:
  "listening (tell E c w) fd \<longleftrightarrow> listening w fd \<or> c = Call ''listen'' [fd, BACKLOG] [] \<and> ret (E (trace w) c) \<noteq> -1"
  by (auto simp: listening_def trace_tell)

text \<open>\<open>socket\<close> gives a descriptor that is not open.\<close>

definition fresh_fds :: "env \<Rightarrow> bool" where
  "fresh_fds E \<longleftrightarrow> (\<forall>t xs. ret (E t (Call ''socket'' xs [])) = -1
     \<or> ret (E t (Call ''socket'' xs [])) \<notin> foldl open_call {} t)"

lemma fresh_fdsD:
  "fresh_fds E \<Longrightarrow> ret (E (trace w) (Call ''socket'' xs [])) \<noteq> -1 \<Longrightarrow> ret (E (trace w) (Call ''socket'' xs [])) \<notin> open_fds w"
  by (auto simp: fresh_fds_def open_fds_def)

text \<open>
  The loop keeps the descriptor it succeeded with and leaves no other open.
\<close>

lemma bind_first_open:
  assumes "fresh_fds E"
  shows "bind_first E ps w = Inr (found, w') \<Longrightarrow>
    open_fds w' = (case found of None \<Rightarrow> {} | Some (fd, p) \<Rightarrow> {fd}) \<union> open_fds w
    \<and> (case found of None \<Rightarrow> True | Some (fd, p) \<Rightarrow> fd \<noteq> -1 \<and> p \<in> set ps \<and> fd \<notin> open_fds w)"
proof (induction ps arbitrary: w)
  case Nil
  then show ?case by simp
next
  case (Cons p ps)
  let ?c = "Call ''socket'' [ai_family p, ai_socktype p, ai_protocol p] []"
  let ?fd = "ret (E (trace w) ?c)"
  let ?w1 = "tell E ?c w"
  show ?case
  proof (cases "?fd = -1")
    case True
    then have "bind_first E ps (tell E (Perror ''server: socket'') ?w1) = Inr (found, w')"
      using Cons.prems by (simp add: sys)
    from Cons.IH [OF this] True show ?thesis by (auto simp: open_fds_tell split: option.splits)
  next
    case False
    from fresh_fdsD [OF assms False] have new: "?fd \<notin> open_fds w" .
    let ?w2 = "run E ''setsockopt'' [?fd, 1] [''SOL_SOCKET'', ''SO_REUSEADDR''] ?w1"
    let ?w3 = "run E ''bind'' (?fd # map uint (ai_addr p)) [] ?w2"
    let ?b = "ret (E (trace ?w2) (Call ''bind'' (?fd # map uint (ai_addr p)) []))"
    have r: "(if ?b = -1 then bind_first E ps (tell E (Perror ''server: bind'') (run E ''close'' [?fd] [] ?w3))
        else Inr (Some (?fd, p), tell E (Print (Stdout ''Listening on port %d'' [ntohs (get_in_port (ai_addr p))] [])) ?w3))
      = Inr (found, w')"
      using Cons.prems False by (simp add: sys Let_def split: if_splits)
    show ?thesis
    proof (cases "?b = -1")
      case True
      with r have "bind_first E ps (tell E (Perror ''server: bind'') (run E ''close'' [?fd] [] ?w3)) = Inr (found, w')"
        by simp
      from Cons.IH [OF this] new False show ?thesis by (auto simp: open_fds_tell split: option.splits)
    next
      case False
      with r new \<open>?fd \<noteq> -1\<close> show ?thesis by (auto simp: open_fds_tell)
    qed
  qed
qed

text \<open>
  C24: A server that sets up its socket listens on exactly one new descriptor and leaves no other open, unless the names
  could not be resolved: then it goes on with descriptor 1 and opened nothing.
\<close>

theorem setup_server_ok:
  assumes "fresh_fds E" "setup_server E resolve w = Inr (fd, w')"
  shows "open_fds w' = insert fd (open_fds w) \<and> fd \<notin> open_fds w \<and> listening w' fd
    \<or> fd = 1 \<and> open_fds w' = open_fds w"
proof -
  let ?c = "Call ''getaddrinfo'' [] [''NULL'', PORT, ''AF_UNSPEC, SOCK_STREAM, AI_PASSIVE'']"
  let ?w1 = "tell E ?c w"
  show ?thesis
  proof (cases "ret (E (trace w) ?c) = 0")
    case False
    then show ?thesis using assms(2) by (auto simp: setup_server_def Let_def sys open_fds_tell)
  next
    case True
    then obtain found w2 where b: "bind_first E (resolve (trace w)) ?w1 = Inr (found, w2)"
      using assms(2) by (auto simp: setup_server_def Let_def sys andThen_def split: sum.splits)
    from bind_first_open [OF assms(1) b] True b show ?thesis using assms(2)
      by (auto simp: setup_server_def Let_def sys open_fds_tell listening_tell split: option.splits if_splits)
  qed
qed

end
