(* ===== verification/Client.thy ===== *)
theory Client
  imports Player Server_Thread Socket
begin

text \<open>
  \<open>client/client.c\<close> and \<open>client/socket_client.c\<close>: the program that connects to the server, receives its
  MIDI file and plays it when told to.
\<close>

section \<open>State\<close>

text \<open>
  \<open>fbuff\<close> is the pointer to the file, \<open>fcontent\<close> the bytes received into it; \<open>sbuf\<close> the last command.
\<close>

record client = player +
  server_fd :: int
  fbuff :: int
  fcontent :: "byte list"
  fsize :: int
  sbuf :: byte
  client_running :: int

definition SERVER_ADDR :: string where
  "SERVER_ADDR = ''localhost''"

text \<open>\<open>ntohl\<close> of the four bytes in memory.\<close>

definition ntohl_bytes :: "byte list \<Rightarrow> int" where
  "ntohl_bytes b = uint (b ! 0) * 2 ^ 24 + uint (b ! 1) * 2 ^ 16 + uint (b ! 2) * 2 ^ 8 + uint (b ! 3)"

text \<open>A \<open>read\<close> into a buffer that held \<open>old\<close>: \<open>None\<close> for the result \<open>-1\<close>.\<close>

definition read_into :: "env \<Rightarrow> int \<Rightarrow> byte list \<Rightarrow> 'a world_scheme \<Rightarrow> byte list option \<times> 'a world_scheme" where
  "read_into E fd old w =
     (case recv_on E fd (length old) w of
        (None, w1) \<Rightarrow> (None, w1)
      | (Some bs, w1) \<Rightarrow> (Some (bs @ drop (length bs) old), w1))"

text \<open>The same into a variable that was never set: it must be filled.\<close>

definition read_fresh :: "env \<Rightarrow> int \<Rightarrow> nat \<Rightarrow> 'a world_scheme \<Rightarrow> (byte list option \<times> 'a world_scheme) res" where
  "read_fresh E fd n w =
     (case recv_on E fd n w of
        (None, w1) \<Rightarrow> Inr (None, w1)
      | (Some bs, w1) \<Rightarrow> if length bs < n then Inl Uninitialised else Inr (Some bs, w1))"

section \<open>socket_client.c\<close>

definition text_upto :: "byte list \<Rightarrow> string" where
  "text_upto b = map (char_of \<circ> unat) (takeWhile (\<lambda>x. x \<noteq> 0) b)"

definition confirm_connection :: "env \<Rightarrow> int \<Rightarrow> 'a world_scheme \<Rightarrow> (int \<times> 'a world_scheme) res" where
  "confirm_connection E fd w =
     (case recv_on E fd 10 w of
        (None, w1) \<Rightarrow> Inr (-1, tell E (Perror ''recv'') w1)
      | (Some buf, w1) \<Rightarrow>
          if buf = [] then Inl Out_Of_Bounds
          else let w2 = tell E (Print (Stdout ''client: received '%s', numbytes: %d'' [int (length buf)]
                     [text_upto (butlast buf)])) w1
               in andThen (read_fresh E fd 4 w2) (\<lambda>(x, w3). case x of
                    None \<Rightarrow> Inr (-1, tell E (Perror ''recv'') w3)
                  | Some idb \<Rightarrow>
                      let w4 = tell E (Print (puts ''Connection confirmed'')) w3
                      in Inr (0, tell E (Print (Stdout ''id: %u'' [ntohl_bytes idb] [])) w4)))"

text \<open>\<open>recv\<close> inside \<open>recvall\<close>, which reports what came.\<close>

definition recv_left :: "env \<Rightarrow> int \<Rightarrow> 'a world_scheme recv_op" where
  "recv_left E fd n w =
     (case recv_on E fd n w of
        (None, w1) \<Rightarrow> (None, w1)
      | (Some bs, w1) \<Rightarrow> (Some bs, tell E (Print
          (Stdout ''bytes received: %d, bytesleft: %d'' [int (length bs), s64 (int n) - int (length bs)] [])) w1))"

definition recvall_fd :: "env \<Rightarrow> int \<Rightarrow> nat \<Rightarrow> 'a world_scheme \<Rightarrow> (byte list \<times> int \<times> 'a world_scheme) res" where
  "recvall_fd E fd len w =
     andThen (recvall (recv_left E fd) len w) (\<lambda>(got, rc, w1).
       Inr (got, rc, if rc = -1 then tell E (Perror ''recv'') w1 else w1))"

definition client_get_in_addr :: "byte list \<Rightarrow> nat" where
  "client_get_in_addr sa = (if sa_family sa = AF_INET then 4 else 8)"

section \<open>client.c\<close>

definition cleanup :: "env \<Rightarrow> client \<Rightarrow> client" where
  "cleanup E c = run E ''close'' [server_fd c] [] c"

definition client_exit :: "env \<Rightarrow> client \<Rightarrow> flow \<times> client" where
  "client_exit E c = (Ended 1, cleanup E c)"

text \<open>
  The result is the pointer, with the bytes received and their number; 0 is the null pointer. The
  buffer is not freed when receiving fails.
\<close>

definition get_file :: "env \<Rightarrow> int \<Rightarrow> client \<Rightarrow> (int \<times> byte list \<times> int \<times> client) res" where
  "get_file E fd c =
     (case read_into E fd (replicate 4 0) c of
        (None, c1) \<Rightarrow> Inr (0, [], 0, tell E (Perror ''read'') c1)
      | (Some b, c1) \<Rightarrow>
          let size = ntohl_bytes b;
              c2 = tell E (Print (Stdout ''size of midi file: %u'' [size] [])) c1;
              c3 = tell E (Print (puts ''waiting for file...'')) c2;
              (p, c4) = get E ''malloc'' [size] [] c3
          in andThen (recvall_fd E fd (nat size) c4) (\<lambda>(got, rc, c5).
               if rc = -1 then Inr (0, got, size, c5) else Inr (p, got, int (length got), c5)))"

definition new_file :: "env \<Rightarrow> client \<Rightarrow> (flow \<times> client) res" where
  "new_file E c =
     (let c1 = (if fbuff c \<noteq> 0 then run E ''free'' [fbuff c] [] c else c) in
      andThen (get_file E (server_fd c1) c1) (\<lambda>(p, content, size, c2).
        if p = 0 then Inr (client_exit E (c2\<lparr>fbuff := 0\<rparr>))
        else let c3 = c2\<lparr>fbuff := p, fcontent := content, fsize := size\<rparr>;
                 c4 = client_player_add_midi_mem E (fbuff c3) (fsize c3) c3;
                 (a, c5) = ask E (Send (server_fd c4) [1]) c4
             in if ret a = -1 then Inr (client_exit E (tell E (Perror ''send'') c5))
                else Inr (Going, tell E (Print (puts ''server should be ready'')) c5)))"

definition seek_to :: "env \<Rightarrow> client \<Rightarrow> (flow \<times> client) res" where
  "seek_to E c =
     andThen (read_fresh E (server_fd c) 4 c) (\<lambda>(x, c1). case x of
        None \<Rightarrow> Inr (client_exit E (tell E (Perror ''read'') c1))
      | Some b \<Rightarrow> Inr (Going, client_player_seek E (s32 (ntohl_bytes b)) c1))"

text \<open>One command. The result of the \<open>read\<close> is not looked at: without a new byte the last command comes again.\<close>

definition obey :: "env \<Rightarrow> byte \<Rightarrow> client \<Rightarrow> (flow \<times> client) res" where
  "obey E b c =
     (if b = CLIENT_PLAY then Inr (Going, client_player_play E c)
      else if b = CLIENT_PAUSE then Inr (Going, client_player_pause E c)
      else if b = CLIENT_RESUME then Inr (Going, client_player_play E c)
      else if b = CLIENT_SEEK then seek_to E c
      else if b = CLIENT_LOOP then Inr (Going, client_player_setloop E 1 c)
      else if b = CLIENT_NOLOOP then Inr (Going, client_player_setloop E 0 c)
      else if b = CLIENT_NFILE then new_file E c
      else if b = CLIENT_QUIT then Inr (Going, c\<lparr>client_running := 0\<rparr>)
      else Inr (Going, tell E (Print (puts ''Unrecognized command'')) c))"

definition client_step :: "env \<Rightarrow> client \<Rightarrow> (flow \<times> client) res" where
  "client_step E c =
     (case read_into E (server_fd c) [sbuf c] c of
        (None, c1) \<Rightarrow> obey E (sbuf c1) c1
      | (Some b, c1) \<Rightarrow> obey E (b ! 0) (c1\<lparr>sbuf := b ! 0\<rparr>))"

definition client_end :: "env \<Rightarrow> client \<Rightarrow> client" where
  "client_end E c =
     (let c1 = (if fbuff c \<noteq> 0 then run E ''free'' [fbuff c] [] c else c)
      in run E ''close'' [server_fd c1] [] c1)"

partial_function (option) client_loop :: "env \<Rightarrow> client \<Rightarrow> (int \<times> client) res option" where
  "client_loop E c =
     (if client_running c = 0 then Some (Inr (0, client_end E c))
      else case client_step E c of
          Inl e \<Rightarrow> Some (Inl e)
        | Inr (Ended x, c1) \<Rightarrow> Some (Inr (x, c1))
        | Inr (Going, c1) \<Rightarrow> client_loop E c1)"

text \<open>The start of \<open>main\<close>, up to the loop; the arguments are those behind the program's name.\<close>

definition client_start :: "fluid_h \<Rightarrow> env \<Rightarrow> (trace \<Rightarrow> addrinfo list) \<Rightarrow> string \<Rightarrow> string list \<Rightarrow> client
    \<Rightarrow> (flow \<times> client) res" where
  "client_start F E resolve garbage argv c =
     (if 1 < length argv
      then Inr (Ended 1, tell E (Print (Stderr ''usage: client [hostname (default 'localhost')]'' [] [])) c)
      else let c1 = client_player_setup F E c;
               server_addr = (if length argv = 1 then argv ! 0 else SERVER_ADDR);
               (fd, c2) = connect_to E resolve garbage server_addr c1;
               c3 = c2\<lparr>server_fd := fd\<rparr>
           in if fd = -1 then Inr (Ended 1, c3)
              else let c4 = tell E (Print (Stdout ''server: %d'' [fd] [])) c3
                   in andThen (confirm_connection E fd c4) (\<lambda>(r, c5).
                        if r = -1 then Inr (client_exit E c5)
                        else let c6 = c5\<lparr>fbuff := 0, fcontent := [], fsize := 0\<rparr>;
                                 c7 = tell E (Print (puts ''waiting for server response'')) c6
                             in Inr (Going, c7\<lparr>client_running := 1, sbuf := 0\<rparr>)))"

definition client_main :: "fluid_h \<Rightarrow> env \<Rightarrow> (trace \<Rightarrow> addrinfo list) \<Rightarrow> string \<Rightarrow> string list \<Rightarrow> client
    \<Rightarrow> (int \<times> client) res option" where
  "client_main F E resolve garbage argv c =
     (case client_start F E resolve garbage argv c of
        Inl e \<Rightarrow> Some (Inl e)
      | Inr (Ended x, c1) \<Rightarrow> Some (Inr (x, c1))
      | Inr (Going, c1) \<Rightarrow> client_loop E c1)"

section \<open>What the connection delivers\<close>

definition received_in :: "int \<Rightarrow> trace \<Rightarrow> byte list" where
  "received_in fd t = concat (map (\<lambda>(c, a). case c of
      Recv fd' n \<Rightarrow> if fd' = fd \<and> ret a \<noteq> -1 then bytes a else [] | _ \<Rightarrow> []) t)"

text \<open>
  The bytes \<open>input\<close> come in over \<open>fd\<close>: every call gets a beginning of what is left, not nothing while
  there is something, and of at most 10 bytes as many as it asks for.
\<close>

definition delivers :: "env \<Rightarrow> int \<Rightarrow> byte list \<Rightarrow> bool" where
  "delivers E fd input \<longleftrightarrow> (\<forall>t n. let a = E t (Recv fd n); left = drop (length (received_in fd t)) input in
     ret a \<noteq> -1 \<and> length (bytes a) \<le> nat n \<and> (0 < n \<and> left \<noteq> [] \<longrightarrow> bytes a \<noteq> [])
     \<and> (\<exists>rest. left = bytes a @ rest) \<and> (n \<le> 10 \<longrightarrow> bytes a = take (nat n) left))"

definition to_come :: "int \<Rightarrow> byte list \<Rightarrow> 'a world_scheme \<Rightarrow> byte list" where
  "to_come fd input w = drop (length (received_in fd (trace w))) input"

lemma to_come_tell [simp]:
  "(\<And>n. c \<noteq> Recv fd n) \<Longrightarrow> to_come fd input (tell E c w) = to_come fd input w"
  by (auto simp: to_come_def received_in_def trace_tell split: libcall.splits)

lemma to_come_Recv:
  "ret (E (trace w) (Recv fd n)) \<noteq> -1 \<Longrightarrow>
     to_come fd input (tell E (Recv fd n) w) = drop (length (bytes (E (trace w) (Recv fd n)))) (to_come fd input w)"
  by (simp add: to_come_def received_in_def trace_tell add.commute)

lemma deliversD:
  assumes "delivers E fd input"
  shows "ret (E (trace w) (Recv fd n)) \<noteq> -1" "length (bytes (E (trace w) (Recv fd n))) \<le> nat n"
    "0 < n \<Longrightarrow> to_come fd input w \<noteq> [] \<Longrightarrow> bytes (E (trace w) (Recv fd n)) \<noteq> []"
    "\<exists>rest. to_come fd input w = bytes (E (trace w) (Recv fd n)) @ rest"
    "n \<le> 10 \<Longrightarrow> bytes (E (trace w) (Recv fd n)) = take (nat n) (to_come fd input w)"
  using assms unfolding delivers_def to_come_def Let_def by blast+

lemma recv_left_bytes:
  assumes "delivers E fd input"
  shows "receives_bytes (recv_left E fd) (to_come fd input)"
  unfolding receives_bytes_def
proof (intro allI)
  fix n and w :: "'a world_scheme"
  note d = deliversD [where w = w and n = "int n", OF assms]
  from d(4) obtain rest where rest: "to_come fd input w = bytes (E (trace w) (Recv fd (int n))) @ rest" by blast
  show "case recv_left E fd n w of (None, w') \<Rightarrow> True
    | (Some bs, w') \<Rightarrow> length bs \<le> n \<and> (0 < n \<and> to_come fd input w \<noteq> [] \<longrightarrow> bs \<noteq> [])
        \<and> to_come fd input w = bs @ to_come fd input w'"
    using d(1-3) rest by (auto simp: recv_left_def recv_on_def sys to_come_Recv)
qed

lemma recv_left_unfailing: "delivers E fd input \<Longrightarrow> fst (recv_left E fd n w) \<noteq> None"
  using deliversD(1) [where w = w and n = "int n"] by (simp add: recv_left_def recv_on_def sys)

lemma recv_small:
  assumes "delivers E fd input" "to_come fd input w = bs @ rest" "length bs = n" "n \<le> 10"
  shows "recv_on E fd n w = (Some bs, tell E (Recv fd (int n)) w)"
    "to_come fd input (tell E (Recv fd (int n)) w) = rest"
proof -
  have "bytes (E (trace w) (Recv fd (int n))) = bs"
    using deliversD(5) [where w = w and n = "int n", OF assms(1)] assms(2-4) by simp
  then show "recv_on E fd n w = (Some bs, tell E (Recv fd (int n)) w)"
    "to_come fd input (tell E (Recv fd (int n)) w) = rest"
    using deliversD(1) [where w = w and n = "int n", OF assms(1)] assms(2) by (simp_all add: recv_on_def sys to_come_Recv)
qed

lemma recvall_fd_ok:
  assumes "delivers E fd input" "to_come fd input w = bs @ rest" "bs \<noteq> []" "length bs < 2 ^ 31"
  shows "\<exists>w'. recvall_fd E fd (length bs) w = Inr (bs, 0, w') \<and> to_come fd input w' = rest"
  using recvall_ok [OF recv_left_bytes [OF assms(1)] recv_left_unfailing [OF assms(1)] assms(2-4)]
  by (auto simp: recvall_fd_def)

text \<open>A number that went out through \<open>htonl\<close> comes back through \<open>ntohl\<close>.\<close>

lemma uint_byte: "uint (word_of_int v :: byte) = v mod 256"
  by (simp add: uint_word_of_int)

lemma ntohl_htonl: "0 \<le> v \<Longrightarrow> v < 2 ^ 32 \<Longrightarrow> ntohl_bytes (htonl_bytes v) = v"
proof -
  assume v: "0 \<le> v" "v < 2 ^ 32"
  define q1 where "q1 = v div 256"
  define q2 where "q2 = q1 div 256"
  define q3 where "q3 = q2 div 256"
  have d: "v div 256 = q1" "v div 65536 = q2" "v div 16777216 = q3"
    by (simp_all add: q1_def q2_def q3_def flip: zdiv_zmult2_eq)
  have "q3 < 256" "0 \<le> q3" using v by (simp_all add: q1_def q2_def q3_def)
  then have "q3 mod 256 = q3" by simp
  moreover have "v = 256 * q1 + v mod 256" "q1 = 256 * q2 + q1 mod 256" "q2 = 256 * q3 + q2 mod 256"
    by (simp_all add: q1_def q2_def q3_def)
  ultimately have "q3 * 16777216 + q2 mod 256 * 65536 + q1 mod 256 * 256 + v mod 256 = v" by linarith
  then show ?thesis using \<open>q3 mod 256 = q3\<close> by (simp add: ntohl_bytes_def htonl_bytes_def d uint_byte)
qed

section \<open>The client's side of the conversation\<close>

lemma client_tell [simp]:
  "server_fd (tell E c s) = server_fd s" "fbuff (tell E c s) = fbuff s" "fcontent (tell E c s) = fcontent s"
  "fsize (tell E c s) = fsize s" "sbuf (tell E c s) = sbuf s" "client_running (tell E c s) = client_running s"
  by (simp_all add: tell_def ask_def Let_def)

lemma to_come_fields [simp]:
  "to_come fd input (c\<lparr>sbuf := b\<rparr>) = to_come fd input c"
  "to_come fd input (c\<lparr>fbuff := a, fcontent := x, fsize := n\<rparr>) = to_come fd input c" for c :: client
  by (simp_all add: to_come_def)

lemma recvall_fd_inv:
  assumes P: "\<And>c w. P w \<Longrightarrow> (\<And>f xs ss. c \<noteq> Call f xs ss) \<Longrightarrow> P (tell E c w)"
    and r: "recvall_fd E fd n w = Inr (got, rc, w')" and w: "P w"
  shows "P w'"
proof -
  from r obtain w1 where w1: "recvall (recv_left E fd) n w = Inr (got, rc, w1)"
    "w' = (if rc = -1 then tell E (Perror ''recv'') w1 else w1)"
    by (auto simp: recvall_fd_def res_iff)
  have "P (snd (recv_left E fd k v))" if "P v" for k v
    using that by (auto simp: recv_left_def recv_on_def sys intro!: P)
  from recvall_inv [of P, OF this w1(1) w] show ?thesis using w1(2) by (auto intro: P)
qed

lemma recvall_fd_fields:
  assumes "recvall_fd E fd n c = Inr (got, rc, c')"
  shows "world.more c' = world.more c"
  by (rule recvall_fd_inv [OF _ assms]) simp_all

lemma client_more:
  "world.more c' = world.more c \<Longrightarrow> server_fd c' = server_fd c \<and> fbuff c' = fbuff c \<and> fcontent c' = fcontent c
     \<and> fsize c' = fsize c \<and> sbuf c' = sbuf c \<and> client_running c' = client_running c \<and> objects c' = objects c \<and> ready c' = ready c"
  for c c' :: client
  by (cases c; cases c') (simp add: objects_def ready_def)

lemma confirm_connection_ok:
  assumes d: "delivers E fd input" and p: "to_come fd input w = chars ''connected'' @ [0] @ htonl_bytes i @ rest"
  shows "\<exists>w'. confirm_connection E fd w = Inr (0, w') \<and> to_come fd input w' = rest \<and> world.more w' = world.more w"
proof -
  have "to_come fd input w = (chars ''connected'' @ [0]) @ htonl_bytes i @ rest" "length (chars ''connected'' @ [0]) = 10"
    using p by (simp_all add: chars_def)
  note r1 = recv_small [OF d this]
  let ?w1 = "tell E (Recv fd (int 10)) w"
  let ?w2 = "tell E (Print (Stdout ''client: received '%s', numbytes: %d'' [10] [text_upto (butlast (chars ''connected'' @ [0]))])) ?w1"
  have "to_come fd input ?w2 = htonl_bytes i @ rest" "length (htonl_bytes i) = 4" using r1(2) by (simp_all add: htonl_bytes_def)
  note r2 = recv_small [OF d this]
  show ?thesis using r1(1) r2
    by (simp add: confirm_connection_def read_fresh_def htonl_bytes_def chars_def Let_def)
qed

text \<open>A new file arrives whole, whatever the pieces it comes in, and is handed to the player.\<close>

lemma get_file_ok:
  assumes d: "delivers E fd input" and p: "to_come fd input c = htonl_bytes (int (length content)) @ content @ rest"
    and n: "content \<noteq> []" "length content < 2 ^ 31"
  shows "\<exists>p c'. get_file E fd c = Inr (p, content, int (length content), c') \<and> to_come fd input c' = rest
    \<and> world.more c' = world.more c \<and> (\<exists>t. p = ret (E t (Call ''malloc'' [int (length content)] [])))"
proof -
  let ?n = "int (length content)"
  have "length (htonl_bytes ?n) = 4" by (simp add: htonl_bytes_def)
  note r = recv_small [OF d p this]
  let ?c1 = "tell E (Recv fd (int 4)) c"
  have size: "ntohl_bytes (htonl_bytes ?n) = ?n" using n(2) by (intro ntohl_htonl) simp_all
  have rd: "read_into E fd (replicate 4 0) c = (Some (htonl_bytes ?n), ?c1)"
    using r(1) by (simp add: read_into_def htonl_bytes_def)
  let ?c3 = "tell E (Print (puts ''waiting for file...'')) (tell E (Print (Stdout ''size of midi file: %u'' [?n] [])) ?c1)"
  let ?c4 = "run E ''malloc'' [?n] [] ?c3"
  have "to_come fd input ?c4 = content @ rest" using r(2) by simp
  from recvall_fd_ok [OF d this n] obtain c5 where c5: "recvall_fd E fd (length content) ?c4 = Inr (content, 0, c5)"
    "to_come fd input c5 = rest" by blast
  have "world.more c5 = world.more c" using recvall_fd_fields [OF c5(1)] by simp
  then show ?thesis using rd size c5 by (auto simp: get_file_def Let_def sys)
qed

lemma client_step_file:
  assumes d: "delivers E (server_fd c) input"
    and p: "to_come (server_fd c) input c = CLIENT_NFILE # htonl_bytes (int (length content)) @ content @ rest"
    and n: "content \<noteq> []" "length content < 2 ^ 31"
    and E: "\<And>t. ret (E t (Call ''malloc'' [int (length content)] [])) \<noteq> 0" "\<And>t. ret (E t (Send (server_fd c) [1])) \<noteq> -1"
  shows "\<exists>c'. client_step E c = Inr (Going, c') \<and> fcontent c' = content \<and> fsize c' = int (length content) \<and> fbuff c' \<noteq> 0
    \<and> to_come (server_fd c) input c' = rest \<and> server_fd c' = server_fd c \<and> client_running c' = client_running c"
proof -
  let ?fd = "server_fd c"
  have "to_come ?fd input c = [CLIENT_NFILE] @ htonl_bytes (int (length content)) @ content @ rest" using p by simp
  from recv_small [OF d this, of 1] have r: "recv_on E ?fd 1 c = (Some [CLIENT_NFILE], tell E (Recv ?fd 1) c)"
    "to_come ?fd input (tell E (Recv ?fd 1) c) = htonl_bytes (int (length content)) @ content @ rest" by simp_all
  let ?c1 = "(tell E (Recv ?fd 1) c)\<lparr>sbuf := CLIENT_NFILE\<rparr>"
  have step: "client_step E c = new_file E ?c1"
    using r(1) by (simp add: client_step_def read_into_def obey_def protocol_defs)
  define c2 where "c2 = (if fbuff ?c1 \<noteq> 0 then run E ''free'' [fbuff ?c1] [] ?c1 else ?c1)"
  have c2: "to_come ?fd input c2 = htonl_bytes (int (length content)) @ content @ rest" "server_fd c2 = ?fd"
    "client_running c2 = client_running c"
    using r(2) by (simp_all add: c2_def)
  from get_file_ok [OF d c2(1) n] obtain q c3 where c3: "get_file E ?fd c2 = Inr (q, content, int (length content), c3)"
    "to_come ?fd input c3 = rest" "world.more c3 = world.more c2" "q \<noteq> 0" using E(1) by metis
  note f = client_more [OF c3(3)]
  let ?c4 = "c3\<lparr>fbuff := q, fcontent := content, fsize := int (length content)\<rparr>"
  let ?c5 = "client_player_add_midi_mem E q (int (length content)) ?c4"
  let ?c6 = "tell E (Print (puts ''server should be ready'')) (tell E (Send ?fd [1]) ?c5)"
  have "new_file E ?c1 = Inr (Going, ?c6)"
    using c3(1,4) E(2) f c2(2) c2_def
    by (simp add: new_file_def Let_def sys client_player_add_midi_mem_def)
  moreover have "to_come ?fd input ?c6 = rest"
    using c3(2) by (simp add: client_player_add_midi_mem_def)
  ultimately show ?thesis using step f c2 c3(4) by (simp add: client_player_add_midi_mem_def)
qed

lemma client_step_play:
  assumes d: "delivers E (server_fd c) input" and p: "to_come (server_fd c) input c = CLIENT_PLAY # rest"
  shows "\<exists>c1. client_step E c = Inr (Going, client_player_play E c1) \<and> to_come (server_fd c) input c1 = rest
    \<and> fcontent c1 = fcontent c \<and> server_fd c1 = server_fd c \<and> client_running c1 = client_running c \<and> sbuf c1 = CLIENT_PLAY
    \<and> player c1 = player c"
proof -
  have "to_come (server_fd c) input c = [CLIENT_PLAY] @ rest" using p by simp
  from recv_small [OF d this, of 1]
  have "client_step E c = Inr (Going, client_player_play E ((tell E (Recv (server_fd c) 1) c)\<lparr>sbuf := CLIENT_PLAY\<rparr>))"
    "to_come (server_fd c) input ((tell E (Recv (server_fd c) 1) c)\<lparr>sbuf := CLIENT_PLAY\<rparr>) = rest"
    by (simp_all add: client_step_def read_into_def obey_def protocol_defs to_come_def)
  then show ?thesis by (intro exI conjI) (assumption, simp_all)
qed

section \<open>From start to play\<close>

lemma received_tell [simp]:
  "(\<And>n. c \<noteq> Recv fd n) \<Longrightarrow> received_in fd (trace (tell E c w)) = received_in fd (trace w)"
  by (auto simp: received_in_def trace_tell split: libcall.splits)

lemma received_player_parts [simp]:
  "received_in fd (trace (need_settings E p)) = received_in fd (trace p)"
  "received_in fd (trace (need_synth E p)) = received_in fd (trace p)"
  "received_in fd (trace (renew_player E p)) = received_in fd (trace p)"
  "received_in fd (trace (need_adriver E p)) = received_in fd (trace p)"
  by (simp_all add: need_settings_def need_synth_def renew_player_def need_adriver_def sys Let_def)

lemma received_player_setup [simp]: "received_in fd (trace (player_setup F E p)) = received_in fd (trace p)"
  by (simp add: player_setup_def Let_def)

lemma received_connect_first:
  "received_in fd (trace (snd (connect_first E ps w))) = received_in fd (trace w)"
  by (induction ps arbitrary: w) (simp_all add: sys Let_def)

lemma received_connect_to:
  "received_in fd (trace (snd (connect_to E resolve garbage addr w))) = received_in fd (trace w)"
proof -
  obtain found w2 where f: "connect_first E (resolve (trace w))
      (run E ''getaddrinfo'' [] [addr, PORT, ''AF_UNSPEC, SOCK_STREAM''] w) = (found, w2)" by fastforce
  then have "received_in fd (trace w2) = received_in fd (trace w)"
    using received_connect_first [of fd E "resolve (trace w)" "run E ''getaddrinfo'' [] [addr, PORT, ''AF_UNSPEC, SOCK_STREAM''] w"]
    by simp
  then show ?thesis using f
    by (simp add: connect_to_def inet_ntop_def sys Let_def split: option.split)
qed

lemma client_start_ok:
  assumes argv: "length argv \<le> 1" and new: "received_in fd (trace c) = []"
    and con: "fst (connect_to E resolve garbage (if length argv = 1 then argv ! 0 else SERVER_ADDR) (client_player_setup F E c)) = fd"
    and fd: "fd \<noteq> -1" and d: "delivers E fd input" "input = chars ''connected'' @ [0] @ htonl_bytes i @ rest"
  shows "\<exists>c'. client_start F E resolve garbage argv c = Inr (Going, c') \<and> to_come fd input c' = rest \<and> server_fd c' = fd
    \<and> client_running c' = 1 \<and> fbuff c' = 0 \<and> sbuf c' = 0"
proof -
  let ?addr = "if length argv = 1 then argv ! 0 else SERVER_ADDR"
  obtain c2 where c2: "connect_to E resolve garbage ?addr (client_player_setup F E c) = (fd, c2)"
    using con by (metis prod.collapse)
  have "received_in fd (trace c2) = []"
    using received_connect_to [of fd E resolve garbage ?addr "client_player_setup F E c"] c2 new
    by (simp add: client_player_setup_def)
  let ?c4 = "tell E (Print (Stdout ''server: %d'' [fd] [])) (c2\<lparr>server_fd := fd\<rparr>)"
  have "to_come fd input ?c4 = chars ''connected'' @ [0] @ htonl_bytes i @ rest"
    using \<open>received_in fd (trace c2) = []\<close> d(2) by (simp add: to_come_def)
  from confirm_connection_ok [OF d(1) this] obtain c5 where c5: "confirm_connection E fd ?c4 = Inr (0, c5)"
    "to_come fd input c5 = rest" "world.more c5 = world.more ?c4" by blast
  note f = client_more [OF c5(3)]
  let ?c6 = "tell E (Print (puts ''waiting for server response'')) (c5\<lparr>fbuff := 0, fcontent := [], fsize := 0\<rparr>)"
  have "client_start F E resolve garbage argv c = Inr (Going, ?c6\<lparr>client_running := 1, sbuf := 0\<rparr>)"
    using argv c2 fd c5(1) by (simp add: client_start_def Let_def)
  moreover have "to_come fd input (?c6\<lparr>client_running := 1, sbuf := 0\<rparr>) = rest"
    using c5(2) by (simp add: to_come_def)
  ultimately show ?thesis using f by simp
qed

text \<open>
  The whole conversation: connected, the client gets the file that was sent, acknowledges it, and starts to play
  when told to.
\<close>

lemma client_conversation:
  assumes argv: "length argv \<le> 1" and new: "received_in fd (trace c) = []"
    and con: "fst (connect_to E resolve garbage (if length argv = 1 then argv ! 0 else SERVER_ADDR) (client_player_setup F E c)) = fd"
    and fd: "fd \<noteq> -1" and d: "delivers E fd (conversation i content)"
    and n: "content \<noteq> []" "length content < 2 ^ 31"
    and E: "\<And>t. ret (E t (Call ''malloc'' [int (length content)] [])) \<noteq> 0" "\<And>t. ret (E t (Send fd [1])) \<noteq> -1"
  shows "\<exists>c1 c2 c3. client_start F E resolve garbage argv c = Inr (Going, c1)
    \<and> client_step E c1 = Inr (Going, c2) \<and> fcontent c2 = content
    \<and> client_step E c2 = Inr (Going, client_player_play E c3) \<and> fcontent c3 = content
    \<and> to_come fd (conversation i content) c3 = [] \<and> server_fd c3 = fd \<and> sbuf c3 = CLIENT_PLAY \<and> client_running c3 = 1"
proof -
  let ?in = "conversation i content"
  let ?rest = "CLIENT_NFILE # htonl_bytes (int (length content)) @ content @ [CLIENT_PLAY]"
  have "?in = chars ''connected'' @ [0] @ htonl_bytes i @ ?rest" by (simp add: conversation_def)
  from client_start_ok [OF argv new con fd d this] obtain c1 where
    c1: "client_start F E resolve garbage argv c = Inr (Going, c1)" "to_come fd ?in c1 = ?rest" "server_fd c1 = fd"
    "client_running c1 = 1" by blast
  have d1: "delivers E (server_fd c1) ?in" using d c1(3) by simp
  have p1: "to_come (server_fd c1) ?in c1 = ?rest" using c1(2,3) by simp
  have "\<And>t. ret (E t (Send (server_fd c1) [1])) \<noteq> -1" using E(2) c1(3) by simp
  from client_step_file [OF d1 p1 n E(1) this] obtain c2 where c2: "client_step E c1 = Inr (Going, c2)"
    "fcontent c2 = content" "to_come fd ?in c2 = [CLIENT_PLAY]" "server_fd c2 = fd" "client_running c2 = 1"
    using c1(3,4) by auto
  have "delivers E (server_fd c2) ?in" "to_come (server_fd c2) ?in c2 = CLIENT_PLAY # []" using d c2(3,4) by simp_all
  from client_step_play [OF this] obtain c3 where "client_step E c2 = Inr (Going, client_player_play E c3)"
    "to_come (server_fd c2) ?in c3 = []" "fcontent c3 = fcontent c2" "server_fd c3 = server_fd c2"
    "client_running c3 = client_running c2" "sbuf c3 = CLIENT_PLAY" by blast
  then show ?thesis using c1(1) c2 by auto
qed

text \<open>
  The server's thread closes nothing when it is done, and the client looks at no result of \<open>read\<close>: when the
  connection does end, the client obeys the last order again and again, for ever.
\<close>

lemma client_step_closed:
  assumes d: "delivers E fd input" and c: "server_fd c = fd" "to_come fd input c = []" "sbuf c = CLIENT_PLAY"
  shows "client_step E c = Inr (Going, client_player_play E ((tell E (Recv fd 1) c)\<lparr>sbuf := CLIENT_PLAY\<rparr>))"
    "to_come fd input (client_player_play E ((tell E (Recv fd 1) c)\<lparr>sbuf := CLIENT_PLAY\<rparr>)) = []"
proof -
  have "bytes (E (trace c) (Recv fd 1)) = []" "ret (E (trace c) (Recv fd 1)) \<noteq> -1"
    using deliversD(1,5) [where w = c and n = 1, OF d] c(2) by simp_all
  then show "client_step E c = Inr (Going, client_player_play E ((tell E (Recv fd 1) c)\<lparr>sbuf := CLIENT_PLAY\<rparr>))"
    "to_come fd input (client_player_play E ((tell E (Recv fd 1) c)\<lparr>sbuf := CLIENT_PLAY\<rparr>)) = []"
    using c by (simp_all add: client_step_def read_into_def recv_on_def sys obey_def protocol_defs
        client_player_play_def to_come_Recv)
qed


section \<open>The client's player\<close>

text \<open>Whatever the server sends, the client stays within the contract of fluidsynth.\<close>

lemma player_inv_field [simp]:
  "player_inv (c\<lparr>sbuf := b\<rparr>) = player_inv c" "player_inv (c\<lparr>fbuff := a\<rparr>) = player_inv c"
  "player_inv (c\<lparr>client_running := x\<rparr>) = player_inv c"
  "player_inv (c\<lparr>fbuff := a, fcontent := y, fsize := n\<rparr>) = player_inv c" for c :: client
  by (simp_all add: player_inv_def objects_def)

lemma ready_field [simp]:
  "ready (c\<lparr>sbuf := b\<rparr>) = ready c" "ready (c\<lparr>fbuff := a\<rparr>) = ready c" "ready (c\<lparr>client_running := x\<rparr>) = ready c"
  "ready (c\<lparr>fbuff := a, fcontent := y, fsize := n\<rparr>) = ready c" for c :: client
  by (simp_all add: ready_def)

abbreviation sound_player :: "client \<Rightarrow> bool" where
  "sound_player c \<equiv> player_inv c \<and> ready c"

lemma sound_tell:
  assumes "sound_player c" "case k of Call f xs ss \<Rightarrow> made f = None \<and> unmade f = None \<and> kinds f = [] | _ \<Rightarrow> True"
  shows "sound_player (tell E k c)"
  using assms by (auto intro!: player_inv_tell split: libcall.splits)

lemma recv_on_inv: "(\<And>k. P w \<Longrightarrow> P (tell E (Recv fd k) w)) \<Longrightarrow> P w \<Longrightarrow> recv_on E fd n w = (x, w') \<Longrightarrow> P w'"
  by (auto simp: recv_on_def sys)

lemma sound_player_call:
  assumes "sound_player c" "f \<in> {''fluid_player_play'', ''fluid_player_stop'', ''fluid_player_seek'', ''fluid_player_set_loop'', ''fluid_player_add_mem''}"
  shows "sound_player (run E f (player c # xs) ss c)"
proof -
  have "player_inv (run E f (player c # xs) ss c)"
    using assms by (intro player_inv_tell) (auto simp: made_def unmade_def kinds_def ready_def objects_def held_def)
  then show ?thesis using assms(1) by simp
qed

lemma get_file_sound:
  assumes "get_file E fd c = Inr (p, content, n, c')" "sound_player c"
  shows "sound_player c'"
proof (cases "recv_on E fd 4 c")
  case (Pair x c1)
  have 1: "sound_player c1"
    by (rule recv_on_inv [where P = sound_player, OF _ assms(2) Pair]) (rule sound_tell, simp_all)
  show ?thesis
  proof (cases x)
    case None
    then show ?thesis using assms(1) Pair 1 sound_tell [OF 1, of "Perror ''read''" E]
      by (simp add: get_file_def read_into_def)
  next
    case (Some bs)
    let ?size = "ntohl_bytes (bs @ drop (length bs) (replicate 4 0))"
    let ?c3 = "tell E (Print (puts ''waiting for file...'')) (tell E (Print (Stdout ''size of midi file: %u'' [?size] [])) c1)"
    let ?c4 = "run E ''malloc'' [?size] [] ?c3"
    have s4: "sound_player ?c4"
      by (rule sound_tell, rule sound_tell, rule sound_tell, rule 1) (simp_all add: made_def unmade_def kinds_def)
    from assms(1) Pair Some obtain got rc where r: "recvall_fd E fd (nat ?size) ?c4 = Inr (got, rc, c')"
      by (auto simp: get_file_def read_into_def Let_def sys res_iff split: if_splits)
    show ?thesis
      by (rule recvall_fd_inv [where P = sound_player, OF _ r s4]) (rule sound_tell, simp, simp split: libcall.split)
  qed
qed

lemma client_exit_sound: "sound_player c \<Longrightarrow> sound_player (snd (client_exit E c))"
  unfolding client_exit_def cleanup_def snd_conv
  by (rule sound_tell) (simp_all add: made_def unmade_def kinds_def)

lemma new_file_sound:
  assumes "new_file E c = Inr (g, c')" "sound_player c"
  shows "sound_player c'"
proof -
  define c1 where "c1 = (if fbuff c \<noteq> 0 then run E ''free'' [fbuff c] [] c else c)"
  have 1: "sound_player c1"
    using assms(2) sound_tell [OF assms(2), of "Call ''free'' [fbuff c] []" E]
    by (simp add: c1_def made_def unmade_def kinds_def)
  from assms(1) obtain p content n c2 where f: "get_file E (server_fd c1) c1 = Inr (p, content, n, c2)"
    by (auto simp: new_file_def c1_def [symmetric] res_iff)
  have 2: "sound_player c2" by (rule get_file_sound [OF f 1])
  let ?c3 = "c2\<lparr>fbuff := p, fcontent := content, fsize := n\<rparr>"
  have "sound_player ?c3" using 2 by simp
  from sound_player_call [OF this, of "''fluid_player_add_mem''" E "[p, n]" "[]"]
  have "sound_player (client_player_add_midi_mem E p n ?c3)" by (simp add: client_player_add_midi_mem_def)
  then have 5: "sound_player (tell E (Send (server_fd c2) [1]) (client_player_add_midi_mem E p n ?c3))"
    by (rule sound_tell) simp
  show ?thesis
  proof (cases "p = 0")
    case True
    then show ?thesis using assms(1) f 2 client_exit_sound [of "c2\<lparr>fbuff := 0\<rparr>" E]
      by (simp add: new_file_def c1_def [symmetric] client_exit_def)
  next
    case False
    then show ?thesis using assms(1) f client_exit_sound [OF sound_tell [OF 5, of "Perror ''send''" E]]
        sound_tell [OF 5, of "Print (puts ''server should be ready'')" E]
      by (auto simp: new_file_def c1_def [symmetric] sys Let_def client_exit_def client_player_add_midi_mem_def
          split: if_splits)
  qed
qed

lemma seek_to_sound:
  assumes "seek_to E c = Inr (g, c')" "sound_player c"
  shows "sound_player c'"
proof (cases "recv_on E (server_fd c) 4 c")
  case (Pair x c1)
  have 1: "sound_player c1"
    by (rule recv_on_inv [where P = sound_player, OF _ assms(2) Pair]) (rule sound_tell, simp_all)
  then show ?thesis
    using assms(1) Pair client_exit_sound [OF sound_tell [OF 1, of "Perror ''read''" E]]
      sound_player_call [OF 1, of "''fluid_player_seek''" E _ "[]"]
    by (auto simp: seek_to_def read_fresh_def client_player_seek_def client_exit_def res_iff split: option.splits if_splits)
qed

lemma obey_sound:
  assumes "obey E b c = Inr (g, c')" "sound_player c"
  shows "sound_player c'"
proof -
  have "sound_player (client_player_play E c)"
    using sound_player_call [OF sound_tell [OF assms(2), of "Print (puts ''Let's play. Hearing sound?'')" E],
        of "''fluid_player_play''" E "[]" "[]"] by (simp add: client_player_play_def)
  moreover have "sound_player (client_player_pause E c)" "sound_player (client_player_setloop E x c)" for x
    using sound_player_call [OF assms(2), of _ E _ "[]"] assms(2) by (simp_all add: client_player_pause_def client_player_setloop_def)
  moreover have "sound_player (tell E (Print m) c)" for m by (rule sound_tell [OF assms(2)]) simp
  ultimately show ?thesis using assms new_file_sound seek_to_sound
    by (auto simp: obey_def split: if_splits)
qed

text \<open>
  C22: Whatever comes in, a step of the client that returns keeps the player's invariant: the objects in its variables are
  those that live, and every call so far was within the contract of fluidsynth.
\<close>

theorem client_step_sound:
  assumes "client_step E c = Inr (g, c')" "sound_player c"
  shows "sound_player c'"
proof (cases "recv_on E (server_fd c) 1 c")
  case (Pair x c1)
  have 1: "sound_player c1"
    by (rule recv_on_inv [where P = sound_player, OF _ assms(2) Pair]) (rule sound_tell, simp_all)
  then show ?thesis
    using assms(1) Pair obey_sound [of E _ c1 g c'] obey_sound [of E _ "c1\<lparr>sbuf := _\<rparr>" g c']
    by (auto simp: client_step_def read_into_def split: option.splits)
qed

end
