(* ===== verification/Cmd_Handlers.thy ===== *)
theory Cmd_Handlers
  imports Midi_Splitter Player Server_Thread Socket
begin

text \<open>
  \<open>server/cmd_handlers.c\<close>: the commands of the server, run by its main thread. The state is the
  global variables of the server; a handler that may fail on undefined behaviour or end the
  process returns a \<open>res\<close>.
\<close>

section \<open>State\<close>

text \<open>
  \<open>disk\<close> is what the process has written to files. \<open>midi_state\<close> and \<open>reader_state\<close> are the state of
  the parser and of \<open>midi_reader.c\<close>, which holds the store the files live in.
\<close>

record server = player +
  sin_size :: int
  addr_text :: string
  client_fd :: int
  their_addr :: "byte list"
  midi_ready :: int
  barrier_initialized :: int
  clients :: "addr option"
  threads :: theap
  accepting_clients :: int
  tid :: int
  mfile :: "Mfile option"
  midi_out_names :: "string list"
  tmp_dir :: "string option"
  running :: int
  disk :: "string \<Rightarrow> byte list option"
  midi_state :: rd
  reader_state :: reader

text \<open>What the program was built with and runs on; \<open>usable n\<close>: the bytes behind \<open>malloc (n)\<close>.\<close>

record host =
  build_of :: build
  fluid :: fluid_h
  env_of :: env
  usable_of :: "nat \<Rightarrow> nat"

definition store_of :: "server \<Rightarrow> heap" where
  "store_of s = rd_heap (reader_state s)"

definition set_store :: "heap \<Rightarrow> server \<Rightarrow> server" where
  "set_store h s = s\<lparr>reader_state := (reader_state s)\<lparr>rd_heap := h\<rparr>\<rparr>"

definition client_list :: "server \<Rightarrow> tlist res" where
  "client_list s = get_list (threads s) (clients s)"

definition xprintf :: "host \<Rightarrow> string \<Rightarrow> int list \<Rightarrow> string list \<Rightarrow> server \<Rightarrow> server" where
  "xprintf H fmt xs ss s = my_rl_printf (env_of H) (Stdout fmt xs ss) s"

definition printf :: "host \<Rightarrow> string \<Rightarrow> int list \<Rightarrow> string list \<Rightarrow> server \<Rightarrow> server" where
  "printf H fmt xs ss s = tell (env_of H) (Print (Stdout fmt xs ss)) s"

definition eprintf :: "host \<Rightarrow> string \<Rightarrow> int list \<Rightarrow> string list \<Rightarrow> server \<Rightarrow> server" where
  "eprintf H fmt xs ss s = tell (env_of H) (Print (Stderr fmt xs ss)) s"

text \<open>A C string kept with its terminating zero, as text.\<close>

definition text_of :: "byte list \<Rightarrow> string" where
  "text_of b = map (char_of \<circ> unat) (takeWhile (\<lambda>x. x \<noteq> 0) b)"

section \<open>Connections\<close>

definition setup_connections :: "host \<Rightarrow> server \<Rightarrow> server" where
  "setup_connections H s =
     (let (h, l) = new_tlist (threads s)
      in printf H ''server: waiting for connections...'' [] []
           (s\<lparr>threads := h, clients := Some l, tid := 0, accepting_clients := 1\<rparr>))"

definition clear_connections :: "server \<Rightarrow> server res" where
  "clear_connections s =
     andThen (case clients s of None \<Rightarrow> Inr (threads s) | Some l \<Rightarrow> free_tlist (threads s) l)
       (\<lambda>h. Inr (s\<lparr>threads := h, tid := 0\<rparr>))"

text \<open>
  The thread of a new client, with the number \<open>tid\<close>: its argument and its node are allocated, and the node is
  appended to the list.
\<close>

definition add_client :: "host \<Rightarrow> server \<Rightarrow> server res" where
  "add_client H s =
     (let (p, s1) = get (env_of H) ''malloc'' [40] [] s in
      if p = 0 then Inl Null_Deref
      else let (h1, x) = alloc_arg (threads s1) \<lparr>socket = client_fd s1, arg_tid = tid s1,
                 midi_ready_ptr = ''midi_ready'', midi_ready_cond = ''midi_ready_cond'',
                 midi_ready_cond_mutex = ''midi_ready_cond_mutex'', midi_play_barrier = ''midi_play_barrier''\<rparr>
           in andThen (new_server_thread (env_of H) x (s1\<lparr>threads := h1\<rparr>)) (\<lambda>(thread, s2).
              let (m, s3) = get (env_of H) ''malloc'' [24] [] s2
              in andThen (new_tnode (m \<noteq> 0) (threads s3) thread x) (\<lambda>(h2, node).
                 andThen (get_list h2 (clients s3)) (\<lambda>l.
                 andThen (append_tnode h2 l node) (\<lambda>(h3, l').
                   let s4 = s3\<lparr>threads := h3\<lparr>lists := (lists h3)(the (clients s3) \<mapsto> l')\<rparr>\<rparr>;
                       s5 = xprintf H ''num threads: %d'' [tl_len l'] [] s4
                   in Inr (s5\<lparr>tid := tid s5 + 1\<rparr>))))))"

text \<open>
  A new connection. \<open>accept\<close> stores as much of the address as \<open>sin_size\<close> allows and then the true size
  in \<open>sin_size\<close>. The last branch of the function has no \<open>return\<close>.
\<close>

definition store_addr :: "int \<Rightarrow> byte list \<Rightarrow> byte list \<Rightarrow> byte list" where
  "store_addr space sa old = (let n = min (nat space) (length sa) in take n sa @ drop n old)"

definition accept_client :: "host \<Rightarrow> int \<Rightarrow> server \<Rightarrow> server" where
  "accept_client H sockfd s =
     (let (a, s1) = ask (env_of H) (Call ''accept'' [sockfd, sin_size s] []) s in
      if ret a = -1 then s1\<lparr>client_fd := -1\<rparr>
      else s1\<lparr>client_fd := ret a, their_addr := store_addr (sin_size s) (bytes a) (their_addr s),
              sin_size := stored a\<rparr>)"

definition handle_socket :: "host \<Rightarrow> int \<Rightarrow> server \<Rightarrow> (int option \<times> server) res" where
  "handle_socket H sockfd s =
     (let s1 = accept_client H sockfd s
      in if client_fd s1 = -1 then Inr (Some 1, tell (env_of H) (Perror ''accept'') s1)
         else if accepting_clients s1 = 0 then Inr (Some 2, run (env_of H) ''close'' [client_fd s1] [] s1)
         else let (t, s2) = inet_ntop (env_of H) (sa_family (their_addr s1)) (their_addr s1) (addr_text s1) s1;
                  s3 = xprintf H ''server: got connection from %s'' [] [t] (s2\<lparr>addr_text := t\<rparr>)
              in andThen (add_client H s3) (\<lambda>s4. Inr (None, s4)))"

section \<open>Loading a file\<close>

text \<open>
  Opening the file answers with what it holds. When it cannot be opened, the file loaded before is
  lost: \<open>mfile\<close> becomes a null pointer.
\<close>

definition handle_load :: "host \<Rightarrow> string \<Rightarrow> server \<Rightarrow> (int \<times> server) res" where
  "handle_load H filepath s =
     (let E = env_of H; (ok, s1) = get E ''fluid_is_midifile'' [] [filepath] s in
      if ok = 0 then Inr (-1, eprintf H ''%s is not a midi file'' [] [filepath] s1)
      else let (f, s2) = ask E (Call ''fopen'' [] [filepath, ''r'']) s1 in
        andThen (Mfile_from_file (build_of H) (\<lambda>p. if ret f = 0 then None else Some (bytes f))
            (chars filepath) (midi_state s2) (reader_state s2)) (\<lambda>(m, r, t).
          let s3 = s2\<lparr>mfile := m, midi_state := r, reader_state := t\<rparr> in
          if m = None then Inr (-1, eprintf H ''Failed to load midi file: %s'' [] [filepath] s3)
          else Inr (0, s3)))"

section \<open>Files for the clients\<close>

definition S_ISDIR :: "int \<Rightarrow> bool" where
  "S_ISDIR m \<longleftrightarrow> (m div 0x1000) mod 16 = 4"

text \<open>
  The directory's name is written into one byte less than it needs. \<open>errno = ENOENT\<close> is an assignment: a
  failing \<open>stat\<close> always leads to \<open>mkdir\<close>.
\<close>

definition tmp_dir_name :: "host \<Rightarrow> server \<Rightarrow> (string \<times> server) res" where
  "tmp_dir_name H s = (case tmp_dir s of
      Some d \<Rightarrow> Inr (d, s)
    | None \<Rightarrow>
        (let (a, s1) = ask (env_of H) (Call ''getcwd'' [0, 0] []) s; wd = str a in
         if ret a = 0 then Inl Null_Deref
         else if usable_of H (length wd + 5) < length wd + 6 then Inl Out_Of_Bounds
         else Inr (wd @ ''/tmp/'', run (env_of H) ''free'' [ret a] [] (s1\<lparr>tmp_dir := Some (wd @ ''/tmp/'')\<rparr>))))"

definition make_tmp_dir :: "host \<Rightarrow> server \<Rightarrow> server res" where
  "make_tmp_dir H s =
     andThen (tmp_dir_name H s) (\<lambda>(d, s1).
       let (a, s2) = ask (env_of H) (Call ''stat'' [] [d]) s1 in
       if ret a = -1 then Inr (run (env_of H) ''mkdir'' [417] [d] s2)
       else if \<not> S_ISDIR (stored a)
       then Inl (Exit 1 ''Please remove the file with name 'tmp' since a dir with this name needs to be created'')
       else Inr s2)"

text \<open>
  Writing the files, from the \<open>i\<close>-th on. \<open>stored\<close> of opening a file for writing is the room for it.
\<close>

fun write_out_files :: "host \<Rightarrow> Mfile list \<Rightarrow> int \<Rightarrow> server \<Rightarrow> server res" where
  "write_out_files H [] i s = Inr s"
| "write_out_files H (m # ms) i s =
     andThen (out_name_in_buffer i) (\<lambda>fname.
     andThen (case tmp_dir s of None \<Rightarrow> Inl Null_Deref | Some d \<Rightarrow> Inr (d @ fname)) (\<lambda>absfname.
       let (a, s1) = ask (env_of H) (Call ''fopen'' [] [absfname, ''w'']) s in
       andThen (Mfile_write_to_midi (store_of s1) m (if ret a = 0 then None else Some (new_stream (nat (stored a))))) (\<lambda>f.
         write_out_files H ms (i + 1)
           (s1\<lparr>disk := (disk s1)(absfname \<mapsto> fdata f), midi_out_names := midi_out_names s1 @ [absfname]\<rparr>))))"

definition create_midi_files :: "host \<Rightarrow> server \<Rightarrow> server res" where
  "create_midi_files H s =
     (let s1 = xprintf H ''server: no longer accepting connections'' [] [] (s\<lparr>accepting_clients := 0\<rparr>);
          s2 = s1\<lparr>midi_ready := 0\<rparr>
      in andThen (assert_c (build_of H) (mfile s2 \<noteq> None)) (\<lambda>_.
         andThen (client_list s2) (\<lambda>l.
         andThen (case mfile s2 of None \<Rightarrow> Inl Null_Deref | Some m \<Rightarrow> Inr m) (\<lambda>m.
         andThen (Mfile_split_by_tracks (build_of H) (usable_of H) (store_of s2) m (tl_len l)) (\<lambda>(h, out).
           let s3 = (if out = None then tell (env_of H) (Print (sys_warning
                 ''Cannot split midi file of type 0 by tracks. Try splitting by channels'')) s2 else s2) in
           andThen (make_tmp_dir H (set_store h s3)) (\<lambda>s4.
             case out of
               None \<Rightarrow> if 0 < tl_len l then Inl Null_Deref else Inr (s4\<lparr>midi_out_names := []\<rparr>)
             | Some ms \<Rightarrow> write_out_files H ms 0 (s4\<lparr>midi_out_names := []\<rparr>)))))))"

section \<open>Commands\<close>

text \<open>
  \<open>midi_ready_cond\<close> and its mutex are variables of the server; the barrier counts the clients and the
  server, and is made once in the life of the process. \<open>bd_noplay\<close>: the server itself stays silent.
\<close>

definition play_alone :: "host \<Rightarrow> Mfile \<Rightarrow> server \<Rightarrow> server res" where
  "play_alone H m s =
     (let s1 = printf H ''No clients connected, playing on server only'' [] [] s;
          s2 = player_setup (fluid H) (env_of H) s1
      in case fullpath m of
           None \<Rightarrow> Inl Null_Deref
         | Some path \<Rightarrow>
             let s3 = player_add_midi_file (env_of H) (text_of path) s2
             in Inr (if bd_noplay (build_of H) then s3 else player_play (env_of H) s3))"

definition release_files :: "host \<Rightarrow> int \<Rightarrow> server \<Rightarrow> server" where
  "release_files H nclients s =
     (let s1 = (run (env_of H) ''pthread_mutex_lock'' [] [''midi_ready_cond_mutex''] s)\<lparr>midi_ready := 1\<rparr>;
          s2 = (if barrier_initialized s1 = 0 then
                  (printf H ''barrier init with %d thread'' [nclients + 1] []
                    (run (env_of H) ''pthread_barrier_init'' [nclients + 1] [''midi_play_barrier''] s1))\<lparr>barrier_initialized := 1\<rparr>
                else s1);
          s3 = run (env_of H) ''pthread_cond_broadcast'' [] [''midi_ready_cond''] s2
      in run (env_of H) ''pthread_mutex_unlock'' [] [''midi_ready_cond_mutex''] s3)"

definition play_along :: "host \<Rightarrow> Mfile \<Rightarrow> server \<Rightarrow> server res" where
  "play_along H m s =
     (if bd_noplay (build_of H) then Inr s
      else case fullpath m of
          None \<Rightarrow> Inl Null_Deref
        | Some path \<Rightarrow> Inr (player_add_midi_file (env_of H) (text_of path)
            (player_setup (fluid H) (env_of H) (xprintf H ''server play!'' [] [] s))))"

definition handle_play :: "host \<Rightarrow> server \<Rightarrow> (int \<times> server) res" where
  "handle_play H s = (case mfile s of
      None \<Rightarrow> Inr (-1, eprintf H ''File not loaded'' [] [] s)
    | Some m \<Rightarrow>
        andThen (client_list s) (\<lambda>l.
          if tl_len l = 0 then andThen (play_alone H m s) (\<lambda>s1. Inr (1, s1))
          else andThen (create_midi_files H s) (\<lambda>s1.
               andThen (play_along H m (release_files H (tl_len l) s1)) (\<lambda>s2.
                 let s3 = tell (env_of H) (Print (puts ''before wait'')) s2;
                     s4 = run (env_of H) ''pthread_barrier_wait'' [] [''midi_play_barrier''] s3
                 in Inr (1, tell (env_of H) (Print (puts ''after wait!'')) s4)))))"

definition handle_pause :: "host \<Rightarrow> server \<Rightarrow> int \<times> server" where
  "handle_pause H s = (0, player_pause (env_of H) s)"

definition handle_resume :: "host \<Rightarrow> server \<Rightarrow> int \<times> server" where
  "handle_resume H s = (0, player_play (env_of H) s)"

definition handle_loop :: "host \<Rightarrow> server \<Rightarrow> int \<times> server" where
  "handle_loop H s = (0, player_setloop (env_of H) 1 s)"

definition handle_noloop :: "host \<Rightarrow> server \<Rightarrow> int \<times> server" where
  "handle_noloop H s = (0, player_setloop (env_of H) 0 s)"

definition handle_restart :: "host \<Rightarrow> server \<Rightarrow> int \<times> server" where
  "handle_restart H s = (0, player_restart (env_of H) s)"

fun isnum :: "string \<Rightarrow> bool" where
  "isnum [] = True"
| "isnum (c # s) = (if \<not> isdigit c then False else isnum s)"

text \<open>\<open>atoi\<close> on a string of digits: what \<open>strtol\<close> gives, cut to an \<open>int\<close> (as the GNU library does).\<close>

definition atoi :: "string \<Rightarrow> int" where
  "atoi s = s32 (min (2 ^ 63 - 1) (int (digits_val 0 s)))"

text \<open>An \<open>int\<close> product, which must not overflow.\<close>

definition int_mul :: "int \<Rightarrow> int \<Rightarrow> int res" where
  "int_mul a b = (if - (2 ^ 31) \<le> a * b \<and> a * b < 2 ^ 31 then Inr (a * b) else Inl Signed_Overflow)"

definition handle_seek :: "host \<Rightarrow> string \<Rightarrow> server \<Rightarrow> (int \<times> server) res" where
  "handle_seek H val s =
     (if val = [] then Inl Out_Of_Bounds
      else if last val = CHR ''%'' then
        (let num = butlast val in
         if \<not> isnum num then Inr (-1, eprintf H ''Not a valid percentage'' [] [] s)
         else let p = atoi num in
           if p > 100 \<or> p < 0 then Inr (-1, eprintf H ''Percentage must be < 100 and > 0'' [] [] s)
           else let (n, s1) = player_get_total_ticks (env_of H) s in
             andThen (int_mul p n) (\<lambda>x. andThen (c_div x 100) (\<lambda>tick.
               Inr (0, player_seek (env_of H) tick s1))))
      else if \<not> isnum val then Inr (-1, eprintf H ''Not a valid tick number'' [] [] s)
      else Inr (0, player_seek (env_of H) (atoi val) s))"

definition status_line :: "int \<Rightarrow> string" where
  "status_line status =
     (if status = 0 then ''-- Player is ready'' else if status = 1 then ''-- Player is playing''
      else if status = 2 then ''-- Player has been stopped''
      else '' * More status will be displayed when player starts'')"

definition show_position :: "host \<Rightarrow> server \<Rightarrow> server res" where
  "show_position H s =
     (let (cur_tick, s1) = player_get_cur_tick (env_of H) s;
          (total_ticks, s2) = player_get_total_ticks (env_of H) s1
      in andThen (int_mul 100 cur_tick) (\<lambda>x. andThen (c_div x total_ticks) (\<lambda>p.
           Inr (printf H ''-- Current playback position: %d / %d ticks, %d%%'' [cur_tick, total_ticks, p] [] s2))))"

definition handle_status :: "host \<Rightarrow> server \<Rightarrow> (int \<times> server) res" where
  "handle_status H s =
     andThen (client_list s) (\<lambda>l.
       let s1 = printf H ''-- Num clients: %d'' [tl_len l] [] s;
           s2 = (case mfile s1 of None \<Rightarrow> s1
             | Some m \<Rightarrow> printf H ''-- Midi file loaded: %s'' [] [case filename m of None \<Rightarrow> ''(null)'' | Some n \<Rightarrow> text_of n] s1)
       in andThen (player_get_status (build_of H) (fluid H) (env_of H) s2) (\<lambda>(status, s3).
          let s4 = tell (env_of H) (Print (puts (status_line status))) s3
          in if status \<noteq> -1 then andThen (show_position H s4) (\<lambda>s5. Inr (1, s5)) else Inr (1, s4)))"

fun cancel_all :: "host \<Rightarrow> nat \<Rightarrow> addr option \<Rightarrow> server \<Rightarrow> server res" where
  "cancel_all H fuel None s = Inr s"
| "cancel_all H 0 (Some a) s = Inl Diverges"
| "cancel_all H (Suc fuel) (Some a) s =
     andThen (get_node (threads s) a) (\<lambda>n.
       cancel_all H fuel (nextn n) (run (env_of H) ''pthread_cancel'' [thread n] [] s))"

definition cancel_clients :: "host \<Rightarrow> server \<Rightarrow> server res" where
  "cancel_clients H s = (case clients s of
      None \<Rightarrow> Inr s
    | Some a \<Rightarrow>
        andThen (client_list s) (\<lambda>l. andThen (cancel_all H (Suc (tbrk (threads s))) (tl_first l) s) (\<lambda>s1.
        andThen (free_list_cell (threads s1) a) (\<lambda>h. Inr (s1\<lparr>threads := h\<rparr>)))))"

text \<open>The list and the file are freed; the variables keep pointing to them.\<close>

definition handle_quit :: "host \<Rightarrow> server \<Rightarrow> (int \<times> server) res" where
  "handle_quit H s =
     andThen (cancel_clients H (tell (env_of H) (Print (puts ''Cleaning server'')) s)) (\<lambda>s1.
     andThen (case mfile s1 of None \<Rightarrow> Inr s1
         | Some m \<Rightarrow> andThen (free_Mfile (store_of s1) m) (\<lambda>h. Inr (set_store h s1))) (\<lambda>s2.
       let s3 = run (env_of H) ''pthread_cond_destroy'' [] [''midi_ready_cond''] s2;
           s4 = run (env_of H) ''pthread_mutex_destroy'' [] [''midi_ready_cond_mutex''] s3;
           s5 = (if barrier_initialized s4 \<noteq> 0
                 then run (env_of H) ''pthread_barrier_destroy'' [] [''midi_play_barrier''] s4 else s4);
           s6 = player_cleanup (env_of H) s5
       in Inr (2, run (env_of H) ''rl_callback_handler_remove'' [] [] (s6\<lparr>running := 0\<rparr>))))"

text \<open>No \<open>return\<close> statement; the result is never used.\<close>

definition handle_reconnect :: "host \<Rightarrow> server \<Rightarrow> server res" where
  "handle_reconnect H s = andThen (clear_connections s) (\<lambda>s1. Inr (setup_connections H s1))"

section \<open>The table of commands\<close>

text \<open>The structure of \<open>shell.h\<close> and the table of \<open>shell.c\<close>; a function pointer is one of the handlers.\<close>

datatype command = Handle_Load | Handle_Play | Handle_Pause | Handle_Resume | Handle_Restart | Handle_Seek
  | Handle_Loop | Handle_Noloop | Handle_Status | Handle_Quit | Handle_Reconnect | Handle_Help

record cmd =
  cmd_name :: string
  num_args :: int
  desc :: string
  fn :: command

definition cmds :: "cmd list" where
  "cmds =
    [\<lparr>cmd_name = ''load'', num_args = 1, desc = ''load [*.mid] - load a midi file'', fn = Handle_Load\<rparr>,
     \<lparr>cmd_name = ''play'', num_args = 0,
       desc = ''stop accepting new connections and start playing midi file; file has to be loaded'', fn = Handle_Play\<rparr>,
     \<lparr>cmd_name = ''pause'', num_args = 0, desc = ''pause midi playback'', fn = Handle_Pause\<rparr>,
     \<lparr>cmd_name = ''resume'', num_args = 0, desc = ''resume midi playback'', fn = Handle_Resume\<rparr>,
     \<lparr>cmd_name = ''restart'', num_args = 0, desc = ''restart midi playback with current clients'', fn = Handle_Restart\<rparr>,
     \<lparr>cmd_name = ''seek'', num_args = 1,
       desc = CHR 0x27 # ''seek [tick] | [percent]%' - seek playback to a certain tick or percentage'', fn = Handle_Seek\<rparr>,
     \<lparr>cmd_name = ''loop'', num_args = 0, desc = ''loop midi playback'', fn = Handle_Loop\<rparr>,
     \<lparr>cmd_name = ''noloop'', num_args = 0, desc = ''don't loop midi playback'', fn = Handle_Noloop\<rparr>,
     \<lparr>cmd_name = ''status'', num_args = 0, desc = ''print current status of server'', fn = Handle_Status\<rparr>,
     \<lparr>cmd_name = ''quit'', num_args = 0, desc = ''quit'', fn = Handle_Quit\<rparr>,
     \<lparr>cmd_name = ''exit'', num_args = 0, desc = ''quit'', fn = Handle_Quit\<rparr>,
     \<lparr>cmd_name = ''reconnect'', num_args = 0, desc = ''close all current clients and connect new ones'', fn = Handle_Reconnect\<rparr>,
     \<lparr>cmd_name = ''help'', num_args = 0, desc = ''print help message'', fn = Handle_Help\<rparr>]"

definition cmds_len :: nat where
  "cmds_len = length cmds"

definition handle_help :: "host \<Rightarrow> server \<Rightarrow> server" where
  "handle_help H s =
     (let s1 = printf H ''Available commands:'' [] [] s;
          s2 = fold (\<lambda>i. printf H (''%s'' @ [CHR 0x09, CHR 0x09] @ ''%s'') [] [cmd_name (cmds ! i), desc (cmds ! i)])
                 [0..<cmds_len] s1
      in printf H [CHR 0x0A] [] [] s2)"

declare tlist_ok.simps [simp del]

section \<open>The clients of the server\<close>

text \<open>The fields of the server that a call to the library leaves alone.\<close>

lemma server_tell [simp]:
  "sin_size (tell E c s) = sin_size s" "addr_text (tell E c s) = addr_text s" "client_fd (tell E c s) = client_fd s"
  "their_addr (tell E c s) = their_addr s" "midi_ready (tell E c s) = midi_ready s"
  "barrier_initialized (tell E c s) = barrier_initialized s" "clients (tell E c s) = clients s"
  "threads (tell E c s) = threads s" "accepting_clients (tell E c s) = accepting_clients s" "tid (tell E c s) = tid s"
  "mfile (tell E c s) = mfile s" "midi_out_names (tell E c s) = midi_out_names s" "tmp_dir (tell E c s) = tmp_dir s"
  "running (tell E c s) = running s" "disk (tell E c s) = disk s" "midi_state (tell E c s) = midi_state s"
  "reader_state (tell E c s) = reader_state s"
  by (simp_all add: tell_def ask_def Let_def)

lemma server_my_rl_printf [simp]:
  "threads (my_rl_printf E m s) = threads s" "clients (my_rl_printf E m s) = clients s" "tid (my_rl_printf E m s) = tid s"
  "mfile (my_rl_printf E m s) = mfile s" "reader_state (my_rl_printf E m s) = reader_state s"
  "tmp_dir (my_rl_printf E m s) = tmp_dir s" "disk (my_rl_printf E m s) = disk s" "client_fd (my_rl_printf E m s) = client_fd s"
  "midi_out_names (my_rl_printf E m s) = midi_out_names s" "barrier_initialized (my_rl_printf E m s) = barrier_initialized s"
  "accepting_clients (my_rl_printf E m s) = accepting_clients s" "midi_ready (my_rl_printf E m s) = midi_ready s" "sin_size (my_rl_printf E m s) = sin_size s"
  by (simp_all add: my_rl_printf_def Let_def sys split_beta)

lemmas server_prints = xprintf_def printf_def eprintf_def

text \<open>
  The invariant of the list of clients: the list is in order, each thread has an argument of its own, and
  the clients are numbered from 0 in the order they came; \<open>tid\<close> is the next number.
\<close>

definition served :: "theap \<Rightarrow> tlist \<Rightarrow> (int \<times> s_thread_arg) list" where
  "served h l = map (\<lambda>(t, x). (t, the (thread_args h x))) (threads_of h l)"

definition cells_ok :: "theap \<Rightarrow> bool" where
  "cells_ok h \<longleftrightarrow> (\<forall>a \<ge> tbrk h. nodes h a = None \<and> thread_args h a = None \<and> lists h a = None)"

definition conns_ok :: "theap \<Rightarrow> addr option \<Rightarrow> int \<Rightarrow> bool" where
  "conns_ok h c n \<longleftrightarrow> cells_ok h \<and> (\<exists>a l. c = Some a \<and> lists h a = Some l \<and> tlist_ok (h, l)
     \<and> distinct (map snd (threads_of h l)) \<and> (\<forall>(t, x) \<in> set (threads_of h l). thread_args h x \<noteq> None)
     \<and> map (arg_tid \<circ> snd) (served h l) = map int [0..<length (members h l)] \<and> n = int (length (members h l)))"

abbreviation clients_ok :: "server \<Rightarrow> bool" where
  "clients_ok s \<equiv> conns_ok (threads s) (clients s) (tid s)"

lemma theap_ok_cells: "cells_ok h \<Longrightarrow> theap_ok h"
  by (simp add: cells_ok_def theap_ok_def)

lemma tlist_ok_rep:
  "tlist_ok (h, l) \<longleftrightarrow> theap_ok h \<and> tchain h (tl_first l) (members h l) \<and> distinct (members h l)
     \<and> tl_len l = int (length (members h l)) \<and> (members h l \<noteq> [] \<longrightarrow> tl_last l = Some (last (members h l)))"
  by (simp add: tlist_ok.simps Let_def)

text \<open>Allocating something else does not disturb the list.\<close>

lemma tlist_frame:
  assumes "tlist_ok (h, l)" "nodes h' = nodes h" "tbrk h \<le> tbrk h'"
  shows "tlist_ok (h', l) \<and> members h' l = members h l \<and> threads_of h' l = threads_of h l"
proof -
  have t: "theap_ok h" "tchain h (tl_first l) (members h l)" "distinct (members h l)"
    "tl_len l = int (length (members h l))" "members h l \<noteq> [] \<Longrightarrow> tl_last l = Some (last (members h l))"
    using assms(1) by (simp_all add: tlist_ok_rep)
  have "tchain h' (tl_first l) (members h l)" using t(2) assms(2) tchain_frame [of "members h l" h' h] by simp
  moreover have "theap_ok h'" using t(1) assms(2,3) by (simp add: theap_ok_def)
  ultimately have "tlist_ok (h', l)" "members h' l = members h l"
    using tlist_okI [OF _ _ t(3-5)] by blast+
  then show ?thesis by (simp add: threads_of_def assms(2))
qed

lemma conns_ok_empty:
  assumes "cells_ok h"
  shows "conns_ok (fst (new_tlist h)) (Some (snd (new_tlist h))) 0"
proof -
  let ?l = "\<lparr>tl_first = None, tl_last = None, tl_len = 0\<rparr>"
  have "cells_ok (fst (new_tlist h))" using assms by (auto simp: cells_ok_def new_tlist_def)
  moreover have "tlist_ok (fst (new_tlist h), ?l)" "members (fst (new_tlist h)) ?l = []"
    using tlist_okI [OF theap_ok_cells [OF calculation], of ?l "[]"] by simp_all
  ultimately show ?thesis by (simp add: conns_ok_def new_tlist_def threads_of_def served_def)
qed

lemma setup_connections_ok: "cells_ok (threads s) \<Longrightarrow> clients_ok (setup_connections H s)"
  using conns_ok_empty [of "threads s"]
  by (simp add: setup_connections_def Let_def split_beta server_prints)

lemma conns_ok_add:
  assumes c: "conns_ok h (Some a) n" and l: "lists h a = Some l" and x: "arg_tid x = n"
  shows "\<exists>h1 b h2 l'. alloc_arg h x = (h1, b) \<and> get_list h1 (Some a) = Inr l
    \<and> add_thread (h1, l) (th, b) = Inr (h2, l') \<and> tl_len l' = n + 1
    \<and> conns_ok (h2\<lparr>lists := (lists h2)(a \<mapsto> l')\<rparr>) (Some a) (n + 1)
    \<and> served (h2\<lparr>lists := (lists h2)(a \<mapsto> l')\<rparr>) l' = served h l @ [(th, x)]"
proof -
  let ?b = "tbrk h" and ?h1 = "h\<lparr>thread_args := (thread_args h)(tbrk h \<mapsto> x), tbrk := Suc (tbrk h)\<rparr>"
  have inv: "cells_ok h" "tlist_ok (h, l)" "distinct (map snd (threads_of h l))"
    "\<forall>(t, y) \<in> set (threads_of h l). thread_args h y \<noteq> None"
    "map (arg_tid \<circ> snd) (served h l) = map int [0..<length (members h l)]" "n = int (length (members h l))"
    using c l by (auto simp: conns_ok_def)
  have al: "alloc_arg h x = (?h1, ?b)" by (simp add: alloc_arg_def)
  have f: "tlist_ok (?h1, l)" "members ?h1 l = members h l" "threads_of ?h1 l = threads_of h l"
    using tlist_frame [OF inv(2), of ?h1] by simp_all
  from add_thread_ok [OF f(1), of th ?b] obtain h2 l' where A: "add_thread (?h1, l) (th, ?b) = Inr (h2, l')"
    "tlist_ok (h2, l')" "threads_of h2 l' = threads_of h l @ [(th, ?b)]" "thread_args h2 = thread_args ?h1"
    "lists h2 = lists ?h1" "tl_len l' = tl_len l + 1" "tbrk h2 = Suc (tbrk ?h1)"
    unfolding f(3) by blast
  let ?h3 = "h2\<lparr>lists := (lists h2)(a \<mapsto> l')\<rparr>"
  have g: "tlist_ok (?h3, l')" "members ?h3 l' = members h2 l'" "threads_of ?h3 l' = threads_of h l @ [(th, ?b)]"
    using tlist_frame [OF A(2), of ?h3] A(3) by simp_all
  have old: "y \<noteq> ?b" if "(t, y) \<in> set (threads_of h l)" for t y
    using that inv(1,4) by (fastforce simp: cells_ok_def)
  have "served ?h3 l' = map (\<lambda>(t, y). (t, the (thread_args h2 y))) (threads_of h l) @ [(th, x)]"
    by (simp add: served_def g(3) A(4))
  also have "map (\<lambda>(t, y). (t, the (thread_args h2 y))) (threads_of h l) = served h l"
    unfolding served_def A(4) by (rule map_cong) (auto dest: old)
  finally have sv: "served ?h3 l' = served h l @ [(th, x)]" .
  have len: "length (members ?h3 l') = Suc (length (members h l))"
    using arg_cong [OF g(3), of length] by (simp add: threads_of_def)
  have "a < tbrk h" using l inv(1) by (metis cells_ok_def linorder_not_le option.distinct(1))
  moreover have "theap_ok h2" using A(2) by (simp add: tlist_ok_rep)
  ultimately have "cells_ok ?h3"
    using inv(1) A(4,5,7) by (auto simp: cells_ok_def theap_ok_def)
  moreover have "distinct (map snd (threads_of ?h3 l'))" unfolding g(3) using inv(3) old by force
  moreover have "\<forall>(t, y) \<in> set (threads_of ?h3 l'). thread_args ?h3 y \<noteq> None"
    unfolding g(3) using inv(4) A(4) by auto
  moreover have "map (arg_tid \<circ> snd) (served ?h3 l') = map int [0..<length (members ?h3 l')]"
    unfolding sv len using inv(5,6) x by simp
  ultimately have "conns_ok ?h3 (Some a) (n + 1)"
    using g(1) len inv(6) by (auto simp: conns_ok_def)
  moreover have "tl_len l' = n + 1" using A(6) inv(2,6) by (simp add: tlist_ok_rep)
  moreover have "get_list ?h1 (Some a) = Inr l" using l by (simp add: get_list_def)
  ultimately show ?thesis using al A(1) sv by blast
qed

definition client_arg :: "server \<Rightarrow> s_thread_arg" where
  "client_arg s = \<lparr>socket = client_fd s, arg_tid = tid s, midi_ready_ptr = ''midi_ready'',
     midi_ready_cond = ''midi_ready_cond'', midi_ready_cond_mutex = ''midi_ready_cond_mutex'',
     midi_play_barrier = ''midi_play_barrier''\<rparr>"

definition clients_of :: "server \<Rightarrow> (int \<times> s_thread_arg) list" where
  "clients_of s = (case clients s of None \<Rightarrow> [] | Some a \<Rightarrow> (case lists (threads s) a of None \<Rightarrow> []
     | Some l \<Rightarrow> served (threads s) l))"

lemma clients_of_cong: "clients s' = clients s \<Longrightarrow> threads s' = threads s \<Longrightarrow> clients_of s' = clients_of s"
  by (simp add: clients_of_def split: option.split)

lemma clients_of_tell [simp]: "clients_of (tell E c s) = clients_of s"
  by (rule clients_of_cong) simp_all

lemma clients_of_my_rl_printf [simp]: "clients_of (my_rl_printf E m s) = clients_of s"
  by (rule clients_of_cong) simp_all

lemma add_client_ok:
  assumes ok: "clients_ok s" and r: "add_client H s = Inr s'"
  shows "clients_ok s' \<and> (\<exists>th. clients_of s' = clients_of s @ [(th, client_arg s)]) \<and> tid s' = tid s + 1
    \<and> mfile s' = mfile s \<and> reader_state s' = reader_state s \<and> midi_ready s' = midi_ready s
    \<and> accepting_clients s' = accepting_clients s \<and> barrier_initialized s' = barrier_initialized s"
proof -
  obtain a l where a: "clients s = Some a" "lists (threads s) a = Some l"
    using ok by (auto simp: conns_ok_def)
  let ?E = "env_of H"
  let ?s1 = "run ?E ''malloc'' [40] [] s"
  obtain h1 b where al: "alloc_arg (threads s) (client_arg s) = (h1, b)" by (cases "alloc_arg (threads s) (client_arg s)")
  from r al obtain th s2 where T: "new_server_thread ?E b (?s1\<lparr>threads := h1\<rparr>) = Inr (th, s2)"
    by (auto simp: add_client_def sys Let_def client_arg_def res_iff split: if_splits)
  have s2: "s2 = run ?E ''pthread_create'' [int b] [''server_thread''] (?s1\<lparr>threads := h1\<rparr>)"
    using T by (simp add: new_server_thread_def sys Let_def split: if_splits)
  have "arg_tid (client_arg s) = tid s" by (simp add: client_arg_def)
  from conns_ok_add [OF ok [unfolded a(1)] a(2) this, of th] al obtain h2 l' where C:
    "get_list h1 (Some a) = Inr l" "add_thread (h1, l) (th, b) = Inr (h2, l')" "tl_len l' = tid s + 1"
    "conns_ok (h2\<lparr>lists := (lists h2)(a \<mapsto> l')\<rparr>) (Some a) (tid s + 1)"
    "served (h2\<lparr>lists := (lists h2)(a \<mapsto> l')\<rparr>) l' = served (threads s) l @ [(th, client_arg s)]" by auto
  let ?hn = "h1\<lparr>nodes := (nodes h1)(tbrk h1 \<mapsto> \<lparr>thread = th, arg = b, nextn = None\<rparr>), tbrk := Suc (tbrk h1)\<rparr>"
  have n: "new_tnode True h1 th b = Inr (?hn, tbrk h1)" by (simp add: new_tnode_def)
  have app: "append_tnode ?hn l (tbrk h1) = Inr (h2, l')" using C(2) n by simp
  have gl: "get_list ?hn (Some a) = Inr l" using C(1) by (simp add: get_list_def split: option.splits)
  let ?s3 = "run ?E ''malloc'' [24] [] s2"
  have s3: "threads ?s3 = h1" "clients ?s3 = Some a" "tid ?s3 = tid s" "mfile ?s3 = mfile s" "reader_state ?s3 = reader_state s"
    "midi_ready ?s3 = midi_ready s" "accepting_clients ?s3 = accepting_clients s" "barrier_initialized ?s3 = barrier_initialized s"
    by (simp_all add: s2 a(1))
  have "s' = (xprintf H ''num threads: %d'' [tl_len l'] [] (?s3\<lparr>threads := h2\<lparr>lists := (lists h2)(a \<mapsto> l')\<rparr>\<rparr>))\<lparr>tid := tid s + 1\<rparr>"
    using r al T n app gl s3
    by (auto simp: add_client_def sys Let_def client_arg_def a(1) new_tnode_def server_prints split: if_splits)
  then show ?thesis
    using C(3-5) a s3 by (simp add: server_prints clients_of_def conns_ok_def) 
qed

lemma handle_socket_ok:
  assumes ok: "clients_ok s" and r: "handle_socket H fd s = Inr (x, s')"
  shows "clients_ok s' \<and> mfile s' = mfile s \<and> reader_state s' = reader_state s \<and> midi_ready s' = midi_ready s
    \<and> accepting_clients s' = accepting_clients s \<and> barrier_initialized s' = barrier_initialized s
    \<and> (x \<noteq> None \<and> clients_of s' = clients_of s \<or> x = None \<and> accepting_clients s \<noteq> 0
         \<and> (\<exists>th a. clients_of s' = clients_of s @ [(th, a)] \<and> arg_tid a = tid s))"
proof -
  let ?E = "env_of H" and ?s1 = "accept_client H fd s"
  have s1: "threads ?s1 = threads s" "clients ?s1 = clients s" "tid ?s1 = tid s" "mfile ?s1 = mfile s"
    "reader_state ?s1 = reader_state s" "midi_ready ?s1 = midi_ready s" "accepting_clients ?s1 = accepting_clients s"
    "barrier_initialized ?s1 = barrier_initialized s"
    by (simp_all add: accept_client_def sys Let_def)
  have c1: "clients_of ?s1 = clients_of s" by (rule clients_of_cong) (simp_all add: s1)
  consider "x \<noteq> None" "\<exists>c. s' = tell ?E c ?s1"
    | t s2 where "x = None" "accepting_clients ?s1 \<noteq> 0" "add_client H (xprintf H ''server: got connection from %s'' [] [t] (s2\<lparr>addr_text := t\<rparr>)) = Inr s'"
      "\<exists>c. s2 = tell ?E c ?s1"
    using r by (auto simp: handle_socket_def inet_ntop_def sys Let_def res_iff split: if_splits)
  then show ?thesis
  proof cases
    case 1
    then show ?thesis using ok s1 c1 by auto
  next
    case 2
    let ?s3 = "xprintf H ''server: got connection from %s'' [] [t] (s2\<lparr>addr_text := t\<rparr>)"
    have s3: "threads ?s3 = threads s" "clients ?s3 = clients s" "tid ?s3 = tid s" "mfile ?s3 = mfile s"
      "reader_state ?s3 = reader_state s" "midi_ready ?s3 = midi_ready s" "accepting_clients ?s3 = accepting_clients s"
      "barrier_initialized ?s3 = barrier_initialized s"
      using 2(4) s1 by (auto simp: server_prints)
    have c3: "clients_of ?s3 = clients_of s" by (rule clients_of_cong) (simp_all add: s3)
    have "clients_ok ?s3" using ok s3 by simp
    from add_client_ok [OF this 2(3)] 2(1,2) s1(7) s3 c3 show ?thesis by (auto simp: client_arg_def)
  qed
qed

lemma handle_reconnect_ok:
  assumes ok: "clients_ok s" and r: "handle_reconnect H s = Inr s'"
  shows "clients_ok s' \<and> clients_of s' = [] \<and> midi_ready s' = midi_ready s \<and> accepting_clients s' = 1
    \<and> barrier_initialized s' = barrier_initialized s"
proof -
  obtain a l where a: "clients s = Some a" "lists (threads s) a = Some l" "tlist_ok (threads s, l)"
    "distinct (map snd (threads_of (threads s) l))" "\<forall>(t, x) \<in> set (threads_of (threads s) l). thread_args (threads s) x \<noteq> None"
    using ok by (auto simp: conns_ok_def)
  obtain h where h: "free_tlist (threads s) a = Inr h" "cells_ok h"
  proof -
    from free_tlist_ok [OF a(2-5)] ok show ?thesis
      by (intro that) (auto simp: dropped_def conns_ok_def cells_ok_def)
  qed
  then have s': "s' = setup_connections H (s\<lparr>threads := h, tid := 0\<rparr>)"
    using r a(1) by (simp add: handle_reconnect_def clear_connections_def)
  have "clients_ok s'" unfolding s' by (rule setup_connections_ok) (simp add: h(2))
  moreover have "tid s' = 0" "midi_ready s' = midi_ready s" "accepting_clients s' = 1"
      "barrier_initialized s' = barrier_initialized s" by (simp_all add: s' setup_connections_def Let_def split_beta server_prints)
  ultimately show ?thesis
    by (auto simp: clients_of_def conns_ok_def served_def threads_of_def)
qed

text \<open>Reconnecting always succeeds: nothing in the list is freed twice.\<close>

lemma handle_reconnect_succeeds: "clients_ok s \<Longrightarrow> \<exists>s'. handle_reconnect H s = Inr s'"
  unfolding conns_ok_def
  by (auto simp: handle_reconnect_def clear_connections_def free_tlist_ok)

text \<open>Memory and threads are to be had.\<close>

definition gives_threads :: "env \<Rightarrow> bool" where
  "gives_threads E \<longleftrightarrow> (\<forall>t n. ret (E t (Call ''malloc'' [n] [])) \<noteq> 0)
     \<and> (\<forall>t x. ret (E t (Call ''pthread_create'' [x] [''server_thread''])) = 0)"

lemma add_client_succeeds:
  assumes E: "gives_threads (env_of H)" and ok: "clients_ok s"
  shows "\<exists>s'. add_client H s = Inr s'"
proof -
  obtain a l where a: "clients s = Some a" "lists (threads s) a = Some l"
    using ok by (auto simp: conns_ok_def)
  let ?E = "env_of H"
  let ?s1 = "run ?E ''malloc'' [40] [] s"
  obtain h1 b where al: "alloc_arg (threads s) (client_arg s) = (h1, b)" by (cases "alloc_arg (threads s) (client_arg s)")
  have m: "ret (?E t (Call ''malloc'' [n] [])) \<noteq> 0" "ret (?E t (Call ''pthread_create'' [x] [''server_thread''])) = 0" for t n x
    using E by (simp_all add: gives_threads_def)
  from m(2) obtain th where T: "new_server_thread ?E b (?s1\<lparr>threads := h1\<rparr>)
      = Inr (th, run ?E ''pthread_create'' [int b] [''server_thread''] (?s1\<lparr>threads := h1\<rparr>))"
    by (simp add: new_server_thread_def sys Let_def)
  have "arg_tid (client_arg s) = tid s" by (simp add: client_arg_def)
  from conns_ok_add [OF ok [unfolded a(1)] a(2) this, of th] al obtain h2 l' where C:
    "get_list h1 (Some a) = Inr l" "add_thread (h1, l) (th, b) = Inr (h2, l')" by auto
  let ?hn = "h1\<lparr>nodes := (nodes h1)(tbrk h1 \<mapsto> \<lparr>thread = th, arg = b, nextn = None\<rparr>), tbrk := Suc (tbrk h1)\<rparr>"
  have n: "new_tnode True h1 th b = Inr (?hn, tbrk h1)" by (simp add: new_tnode_def)
  have app: "append_tnode ?hn l (tbrk h1) = Inr (h2, l')" using C(2) n by simp
  have gl: "get_list ?hn (Some a) = Inr l" using C(1) by (simp add: get_list_def split: option.splits)
  show ?thesis using m(1) al T n app gl a(1)
    by (auto simp: add_client_def sys Let_def client_arg_def)
qed

lemma handle_socket_succeeds:
  assumes E: "gives_threads (env_of H)" "\<And>t xs. ret (env_of H t (Call ''accept'' xs [])) \<noteq> -1"
    and ok: "clients_ok s" "accepting_clients s \<noteq> 0"
  shows "\<exists>s'. handle_socket H fd s = Inr (None, s')"
proof -
  let ?s1 = "accept_client H fd s"
  have s1: "clients_ok ?s1" "accepting_clients ?s1 \<noteq> 0" "client_fd ?s1 \<noteq> -1"
    using ok E(2) by (simp_all add: accept_client_def sys Let_def)
  obtain t s2 where i: "inet_ntop (env_of H) (sa_family (their_addr ?s1)) (their_addr ?s1) (addr_text ?s1) ?s1 = (t, s2)"
    by fastforce
  have "clients_ok s2" using i s1(1) by (auto simp: inet_ntop_def sys Let_def)
  then have "clients_ok (xprintf H ''server: got connection from %s'' [] [t] (s2\<lparr>addr_text := t\<rparr>))"
    by (simp add: server_prints)
  from add_client_succeeds [OF E(1) this] s1(2,3) i show ?thesis
    by (auto simp: handle_socket_def Let_def)
qed

section \<open>The files for the clients\<close>

lemma dec_inject: "0 \<le> i \<Longrightarrow> 0 \<le> j \<Longrightarrow> dec i = dec j \<longleftrightarrow> i = j"
  by (metis dec_def digits_val_dec_nat eq_nat_nat_iff linorder_not_le)

lemma out_name_inject: "0 \<le> i \<Longrightarrow> 0 \<le> j \<Longrightarrow> out_name i = out_name j \<longleftrightarrow> i = j"
  by (simp add: out_name_def dec_inject)

text \<open>The disk takes a file of a given name and length.\<close>

definition disk_takes :: "host \<Rightarrow> string \<Rightarrow> nat \<Rightarrow> bool" where
  "disk_takes H name n \<longleftrightarrow> (\<forall>t. ret (env_of H t (Call ''fopen'' [] [name, ''w''])) \<noteq> 0
     \<and> int n \<le> stored (env_of H t (Call ''fopen'' [] [name, ''w''])))"

lemma write_out_files_ok:
  assumes "tmp_dir s = Some d" "0 \<le> i" "i + int (length ms) \<le> 1000" "length bs = length ms"
    and "\<And>j. j < length ms \<Longrightarrow> disk_takes H (d @ out_name (i + int j)) (length (bs ! j))"
    and "\<And>j limit. j < length ms \<Longrightarrow> length (bs ! j) \<le> limit \<Longrightarrow>
      \<exists>g. Mfile_write_to_midi (store_of s) (ms ! j) (Some (new_stream limit)) = Inr g \<and> fdata g = bs ! j"
  shows "\<exists>s'. write_out_files H ms i s = Inr s' \<and> threads s' = threads s \<and> clients s' = clients s
    \<and> tid s' = tid s \<and> mfile s' = mfile s \<and> tmp_dir s' = tmp_dir s \<and> reader_state s' = reader_state s
    \<and> barrier_initialized s' = barrier_initialized s \<and> midi_ready s' = midi_ready s
    \<and> accepting_clients s' = accepting_clients s
    \<and> midi_out_names s' = midi_out_names s @ map (\<lambda>j. d @ out_name (i + int j)) [0..<length ms]
    \<and> (\<forall>j < length ms. disk s' (d @ out_name (i + int j)) = Some (bs ! j))
    \<and> (\<forall>j. 0 \<le> j \<and> j < i \<longrightarrow> disk s' (d @ out_name j) = disk s (d @ out_name j))"
  using assms
proof (induction ms arbitrary: i s bs)
  case Nil
  then show ?case by simp
next
  case (Cons m ms)
  then obtain b bs' where bs: "bs = b # bs'" by (cases bs) auto
  let ?E = "env_of H" and ?n = "d @ out_name i"
  let ?c = "Call ''fopen'' [] [?n, ''w'']"
  let ?s1 = "tell ?E ?c s"
  have name: "out_name_in_buffer i = Inr (out_name i)" using out_name_fits [of i] Cons.prems(2,3) by simp
  have takes: "ret (?E (trace s) ?c) \<noteq> 0" "length b \<le> nat (stored (?E (trace s) ?c))"
    using Cons.prems(5) [of 0] bs by (auto simp: disk_takes_def dest!: spec [of _ "trace s"])
  have st: "store_of ?s1 = store_of s" by (simp add: store_of_def)
  obtain g where g: "Mfile_write_to_midi (store_of s) m (Some (new_stream (nat (stored (?E (trace s) ?c))))) = Inr g" "fdata g = b"
    using Cons.prems(6) [of 0 "nat (stored (?E (trace s) ?c))"] bs takes(2) by auto
  let ?s2 = "?s1\<lparr>disk := (disk s)(?n \<mapsto> b), midi_out_names := midi_out_names s @ [?n]\<rparr>"
  have run: "write_out_files H (m # ms) i s = write_out_files H ms (i + 1) ?s2"
    using name Cons.prems(1) takes(1) g by (simp add: sys st)
  have "\<exists>s'. write_out_files H ms (i + 1) ?s2 = Inr s' \<and> threads s' = threads ?s2 \<and> clients s' = clients ?s2
    \<and> tid s' = tid ?s2 \<and> mfile s' = mfile ?s2 \<and> tmp_dir s' = tmp_dir ?s2 \<and> reader_state s' = reader_state ?s2
    \<and> barrier_initialized s' = barrier_initialized ?s2 \<and> midi_ready s' = midi_ready ?s2
    \<and> accepting_clients s' = accepting_clients ?s2
    \<and> midi_out_names s' = midi_out_names ?s2 @ map (\<lambda>j. d @ out_name (i + 1 + int j)) [0..<length ms]
    \<and> (\<forall>j < length ms. disk s' (d @ out_name (i + 1 + int j)) = Some (bs' ! j))
    \<and> (\<forall>j. 0 \<le> j \<and> j < i + 1 \<longrightarrow> disk s' (d @ out_name j) = disk ?s2 (d @ out_name j))"
  proof (rule Cons.IH)
    show "tmp_dir ?s2 = Some d" "0 \<le> i + 1" "i + 1 + int (length ms) \<le> 1000" "length bs' = length ms"
      using Cons.prems(1-4) bs by simp_all
    show "disk_takes H (d @ out_name (i + 1 + int j)) (length (bs' ! j))" if "j < length ms" for j
      using Cons.prems(5) [of "Suc j"] that bs by (simp add: algebra_simps)
    show "\<exists>g. Mfile_write_to_midi (store_of ?s2) (ms ! j) (Some (new_stream limit)) = Inr g \<and> fdata g = bs' ! j"
      if "j < length ms" "length (bs' ! j) \<le> limit" for j limit
      using Cons.prems(6) [of "Suc j" limit] that bs by (simp add: store_of_def)
  qed
  then obtain s' where R: "write_out_files H ms (i + 1) ?s2 = Inr s'" "threads s' = threads s" "clients s' = clients s"
    "tid s' = tid s" "mfile s' = mfile s" "tmp_dir s' = tmp_dir s" "reader_state s' = reader_state s"
    "barrier_initialized s' = barrier_initialized s" "midi_ready s' = midi_ready s \<and> accepting_clients s' = accepting_clients s"
    "midi_out_names s' = midi_out_names s @ [?n] @ map (\<lambda>j. d @ out_name (i + 1 + int j)) [0..<length ms]"
    "\<forall>j < length ms. disk s' (d @ out_name (i + 1 + int j)) = Some (bs' ! j)"
    "\<forall>j. 0 \<le> j \<and> j < i + 1 \<longrightarrow> disk s' (d @ out_name j) = ((disk s)(?n \<mapsto> b)) (d @ out_name j)" by auto
  have "disk s' (d @ out_name (i + int j)) = Some (bs ! j)" if "j < length (m # ms)" for j
    using R(11,12) Cons.prems(2) that bs by (cases j) (auto simp: algebra_simps)
  moreover have "disk s' (d @ out_name j) = disk s (d @ out_name j)" if "0 \<le> j" "j < i" for j
    using R(12) that Cons.prems(2) by (auto simp: out_name_inject)
  moreover have "map (\<lambda>j. d @ out_name (i + int j)) [0..<length (m # ms)]
      = ?n # map (\<lambda>j. d @ out_name (i + 1 + int j)) [0..<length ms]"
    by (simp add: upt_conv_Cons map_Suc_upt [symmetric] algebra_simps del: upt_Suc)
  ultimately show ?case using run R(1-10) by simp
qed

text \<open>
  The directory for the files can be used: its name is known, or the current directory is and \<open>malloc\<close>
  gives the byte more that the name needs; and what has that name, if anything, is a directory.
\<close>

definition dir_ready :: "host \<Rightarrow> string option \<Rightarrow> string \<Rightarrow> bool" where
  "dir_ready H known d \<longleftrightarrow> (case known of
       Some d' \<Rightarrow> d' = d
     | None \<Rightarrow> \<exists>wd. d = wd @ ''/tmp/'' \<and> length wd + 6 \<le> usable_of H (length wd + 5)
         \<and> (\<forall>t. ret (env_of H t (Call ''getcwd'' [0, 0] [])) \<noteq> 0 \<and> str (env_of H t (Call ''getcwd'' [0, 0] [])) = wd))
     \<and> (\<forall>t. ret (env_of H t (Call ''stat'' [] [d])) = -1 \<or> S_ISDIR (stored (env_of H t (Call ''stat'' [] [d]))))"

definition same_but_dir :: "server \<Rightarrow> server \<Rightarrow> bool" where
  "same_but_dir s' s \<longleftrightarrow> threads s' = threads s \<and> clients s' = clients s \<and> tid s' = tid s \<and> mfile s' = mfile s
     \<and> reader_state s' = reader_state s \<and> barrier_initialized s' = barrier_initialized s \<and> disk s' = disk s
     \<and> midi_out_names s' = midi_out_names s \<and> midi_ready s' = midi_ready s \<and> accepting_clients s' = accepting_clients s"

lemma same_but_dir_tell [simp]: "same_but_dir (tell E c s) s' = same_but_dir s s'"
  by (simp add: same_but_dir_def)

lemma make_tmp_dir_ok:
  assumes "dir_ready H (tmp_dir s) d"
  shows "\<exists>s'. make_tmp_dir H s = Inr s' \<and> tmp_dir s' = Some d \<and> same_but_dir s' s"
proof -
  obtain s1 where s1: "tmp_dir_name H s = Inr (d, s1)" "tmp_dir s1 = Some d" "same_but_dir s1 s"
  proof (cases "tmp_dir s")
    case None
    then obtain wd where wd: "d = wd @ ''/tmp/''" "length wd + 6 \<le> usable_of H (length wd + 5)"
      "\<forall>t. ret (env_of H t (Call ''getcwd'' [0, 0] [])) \<noteq> 0 \<and> str (env_of H t (Call ''getcwd'' [0, 0] [])) = wd"
      using assms by (auto simp: dir_ready_def)
    then show ?thesis using that None by (simp add: tmp_dir_name_def sys Let_def same_but_dir_def)
  next
    case (Some d')
    then show ?thesis using that assms by (simp add: tmp_dir_name_def dir_ready_def same_but_dir_def)
  qed
  have "ret (env_of H (trace s1) (Call ''stat'' [] [d])) = -1 \<or> S_ISDIR (stored (env_of H (trace s1) (Call ''stat'' [] [d])))"
    using assms by (simp add: dir_ready_def)
  then show ?thesis using s1 by (auto simp: make_tmp_dir_def sys Let_def)
qed

lemma same_but_dir_refl [simp]: "same_but_dir s s"
  by (simp add: same_but_dir_def)

text \<open>
  With a file of format 1 loaded and \<open>k\<close> clients, \<open>k \<le> 1000\<close>, the file of client \<open>i\<close> holds the \<open>i\<close>-th
  share of the tracks.
\<close>

lemma create_midi_files_ok:
  assumes c: "clients_ok s" "length (clients_of s) = k" "0 < k" "k \<le> 1000"
    and m: "mfile s = Some m" "loaded (store_of s) m division tss" "1 < length tss" "writable_file n tss"
    and B: "bd_accumulator (build_of H)" "4 * k \<le> usable_of H k"
    and d: "dir_ready H (tmp_dir s) d"
    and room: "\<And>i. i < k \<Longrightarrow> disk_takes H (d @ out_name (int i)) (length (part_bytes division tss k i))"
  shows "\<exists>s'. create_midi_files H s = Inr s' \<and> clients_ok s' \<and> clients_of s' = clients_of s \<and> mfile s' = Some m
    \<and> tmp_dir s' = Some d \<and> barrier_initialized s' = barrier_initialized s \<and> midi_ready s' = 0 \<and> accepting_clients s' = 0
    \<and> midi_out_names s' = map (\<lambda>i. d @ out_name (int i)) [0..<k]
    \<and> (\<forall>i < k. disk s' (d @ out_name (int i)) = Some (part_bytes division tss k i))"
proof -
  obtain a l where a: "clients s = Some a" "lists (threads s) a = Some l" "tlist_ok (threads s, l)"
    using c(1) by (auto simp: conns_ok_def)
  have "length (clients_of s) = length (members (threads s) l)" using a by (simp add: clients_of_def served_def threads_of_def)
  then have len: "tl_len l = int k" using a(3) c(2) by (simp add: tlist_ok_rep)
  let ?s2 = "(xprintf H ''server: no longer accepting connections'' [] [] (s\<lparr>accepting_clients := 0\<rparr>))\<lparr>midi_ready := 0\<rparr>"
  have s2: "threads ?s2 = threads s" "clients ?s2 = clients s" "mfile ?s2 = mfile s" "store_of ?s2 = store_of s"
    "tmp_dir ?s2 = tmp_dir s" "tid ?s2 = tid s" "barrier_initialized ?s2 = barrier_initialized s"
    "midi_ready ?s2 = 0" "accepting_clients ?s2 = 0"
    by (simp_all add: server_prints store_of_def)
  have cl: "client_list ?s2 = Inr l" using a(1,2) s2 by (simp add: client_list_def get_list_def)
  from split_loaded [where usable = "usable_of H", OF m(2,3) c(3) B(2,1)] obtain h ds where
    S: "Mfile_split_by_tracks (build_of H) (usable_of H) (store_of s) m (int k) = Inr (h, Some ds)" "length ds = k"
    "\<forall>i < k. dest_holds h 1 division (ds ! i) (map (items_from 0) (shares tss k i))" by blast
  have "dir_ready H (tmp_dir (set_store h ?s2)) d" using d s2 by (simp add: set_store_def)
  from make_tmp_dir_ok [OF this] obtain s4 where s4: "make_tmp_dir H (set_store h ?s2) = Inr s4" "tmp_dir s4 = Some d"
    "same_but_dir s4 (set_store h ?s2)" by blast
  let ?s5 = "s4\<lparr>midi_out_names := []\<rparr>" and ?bs = "map (part_bytes division tss k) [0..<k]"
  have st5: "store_of ?s5 = h" using s4(3) by (simp add: store_of_def same_but_dir_def set_store_def)
  have "\<exists>s'. write_out_files H ds 0 ?s5 = Inr s' \<and> threads s' = threads ?s5 \<and> clients s' = clients ?s5
    \<and> tid s' = tid ?s5 \<and> mfile s' = mfile ?s5 \<and> tmp_dir s' = tmp_dir ?s5 \<and> reader_state s' = reader_state ?s5
    \<and> barrier_initialized s' = barrier_initialized ?s5 \<and> midi_ready s' = midi_ready ?s5
    \<and> accepting_clients s' = accepting_clients ?s5
    \<and> midi_out_names s' = midi_out_names ?s5 @ map (\<lambda>j. d @ out_name (0 + int j)) [0..<length ds]
    \<and> (\<forall>j < length ds. disk s' (d @ out_name (0 + int j)) = Some (?bs ! j))
    \<and> (\<forall>j. 0 \<le> j \<and> j < 0 \<longrightarrow> disk s' (d @ out_name j) = disk ?s5 (d @ out_name j))"
  proof (rule write_out_files_ok)
    show "tmp_dir ?s5 = Some d" "(0::int) \<le> 0" "0 + int (length ds) \<le> 1000" "length ?bs = length ds"
      using s4(2) S(2) c(4) by simp_all
    show "disk_takes H (d @ out_name (0 + int j)) (length (?bs ! j))" if "j < length ds" for j
      using room [of j] that S(2) by simp
    show "\<exists>g. Mfile_write_to_midi (store_of ?s5) (ds ! j) (Some (new_stream limit)) = Inr g \<and> fdata g = ?bs ! j"
      if "j < length ds" "length (?bs ! j) \<le> limit" for j limit
      using write_share [OF _ m(3,4), of h division "ds ! j" k j limit] S(2,3) that st5 by simp
  qed
  then obtain s' where R: "write_out_files H ds 0 ?s5 = Inr s'" "threads s' = threads s4" "clients s' = clients s4"
    "tid s' = tid s4" "mfile s' = mfile s4" "tmp_dir s' = Some d" "barrier_initialized s' = barrier_initialized s4"
    "midi_ready s' = midi_ready s4 \<and> accepting_clients s' = accepting_clients s4"
    "midi_out_names s' = map (\<lambda>j. d @ out_name (int j)) [0..<k]"
    "\<forall>j < k. disk s' (d @ out_name (int j)) = Some (part_bytes division tss k j)"
    using s4(2) S(2) by auto
  have same: "threads s' = threads s" "clients s' = clients s" "tid s' = tid s" "mfile s' = Some m"
    "barrier_initialized s' = barrier_initialized s" "midi_ready s' = 0" "accepting_clients s' = 0"
    using R(2-5,7,8) s4(3) s2 m(1) by (simp_all add: same_but_dir_def set_store_def)
  have "create_midi_files H s = Inr s'"
    using m(1) s2 cl len S(1) s4(1) R(1) by (simp add: create_midi_files_def Let_def)
  then show ?thesis using R(6,9,10) same c(1) clients_of_cong [of s' s] by simp
qed

text \<open>
  \<open>play\<close> with clients: their files are there before the flag is set and the barrier for \<open>k\<close> clients and the server
  itself exists when it is waited for.
\<close>

lemma handle_play_ok:
  assumes c: "clients_ok s" "length (clients_of s) = k" "0 < k" "k \<le> 1000"
    and m: "mfile s = Some m" "loaded (store_of s) m division tss" "1 < length tss" "writable_file n tss"
    and B: "bd_accumulator (build_of H)" "4 * k \<le> usable_of H k" "bd_noplay (build_of H)"
    and d: "dir_ready H (tmp_dir s) d"
    and room: "\<And>i. i < k \<Longrightarrow> disk_takes H (d @ out_name (int i)) (length (part_bytes division tss k i))"
  shows "\<exists>s'. handle_play H s = Inr (1, s') \<and> clients_ok s' \<and> clients_of s' = clients_of s
    \<and> midi_ready s' = 1 \<and> accepting_clients s' = 0 \<and> barrier_initialized s' \<noteq> 0 \<and> tmp_dir s' = Some d
    \<and> (\<forall>i < k. disk s' (d @ out_name (int i)) = Some (part_bytes division tss k i))"
proof -
  obtain a l where a: "clients s = Some a" "lists (threads s) a = Some l" "tlist_ok (threads s, l)"
    using c(1) by (auto simp: conns_ok_def)
  have "length (clients_of s) = length (members (threads s) l)" using a by (simp add: clients_of_def served_def threads_of_def)
  then have len: "tl_len l = int k" using a(3) c(2) by (simp add: tlist_ok_rep)
  have cl: "client_list s = Inr l" using a by (simp add: client_list_def get_list_def)
  from create_midi_files_ok [OF c m B(1,2) d room] obtain s1 where s1: "create_midi_files H s = Inr s1"
    "clients_ok s1" "clients_of s1 = clients_of s" "tmp_dir s1 = Some d" "accepting_clients s1 = 0"
    "\<forall>i < k. disk s1 (d @ out_name (int i)) = Some (part_bytes division tss k i)" by blast
  let ?s2 = "release_files H (int k) s1"
  have s2: "threads ?s2 = threads s1" "clients ?s2 = clients s1" "tid ?s2 = tid s1" "tmp_dir ?s2 = tmp_dir s1"
    "disk ?s2 = disk s1" "midi_ready ?s2 = 1" "barrier_initialized ?s2 \<noteq> 0" "accepting_clients ?s2 = accepting_clients s1"
    by (auto simp: release_files_def Let_def server_prints)
  let ?s' = "tell (env_of H) (Print (puts ''after wait!'')) (run (env_of H) ''pthread_barrier_wait'' []
      [''midi_play_barrier''] (tell (env_of H) (Print (puts ''before wait'')) ?s2))"
  have "handle_play H s = Inr (1, ?s')"
    using m(1) cl len c(3) s1(1) B(3) by (simp add: handle_play_def play_along_def Let_def)
  moreover have "clients_of ?s' = clients_of s" using clients_of_cong [of ?s' s1] s2 s1(3) by simp
  ultimately show ?thesis using s1 s2 by simp
qed

section \<open>Seeking and status\<close>

lemma isnum_iff: "isnum s \<longleftrightarrow> list_all isdigit s"
  by (induction s) simp_all

lemma atoi_small: "digits_val 0 s < 2 ^ 31 \<Longrightarrow> atoi s = int (digits_val 0 s)"
proof -
  assume a: "digits_val 0 s < 2 ^ 31"
  then have "min (2 ^ 63 - 1) (int (digits_val 0 s)) = int (digits_val 0 s)" by simp
  then show ?thesis using a unfolding atoi_def by (simp only:) (rule s32_id; simp)
qed

lemma atoi_dec: "n < 2 ^ 31 \<Longrightarrow> atoi (dec_nat n) = int n"
  by (simp add: atoi_small digits_val_dec_nat)

text \<open>Where \<open>seek p%\<close> goes, when the product with the length of the piece fits into an \<open>int\<close>.\<close>

lemma handle_seek_percent:
  assumes "p \<le> 100" "ret (env_of H (trace s) (Call ''fluid_player_get_total_ticks'' [player s] [])) = int n" "p * n < 2 ^ 31"
  shows "\<exists>s1. handle_seek H (dec_nat p @ ''%'') s = Inr (0, player_seek (env_of H) (int (p * n div 100)) s1)
    \<and> p * n div 100 \<le> n \<and> player s1 = player s"
proof -
  have at: "atoi (dec_nat p) = int p" using assms(1) by (intro atoi_dec) simp
  have "p * n \<le> 100 * n" using assms(1) by simp
  then have le: "p * n div 100 \<le> n" using div_le_mono [of "p * n" "100 * n" 100] by simp
  have mul: "int_mul (int p) (int n) = Inr (int (p * n))"
    using assms(3) by (simp add: int_mul_def flip: of_nat_mult)
  have "handle_seek H (dec_nat p @ ''%'') s
      = Inr (0, player_seek (env_of H) (int (p * n div 100)) (snd (player_get_total_ticks (env_of H) s)))"
    using at assms(1,2) mul
    by (simp add: handle_seek_def isnum_iff dec_nat_digits Let_def player_get_total_ticks_def sys zdiv_int)
  then show ?thesis using le by (auto simp: player_get_total_ticks_def sys)
qed

lemma handle_seek_percent_overflow:
  assumes "p \<le> 100" "ret (env_of H (trace s) (Call ''fluid_player_get_total_ticks'' [player s] [])) = int n" "2 ^ 31 \<le> p * n"
  shows "handle_seek H (dec_nat p @ ''%'') s = Inl Signed_Overflow"
proof -
  have "atoi (dec_nat p) = int p" using assms(1) by (intro atoi_dec) simp
  moreover have "int_mul (int p) (int n) = Inl Signed_Overflow"
    using assms(3) by (simp add: int_mul_def flip: of_nat_mult)
  ultimately show ?thesis using assms(1,2)
    by (simp add: handle_seek_def isnum_iff dec_nat_digits Let_def player_get_total_ticks_def sys)
qed

lemma handle_seek_tick:
  "n < 2 ^ 31 \<Longrightarrow> handle_seek H (dec_nat n) s = Inr (0, player_seek (env_of H) (int n) s)"
proof -
  assume n: "n < 2 ^ 31"
  have ne: "dec_nat n \<noteq> []" by (subst dec_nat.simps) simp
  have "isdigit (last (dec_nat n))" using dec_nat_digits [of n] ne by (simp add: list_all_iff)
  then have "last (dec_nat n) \<noteq> CHR ''%''" by (auto simp: isdigit_def)
  then show ?thesis using n ne by (simp add: handle_seek_def isnum_iff dec_nat_digits atoi_dec)
qed

text \<open>Anything else is refused, except that a bare percent sign counts as 0%.\<close>

lemma handle_seek_refused:
  "val \<noteq> [] \<Longrightarrow> \<not> isnum (if last val = CHR ''%'' then butlast val else val) \<Longrightarrow>
     \<exists>msg. handle_seek H val s = Inr (-1, eprintf H msg [] [] s)"
  by (cases "last val = CHR ''%''") (auto simp: handle_seek_def Let_def)

lemma handle_seek_bare_percent:
  "\<exists>s1. handle_seek H ''%'' s = Inr (0, player_seek (env_of H) 0 s1)"
  by (auto simp: handle_seek_def Let_def player_get_total_ticks_def sys atoi_def int_mul_def s32_def)

text \<open>\<open>status\<close> divides by the length of the piece, which is 0 when nothing is loaded or playback has ended.\<close>

lemma show_position_zero:
  assumes "\<And>t. ret (env_of H t (Call ''fluid_player_get_total_ticks'' [player s] [])) = 0"
    and "0 \<le> ret (env_of H (trace s) (Call ''fluid_player_get_current_tick'' [player s] []))"
    and "100 * ret (env_of H (trace s) (Call ''fluid_player_get_current_tick'' [player s] [])) < 2 ^ 31"
  shows "show_position H s = Inl Div_By_Zero"
  using assms by (simp add: show_position_def player_get_cur_tick_def player_get_total_ticks_def sys int_mul_def)

section \<open>Commands on the player\<close>

text \<open>
  Before anything has been played there is no player: these commands hand fluidsynth a null pointer, which
  is outside its contract. Afterwards they stay within it.
\<close>

lemma player_command_lawful:
  assumes "player_inv s"
  shows "lawful (snd (handle_pause H s)) \<longleftrightarrow> player s \<noteq> 0" "lawful (snd (handle_resume H s)) \<longleftrightarrow> player s \<noteq> 0"
    "lawful (snd (handle_loop H s)) \<longleftrightarrow> player s \<noteq> 0" "lawful (snd (handle_noloop H s)) \<longleftrightarrow> player s \<noteq> 0"
    "lawful (snd (handle_restart H s)) \<longleftrightarrow> player s \<noteq> 0"
proof -
  have "(Player_Object, player s) \<in> live s \<longleftrightarrow> player s \<noteq> 0" "lawful s"
    using assms by (auto simp: player_inv_def objects_def held_def)
  then show "lawful (snd (handle_pause H s)) \<longleftrightarrow> player s \<noteq> 0" "lawful (snd (handle_resume H s)) \<longleftrightarrow> player s \<noteq> 0"
    "lawful (snd (handle_loop H s)) \<longleftrightarrow> player s \<noteq> 0" "lawful (snd (handle_noloop H s)) \<longleftrightarrow> player s \<noteq> 0"
    "lawful (snd (handle_restart H s)) \<longleftrightarrow> player s \<noteq> 0"
    by (simp_all add: handle_pause_def handle_resume_def handle_loop_def handle_noloop_def handle_restart_def
        player_op_defs lawful_tell kinds_def unmade_def)
qed

section \<open>The address of a client\<close>

text \<open>
  \<open>sin_size\<close> is never set before \<open>accept\<close>, so it is 0 for the first connection: nothing of its address is stored.
\<close>

lemma first_address_lost:
  "sin_size s = 0 \<Longrightarrow> their_addr (accept_client H fd s) = their_addr s"
  by (simp add: accept_client_def sys Let_def store_addr_def)

lemma later_address_kept:
  assumes "length (bytes (env_of H (trace s) (Call ''accept'' [fd, sin_size s] []))) \<le> nat (sin_size s)"
    and "ret (env_of H (trace s) (Call ''accept'' [fd, sin_size s] [])) \<noteq> -1"
  shows "take (length (bytes (env_of H (trace s) (Call ''accept'' [fd, sin_size s] [])))) (their_addr (accept_client H fd s))
    = bytes (env_of H (trace s) (Call ''accept'' [fd, sin_size s] []))"
  using assms by (simp add: accept_client_def sys Let_def store_addr_def min_absorb2)

section \<open>Quitting\<close>

definition cancelled :: "'a world_scheme \<Rightarrow> int list" where
  "cancelled w = concat (map (\<lambda>(c, a). case c of Call f xs ss \<Rightarrow> if f = ''pthread_cancel'' then xs else [] | _ \<Rightarrow> []) (trace w))"

lemma cancelled_tell [simp]:
  "cancelled (tell E c w) = cancelled w @ (case c of Call f xs ss \<Rightarrow> if f = ''pthread_cancel'' then xs else [] | _ \<Rightarrow> [])"
  by (simp add: cancelled_def trace_tell)

lemma cancel_all_ok:
  "tchain (threads s) p as \<Longrightarrow> length as \<le> fuel \<Longrightarrow>
     \<exists>s'. cancel_all H fuel p s = Inr s' \<and> cancelled s' = cancelled s @ map (\<lambda>a. thread (the (nodes (threads s) a))) as
       \<and> threads s' = threads s \<and> clients s' = clients s \<and> mfile s' = mfile s \<and> reader_state s' = reader_state s
       \<and> barrier_initialized s' = barrier_initialized s \<and> objects s' = objects s
       \<and> (player_inv s \<longrightarrow> player_inv s')"
proof (induction as arbitrary: p fuel s)
  case Nil
  then show ?case by simp
next
  case (Cons a as)
  from Cons.prems(1) obtain n where n: "nodes (threads s) a = Some n" "tchain (threads s) (nextn n) as" "p = Some a"
    by (auto split: option.splits)
  from Cons.prems(2) obtain f where f: "fuel = Suc f" "length as \<le> f" by (cases fuel) auto
  let ?s1 = "run (env_of H) ''pthread_cancel'' [thread n] [] s"
  have "player_inv s \<longrightarrow> player_inv ?s1"
    by (intro impI, rule player_inv_tell) (simp_all add: made_def unmade_def kinds_def)
  moreover have "tchain (threads ?s1) (nextn n) as" using n(2) by simp
  moreover note Cons.IH [OF calculation(2) f(2)]
  ultimately show ?case using n f by (fastforce simp: get_node_def)
qed

lemma delete_unless_null_keeps [simp]:
  "threads (delete_unless_null E f a s) = threads s" "clients (delete_unless_null E f a s) = clients s"
  "f \<noteq> ''pthread_cancel'' \<Longrightarrow> cancelled (delete_unless_null E f a s) = cancelled s"
  by (simp_all add: delete_unless_null_def)

lemma cleanup_keeps [simp]:
  "threads (player_cleanup E s) = threads s" "clients (player_cleanup E s) = clients s"
  "cancelled (player_cleanup E s) = cancelled s"
  by (simp_all add: player_cleanup_def Let_def)


text \<open>A second \<open>quit\<close> (a signal while the process is leaving) reads the list that was freed.\<close>

lemma handle_quit_again:
  "clients s = Some a \<Longrightarrow> lists (threads s) a = None \<Longrightarrow> handle_quit H s = Inl Use_After_Free"
  by (simp add: handle_quit_def cancel_clients_def client_list_def get_list_def)

end
