(* ===== verification/Shell.thy ===== *)
theory Shell
  imports Cmd_Handlers
begin

text \<open>
  \<open>server/shell.c\<close>: the command line of the server and its main loop, which waits for the terminal and
  the listening socket at once.
\<close>

section \<open>State\<close>

text \<open>
  The globals of \<open>shell.c\<close> around those of \<open>cmd_handlers.c\<close>. \<open>line_ptr\<close> is the global \<open>line\<close>, which
  nothing assigns: the parameter of the line handler hides it.
\<close>

record shell =
  srv :: server
  line_ptr :: int
  args :: "slot list option"
  sockfd :: int
  sigwinch_received :: int

definition SIGWINCH :: int where "SIGWINCH = 28"
definition SIGINT :: int where "SIGINT = 2"

definition on_srv :: "(server \<Rightarrow> server) \<Rightarrow> shell \<Rightarrow> shell" where
  "on_srv f t = t\<lparr>srv := f (srv t)\<rparr>"

section \<open>Leaving\<close>

definition session_cleanup :: "host \<Rightarrow> shell \<Rightarrow> shell" where
  "session_cleanup H t =
     (let t1 = (if line_ptr t \<noteq> 0 then on_srv (run (env_of H) ''free'' [line_ptr t] []) t else t);
          t2 = (if args t1 \<noteq> None then on_srv (run (env_of H) ''free'' [] [''args'']) t1 else t1)
      in t2\<lparr>line_ptr := 0, args := None\<rparr>)"

definition shell_cleanup :: "host \<Rightarrow> shell \<Rightarrow> shell" where
  "shell_cleanup H t =
     (let t1 = on_srv (tell (env_of H) (Print (puts ''Cleaning shell''))) t;
          t2 = on_srv (run (env_of H) ''rl_callback_handler_remove'' [] []) t1;
          t3 = session_cleanup H t2
      in on_srv (run (env_of H) ''close'' [sockfd t3] []) t3)"

definition shell_exit :: "host \<Rightarrow> shell \<Rightarrow> (flow \<times> shell) res" where
  "shell_exit H t =
     andThen (handle_quit H ((srv t)\<lparr>running := 0\<rparr>)) (\<lambda>(r, s).
       Inr (Ended 1, shell_cleanup H (t\<lparr>srv := s\<rparr>)))"

definition sighandler :: "host \<Rightarrow> int \<Rightarrow> shell \<Rightarrow> (flow \<times> shell) res" where
  "sighandler H sig t =
     (if sig = SIGWINCH then Inr (Going, t\<lparr>sigwinch_received := 1\<rparr>)
      else if sig = SIGINT then shell_exit H (on_srv (tell (env_of H) (Print (puts ''quit''))) t)
      else Inr (Going, t))"

section \<open>A line\<close>

text \<open>Calling through the function pointer; the result of the handler is not used.\<close>

definition call_handler :: "host \<Rightarrow> command \<Rightarrow> string \<Rightarrow> server \<Rightarrow> server res" where
  "call_handler H f w s = (case f of
      Handle_Load \<Rightarrow> andThen (handle_load H w s) (\<lambda>(r, s'). Inr s')
    | Handle_Play \<Rightarrow> andThen (handle_play H s) (\<lambda>(r, s'). Inr s')
    | Handle_Pause \<Rightarrow> Inr (snd (handle_pause H s))
    | Handle_Resume \<Rightarrow> Inr (snd (handle_resume H s))
    | Handle_Restart \<Rightarrow> Inr (snd (handle_restart H s))
    | Handle_Seek \<Rightarrow> andThen (handle_seek H w s) (\<lambda>(r, s'). Inr s')
    | Handle_Loop \<Rightarrow> Inr (snd (handle_loop H s))
    | Handle_Noloop \<Rightarrow> Inr (snd (handle_noloop H s))
    | Handle_Status \<Rightarrow> andThen (handle_status H s) (\<lambda>(r, s'). Inr s')
    | Handle_Quit \<Rightarrow> andThen (handle_quit H s) (\<lambda>(r, s'). Inr s')
    | Handle_Reconnect \<Rightarrow> handle_reconnect H s
    | Handle_Help \<Rightarrow> Inr (handle_help H s))"

text \<open>
  The search through the table: whether a command was found and run. A missing argument is
  reported and then leaves the loop as if the command were unknown.
\<close>

fun find_cmd :: "host \<Rightarrow> cmd list \<Rightarrow> string \<Rightarrow> nat \<Rightarrow> slot list \<Rightarrow> server \<Rightarrow> (bool \<times> server) res" where
  "find_cmd H [] c nwords ws s = Inr (False, s)"
| "find_cmd H (k # ks) c nwords ws s =
     (if c = cmd_name k then
        (if num_args k = 0 then andThen (call_handler H (fn k) [] s) (\<lambda>s'. Inr (True, s'))
         else if num_args k = 1 then
           (if nwords < 2 then Inr (False, eprintf H ''%s: missing argument'' [] [c] s)
            else case ws ! 1 of
                Unset \<Rightarrow> Inl Uninitialised
              | Null_Ptr \<Rightarrow> Inl Null_Deref
              | Word w \<Rightarrow> andThen (call_handler H (fn k) w s) (\<lambda>s'. Inr (True, s')))
         else Inr (True, s))
      else find_cmd H ks c nwords ws s)"

definition cb_linehandler :: "host \<Rightarrow> string option \<Rightarrow> shell \<Rightarrow> (flow \<times> shell) res" where
  "cb_linehandler H l t = (case l of
      None \<Rightarrow> shell_exit H (on_srv (tell (env_of H) (Print (puts ''quit''))) t)
    | Some line \<Rightarrow>
        if line = [] then Inr (Going, t)
        else let t1 = on_srv (run (env_of H) ''add_history'' [] [line]) t;
                 (p, s) = get (env_of H) ''malloc'' [8 * (int (count_char line CHR '' '') + 1)] [] (srv t1)
             in andThen (parse_line (p \<noteq> 0) line) (\<lambda>(nwords, ws).
                case ws ! 0 of
                  Unset \<Rightarrow> Inl Uninitialised
                | Null_Ptr \<Rightarrow> Inl Null_Deref
                | Word c \<Rightarrow>
                    andThen (find_cmd H cmds c nwords ws s) (\<lambda>(found, s1).
                      let s2 = (if found then s1 else eprintf H ''%s: command not found'' [] [c] s1)
                      in Inr (Going, t1\<lparr>srv := run (env_of H) ''free'' [] [''line''] s2, args := Some ws\<rparr>))))"

section \<open>The main loop\<close>

text \<open>
  \<open>select\<close> blocks; \<open>stored\<close> is the signal that came while it did (0 for none), whose handler has run when
  it returns. \<open>rl_callback_read_char\<close> takes one character; its answer says whether that ended a line
  (1, the line), was the end of the input (2), or neither.
\<close>

definition read_char :: "host \<Rightarrow> shell \<Rightarrow> (flow \<times> shell) res" where
  "read_char H t =
     (let (a, s) = ask (env_of H) (Call ''rl_callback_read_char'' [] []) (srv t); t1 = t\<lparr>srv := s\<rparr> in
      if ret a = 1 then cb_linehandler H (Some (str a)) t1
      else if ret a = 2 then cb_linehandler H None t1 else Inr (Going, t1))"

definition serve_input :: "host \<Rightarrow> shell \<Rightarrow> (flow \<times> shell) res" where
  "serve_input H t =
     (let E = env_of H;
          t1 = (if sigwinch_received t \<noteq> 0 then (on_srv (run E ''rl_resize_terminal'' [] []) t)\<lparr>sigwinch_received := 0\<rparr> else t);
          (r, s2) = get E ''FD_ISSET'' [] [''fileno(rl_instream)''] (srv t1); t2 = t1\<lparr>srv := s2\<rparr>
      in if r \<noteq> 0 then read_char H t2
         else let (q, s3) = get E ''FD_ISSET'' [sockfd t2] [] (srv t2); t3 = t2\<lparr>srv := s3\<rparr> in
           if q \<noteq> 0 then andThen (handle_socket H (sockfd t3) (srv t3)) (\<lambda>(x, s4). Inr (Going, t3\<lparr>srv := s4\<rparr>))
           else Inr (Going, on_srv (tell E (Print (puts ''Got unknown fd from select set''))) t3))"

definition main_step :: "host \<Rightarrow> shell \<Rightarrow> (flow \<times> shell) res" where
  "main_step H t =
     (let (term, s0) = get (env_of H) ''fileno'' [] [''rl_instream''] (srv t);
          (a, s1) = ask (env_of H) (Call ''select'' [max_c (sockfd t) term + 1] []) s0 in
      andThen (sighandler H (stored a) (t\<lparr>srv := s1\<rparr>)) (\<lambda>(f, t1).
        case f of
          Ended c \<Rightarrow> Inr (Ended c, t1)
        | Going \<Rightarrow>
            if ret a = -1 then Inr (Ended 4, shell_cleanup H (on_srv (tell (env_of H) (Perror ''select'')) t1))
            else andThen (serve_input H t1) (\<lambda>(g, t2).
              case g of Ended c \<Rightarrow> Inr (Ended c, t2) | Going \<Rightarrow> Inr (Going, session_cleanup H t2))))"

partial_function (option) main_loop :: "host \<Rightarrow> shell \<Rightarrow> (int \<times> shell) res option" where
  "main_loop H t =
     (if running (srv t) = 0 then Some (Inr (0, shell_cleanup H t))
      else case main_step H t of
          Inl e \<Rightarrow> Some (Inl e)
        | Inr (Ended c, t1) \<Rightarrow> Some (Inr (c, t1))
        | Inr (Going, t1) \<Rightarrow> main_loop H t1)"

text \<open>\<open>main\<close>, with the exit status of the process; \<open>None\<close> when it never ends.\<close>

definition main_setup :: "host \<Rightarrow> (trace \<Rightarrow> addrinfo list) \<Rightarrow> shell \<Rightarrow> shell res" where
  "main_setup H resolve t =
     andThen (setup_server (env_of H) resolve (srv t)) (\<lambda>(fd, s).
       let s1 = setup_connections H s;
           s2 = tell (env_of H) (Print (puts (''Orchestra'' @ [CHR 0x0A] @ ''Type 'help' to see help messages''))) s1;
           s3 = run (env_of H) ''signal'' [SIGWINCH] [''sighandler''] s2;
           s4 = run (env_of H) ''signal'' [SIGINT] [''sighandler''] s3;
           s5 = run (env_of H) ''rl_callback_handler_install'' [] [''> '', ''cb_linehandler''] s4
       in Inr (t\<lparr>srv := s5\<lparr>running := 1\<rparr>, sockfd := fd\<rparr>))"

definition server_main :: "host \<Rightarrow> (trace \<Rightarrow> addrinfo list) \<Rightarrow> shell \<Rightarrow> (int \<times> shell) res option" where
  "server_main H resolve t = (case main_setup H resolve t of Inl e \<Rightarrow> Some (Inl e) | Inr t1 \<Rightarrow> main_loop H t1)"

section \<open>What a line does\<close>

text \<open>
  The line handler against the words of the line: a reference that looks the command up by name and
  says what becomes of its argument. \<open>None\<close>: no such command, or its argument is missing.
\<close>

definition lookup_cmd :: "string \<Rightarrow> cmd option" where
  "lookup_cmd c = List.find (\<lambda>k. cmd_name k = c) cmds"

definition run_words :: "host \<Rightarrow> bool \<Rightarrow> string list \<Rightarrow> server \<Rightarrow> (bool \<times> server) res" where
  "run_words H several ws s = (case lookup_cmd (hd ws) of
      None \<Rightarrow> Inr (False, s)
    | Some k \<Rightarrow>
        if num_args k = 0 then andThen (call_handler H (fn k) [] s) (\<lambda>s'. Inr (True, s'))
        else (case tl ws of
            w # _ \<Rightarrow> andThen (call_handler H (fn k) w s) (\<lambda>s'. Inr (True, s'))
          | [] \<Rightarrow> if several then Inl Uninitialised
                  else Inr (False, eprintf H ''%s: missing argument'' [] [hd ws] s)))"

lemma find_cmd_lookup:
  assumes "\<forall>k \<in> set ks. num_args k = 0 \<or> num_args k = 1"
    and "ws = map Word (c # vs) @ replicate n Unset" "nwords = length ws"
  shows "find_cmd H ks c nwords ws s = (case List.find (\<lambda>k. cmd_name k = c) ks of
      None \<Rightarrow> Inr (False, s)
    | Some k \<Rightarrow>
        if num_args k = 0 then andThen (call_handler H (fn k) [] s) (\<lambda>s'. Inr (True, s'))
        else (case vs of
            w # _ \<Rightarrow> andThen (call_handler H (fn k) w s) (\<lambda>s'. Inr (True, s'))
          | [] \<Rightarrow> if 0 < n then Inl Uninitialised
                  else Inr (False, eprintf H ''%s: missing argument'' [] [c] s)))"
  using assms(1)
proof (induction ks)
  case Nil
  then show ?case by simp
next
  case (Cons k ks)
  show ?case
  proof (cases "c = cmd_name k")
    case True
    have "ws ! 1 = (case vs of w # _ \<Rightarrow> Word w | [] \<Rightarrow> Unset)" if "2 \<le> nwords"
      using assms(2,3) that by (cases vs) (auto simp: nth_Cons' split: if_splits)
    moreover have "nwords < 2 \<longleftrightarrow> vs = [] \<and> n = 0" using assms(2,3) by (cases vs) auto
    ultimately show ?thesis using True Cons.prems by (auto split: list.splits)
  next
    case False
    then show ?thesis using Cons by (auto)
  qed
qed

lemma cmds_args: "\<forall>k \<in> set cmds. num_args k = 0 \<or> num_args k = 1"
  by (simp add: cmds_def)

text \<open>No command hides another.\<close>

lemma cmds_distinct: "distinct (map cmd_name cmds)"
  by (simp add: cmds_def)

text \<open>
  C23: A line with a word in it does what running its words against the table of commands does: the words are those the
  spaces separate, the first is looked up, and an unknown one is reported.
\<close>

theorem cb_linehandler_words:
  assumes w: "words_of line \<noteq> []"
    and mem: "\<And>t. ret (env_of H t (Call ''malloc'' [8 * (int (count_char line CHR '' '') + 1)] [])) \<noteq> 0"
  shows "\<exists>s0 args'. cb_linehandler H (Some line) t =
      andThen (run_words H (0 < count_char line CHR '' '') (words_of line) s0) (\<lambda>(found, s1).
        let s2 = (if found then s1 else eprintf H ''%s: command not found'' [] [hd (words_of line)] s1)
        in Inr (Going, t\<lparr>srv := run (env_of H) ''free'' [] [''line''] s2, args := Some args'\<rparr>))
    \<and> clients_of s0 = clients_of (srv t) \<and> mfile s0 = mfile (srv t)"
proof -
  let ?E = "env_of H" and ?k = "count_char line CHR '' ''"
  obtain c vs where cv: "words_of line = c # vs" using w by (cases "words_of line") auto
  have ne: "line \<noteq> []" using w by (auto simp: words_of_def)
  let ?s0 = "run ?E ''malloc'' [8 * (int ?k + 1)] [] (run ?E ''add_history'' [] [line] (srv t))"
  let ?ws = "map Word (words_of line) @ replicate (?k + 1 - length (words_of line)) Unset"
  have len: "length (words_of line) \<le> ?k + 1" by (rule words_fit)
  have p: "parse_line True line = Inr (?k + 1, ?ws)" using parse_line_ok [of line] w by simp
  have f: "find_cmd H cmds c (?k + 1) ?ws ?s0 = run_words H (0 < ?k) (words_of line) ?s0"
  proof -
    have "find_cmd H cmds c (?k + 1) ?ws ?s0 = (case List.find (\<lambda>k. cmd_name k = c) cmds of
      None \<Rightarrow> Inr (False, ?s0)
    | Some k \<Rightarrow>
        if num_args k = 0 then andThen (call_handler H (fn k) [] ?s0) (\<lambda>s'. Inr (True, s'))
        else (case vs of
            w # _ \<Rightarrow> andThen (call_handler H (fn k) w ?s0) (\<lambda>s'. Inr (True, s'))
          | [] \<Rightarrow> if 0 < ?k + 1 - length (words_of line) then Inl Uninitialised
                  else Inr (False, eprintf H ''%s: missing argument'' [] [c] ?s0)))"
      by (rule find_cmd_lookup [OF cmds_args]) (use cv len in simp_all)
    then show ?thesis using cv
      by (auto simp: run_words_def lookup_cmd_def split: option.splits list.splits if_splits)
  qed
  let ?rest = "\<lambda>(found, s1). let s2 = (if found then s1 else eprintf H ''%s: command not found'' [] [c] s1)
        in Inr (Going, t\<lparr>srv := run ?E ''free'' [] [''line''] s2, args := Some ?ws\<rparr>)"
  have "cb_linehandler H (Some line) t = andThen (find_cmd H cmds c (?k + 1) ?ws ?s0) ?rest"
    using ne mem p cv by (simp add: cb_linehandler_def on_srv_def sys)
  also have "\<dots> = andThen (run_words H (0 < ?k) (words_of line) ?s0) ?rest" by (simp only: f)
  also have "c = hd (words_of line)" using cv by simp
  finally have "cb_linehandler H (Some line) t =
      andThen (run_words H (0 < ?k) (words_of line) ?s0) (\<lambda>(found, s1).
        let s2 = (if found then s1 else eprintf H ''%s: command not found'' [] [hd (words_of line)] s1)
        in Inr (Going, t\<lparr>srv := run ?E ''free'' [] [''line''] s2, args := Some ?ws\<rparr>))" .
  then show ?thesis by (intro exI conjI) (assumption, simp_all)
qed

text \<open>
  C39: A line of nothing but spaces has no first word, and looking it up compares with a null pointer.
\<close>

theorem cb_linehandler_blank:
  assumes "line \<noteq> []" "words_of line = []"
    and "\<And>t. ret (env_of H t (Call ''malloc'' [8 * (int (count_char line CHR '' '') + 1)] [])) \<noteq> 0"
  shows "cb_linehandler H (Some line) t = Inl Null_Deref"
  using assms parse_line_ok [of line] by (simp add: cb_linehandler_def on_srv_def sys)

lemma cb_linehandler_empty: "cb_linehandler H (Some []) t = Inr (Going, t)"
  by (simp add: cb_linehandler_def)

section \<open>The main loop\<close>

lemma srv_session_cleanup: "running (srv (session_cleanup H t)) = running (srv t)"
  by (simp add: session_cleanup_def Let_def on_srv_def)

text \<open>
  A change of the window's size while the server waits interrupts \<open>select\<close>, and the process ends with status 4,
  its clients and its player left as they are.
\<close>

lemma main_step_winch:
  assumes "\<And>u n. ret (env_of H u (Call ''select'' [n] [])) = -1" "\<And>u n. stored (env_of H u (Call ''select'' [n] [])) = SIGWINCH"
  shows "\<exists>t'. main_step H t = Inr (Ended 4, t')"
  using assms by (simp add: main_step_def Let_def sys split_beta sighandler_def)

text \<open>When the loop ends normally the listening socket is closed and the status is 0.\<close>

lemma main_loop_stopped:
  "running (srv t) = 0 \<Longrightarrow> main_loop H t = Some (Inr (0, shell_cleanup H t))"
  by (subst main_loop.simps) simp

end
