(* ===== verification/Concurrency.thy ===== *)
theory Concurrency
  imports Cmd_Handlers
begin

text \<open>
  The server's threads together: the main thread with its commands, one thread for each client that has come, the
  flag \<open>midi_ready\<close> with its condition variable, and the barrier. A step is what one thread does
  between two points where others can come in; what a thread does with its own socket and file is
  theory \<open>Server_Thread\<close>.
\<close>

section \<open>States and steps\<close>

text \<open>
  Where a client's thread is in \<open>server_thread\<close>: sending the greeting, about to test the flag, asleep on the
  condition variable, sending the file, at the barrier after the client has acknowledged it, about to order the
  client to play, at its end.
\<close>

datatype tpc = Greeting | Checking | Asleep | Sending | At_Barrier | Ordering | Over

text \<open>Where the main thread is: at its prompt, or in \<open>handle_play\<close>.\<close>

datatype mpc = Prompt | Writing | Arriving | Main_At_Barrier

text \<open>
  \<open>cur\<close> is the length of the list of clients; \<open>parties\<close> the number the barrier was made for, 0 before it is made;
  \<open>arrived\<close> how many wait at it.
\<close>

record system =
  pcs :: "tpc list"
  cur :: nat
  main_pc :: mpc
  flag :: bool
  parties :: nat
  arrived :: nat
  accepting :: bool

definition boot :: system where
  "boot = \<lparr>pcs = [], cur = 0, main_pc = Prompt, flag = False, parties = 0, arrived = 0, accepting = True\<rparr>"

fun wake :: "tpc \<Rightarrow> tpc" where
  "wake Asleep = Checking"
| "wake p = p"

fun pass :: "tpc \<Rightarrow> tpc" where
  "pass At_Barrier = Ordering"
| "pass p = p"

fun pass_main :: "mpc \<Rightarrow> mpc" where
  "pass_main Main_At_Barrier = Prompt"
| "pass_main p = p"

text \<open>One more at the barrier: the last one opens it for all, and it starts anew.\<close>

definition arrive :: "system \<Rightarrow> system" where
  "arrive s = (if arrived s + 1 = parties s
     then s\<lparr>arrived := 0, pcs := map pass (pcs s), main_pc := pass_main (main_pc s)\<rparr>
     else s\<lparr>arrived := arrived s + 1\<rparr>)"

text \<open>
  The acts of the client threads and of the main thread. \<open>Wake_Early\<close> is a wakeup without a signal, which
  POSIX allows. Playing goes through three acts: the flag is cleared while the files are written; then, under the
  mutex, the flag is set, the barrier made unless there is one, and everyone woken; then the main
  thread comes to the barrier.
\<close>

datatype act = Connect | Greet nat | Check nat | Wake_Early nat | Acknowledged nat | Order nat
  | Play_Command | Release | Main_Arrives | Reconnect

definition at :: "system \<Rightarrow> nat \<Rightarrow> tpc \<Rightarrow> bool" where
  "at s i p \<longleftrightarrow> i < length (pcs s) \<and> pcs s ! i = p"

definition goto :: "nat \<Rightarrow> tpc \<Rightarrow> system \<Rightarrow> system" where
  "goto i p s = s\<lparr>pcs := (pcs s)[i := p]\<rparr>"

fun perform :: "act \<Rightarrow> system \<Rightarrow> system option" where
  "perform Connect s = (if main_pc s = Prompt \<and> accepting s
     then Some (s\<lparr>pcs := pcs s @ [Greeting], cur := cur s + 1\<rparr>) else None)"
| "perform (Greet i) s = (if at s i Greeting then Some (goto i Checking s) else None)"
| "perform (Check i) s = (if at s i Checking then Some (goto i (if flag s then Sending else Asleep) s) else None)"
| "perform (Wake_Early i) s = (if at s i Asleep then Some (goto i Checking s) else None)"
| "perform (Acknowledged i) s = (if at s i Sending then Some (arrive (goto i At_Barrier s)) else None)"
| "perform (Order i) s = (if at s i Ordering then Some (goto i Over s) else None)"
| "perform Play_Command s = (if main_pc s = Prompt \<and> 0 < cur s
     then Some (s\<lparr>main_pc := Writing, accepting := False, flag := False\<rparr>) else None)"
| "perform Release s = (if main_pc s = Writing
     then Some (s\<lparr>main_pc := Arriving, flag := True, parties := (if parties s = 0 then cur s + 1 else parties s),
                  pcs := map wake (pcs s)\<rparr>) else None)"
| "perform Main_Arrives s = (if main_pc s = Arriving then Some (arrive (s\<lparr>main_pc := Main_At_Barrier\<rparr>)) else None)"
| "perform Reconnect s = (if main_pc s = Prompt then Some (s\<lparr>cur := 0, accepting := True\<rparr>) else None)"

text \<open>The states a server can come to, and those before a second \<open>play\<close> or a \<open>reconnect\<close>.\<close>

inductive reachable :: "system \<Rightarrow> bool" where
  start: "reachable boot"
| act: "reachable s \<Longrightarrow> perform a s = Some s' \<Longrightarrow> reachable s'"

inductive first_play :: "system \<Rightarrow> bool" where
  start: "first_play boot"
| act: "first_play s \<Longrightarrow> perform a s = Some s' \<Longrightarrow> a \<noteq> Reconnect \<Longrightarrow> (a = Play_Command \<Longrightarrow> parties s = 0)
    \<Longrightarrow> first_play s'"

fun perform_all :: "act list \<Rightarrow> system \<Rightarrow> system option" where
  "perform_all [] s = Some s"
| "perform_all (a # as) s = (case perform a s of None \<Rightarrow> None | Some s' \<Rightarrow> perform_all as s')"

lemma reachable_all: "reachable s \<Longrightarrow> perform_all as s = Some s' \<Longrightarrow> reachable s'"
  by (induction as arbitrary: s) (auto split: option.splits intro: reachable.act)

lemma first_play_run:
  "perform_all as s = Some s' \<Longrightarrow> first_play s \<Longrightarrow> Reconnect \<notin> set as \<Longrightarrow> Play_Command \<notin> set as \<Longrightarrow> first_play s'"
  by (induction as arbitrary: s) (auto split: option.splits intro: first_play.act)

section \<open>The invariant of the first playing\<close>

definition barrier_count :: "system \<Rightarrow> nat" where
  "barrier_count s = length (filter (\<lambda>p. p = At_Barrier) (pcs s)) + (if main_pc s = Main_At_Barrier then 1 else 0)"

text \<open>
  Before the files are released nobody is past the test of the flag. From then on the barrier is for everyone, and it
  stays shut until everyone is there; then all have passed it.
\<close>

definition before_release :: "system \<Rightarrow> bool" where
  "before_release s \<longleftrightarrow> parties s = 0 \<and> arrived s = 0 \<and> \<not> flag s \<and> set (pcs s) \<subseteq> {Greeting, Checking, Asleep}
     \<and> (main_pc s = Prompt \<or> main_pc s = Writing \<and> \<not> accepting s \<and> 0 < cur s)"

definition gathering :: "system \<Rightarrow> bool" where
  "gathering s \<longleftrightarrow> parties s = length (pcs s) + 1 \<and> flag s \<and> set (pcs s) \<subseteq> {Greeting, Checking, Sending, At_Barrier}
     \<and> (main_pc s = Arriving \<or> main_pc s = Main_At_Barrier) \<and> arrived s = barrier_count s \<and> arrived s < parties s"

definition opened :: "system \<Rightarrow> bool" where
  "opened s \<longleftrightarrow> parties s = length (pcs s) + 1 \<and> set (pcs s) \<subseteq> {Ordering, Over} \<and> main_pc s = Prompt \<and> arrived s = 0"

definition play_inv :: "system \<Rightarrow> bool" where
  "play_inv s \<longleftrightarrow> cur s = length (pcs s) \<and> (parties s \<noteq> 0 \<longrightarrow> \<not> accepting s) \<and> (before_release s \<or> gathering s \<or> opened s)"

lemma length_goto [simp]: "length (pcs (goto i p s)) = length (pcs s)"
  by (simp add: goto_def)

lemma fields_goto [simp]:
  "cur (goto i p s) = cur s" "main_pc (goto i p s) = main_pc s" "flag (goto i p s) = flag s"
  "parties (goto i p s) = parties s" "arrived (goto i p s) = arrived s" "accepting (goto i p s) = accepting s"
  by (simp_all add: goto_def)

lemma set_goto: "set (pcs (goto i p s)) \<subseteq> insert p (set (pcs s))"
  by (simp add: goto_def set_update_subset_insert)

lemma count_update:
  "i < length xs \<Longrightarrow> length (filter P (xs[i := x])) + (if P (xs ! i) then 1 else 0)
     = length (filter P xs) + (if P x then 1 else 0)"
proof (induction xs arbitrary: i)
  case (Cons y ys)
  then show ?case by (cases i) auto
qed simp

lemma barrier_count_goto:
  "at s i q \<Longrightarrow> q \<noteq> At_Barrier \<Longrightarrow>
     barrier_count (goto i p s) = barrier_count s + (if p = At_Barrier then 1 else 0)"
  using count_update [of i "pcs s" "\<lambda>p. p = At_Barrier" p] by (auto simp: barrier_count_def goto_def at_def)

lemma barrier_full:
  "length (filter P xs) = length xs \<Longrightarrow> x \<in> set xs \<Longrightarrow> P x"
  by (metis filter_id_conv length_filter_less less_irrefl)

text \<open>Everyone is at the barrier when the last one arrives.\<close>

lemma gathering_arrive:
  assumes "parties s = length (pcs s) + 1" "flag s" "set (pcs s) \<subseteq> {Greeting, Checking, Sending, At_Barrier}"
    and "main_pc s = Arriving \<or> main_pc s = Main_At_Barrier" "arrived s + 1 = barrier_count s"
  shows "gathering (arrive s) \<or> opened (arrive s)"
proof (cases "arrived s + 1 = parties s")
  case True
  have le: "length (filter (\<lambda>p. p = At_Barrier) (pcs s)) \<le> length (pcs s)" by (rule length_filter_le)
  have b: "length (filter (\<lambda>p. p = At_Barrier) (pcs s)) + (if main_pc s = Main_At_Barrier then 1 else 0) = length (pcs s) + 1"
    using True assms(1,5) by (simp only: barrier_count_def)
  have "main_pc s = Main_At_Barrier"
  proof (rule ccontr)
    assume "main_pc s \<noteq> Main_At_Barrier"
    with b have "length (filter (\<lambda>p. p = At_Barrier) (pcs s)) = length (pcs s) + 1" by simp
    with le show False by linarith
  qed
  moreover from this have full: "length (filter (\<lambda>p. p = At_Barrier) (pcs s)) = length (pcs s)" using b by simp
  have "\<forall>p \<in> set (pcs s). p = At_Barrier"
    using barrier_full [where P = "\<lambda>p. p = At_Barrier", OF full] by blast
  ultimately show ?thesis using True assms(1) by (auto simp: arrive_def opened_def)
next
  case False
  have "barrier_count s \<le> parties s"
    using assms(1) by (auto simp: barrier_count_def intro: le_SucI)
  then show ?thesis using False assms
    by (auto simp: arrive_def gathering_def barrier_count_def)
qed


lemma play_inv_step:
  assumes "play_inv s" "perform a s = Some s'" "a \<noteq> Reconnect" "a = Play_Command \<Longrightarrow> parties s = 0"
  shows "play_inv s'"
proof -
  have c: "cur s = length (pcs s)" "parties s \<noteq> 0 \<longrightarrow> \<not> accepting s" using assms(1) by (auto simp: play_inv_def)
  consider "before_release s" | "gathering s" | "opened s" using assms(1) by (auto simp: play_inv_def)
  then show ?thesis
  proof cases
    case 1
    note b = 1 [unfolded before_release_def]
    show ?thesis
    proof (cases a)
      case Release
      then have m: "main_pc s = Writing" "s' = s\<lparr>main_pc := Arriving, flag := True, parties := cur s + 1, pcs := map wake (pcs s)\<rparr>"
        using assms(2) b by (auto split: if_splits)
      have "set (map wake (pcs s)) \<subseteq> {Greeting, Checking, Sending, At_Barrier}" "filter (\<lambda>p. p = At_Barrier) (map wake (pcs s)) = []"
        using b by (auto simp: filter_empty_conv)
      then have "gathering s'" using m b c by (simp add: gathering_def barrier_count_def)
      then show ?thesis using m b c by (auto simp: play_inv_def)
    next
      case (Acknowledged i)
      then show ?thesis using assms(2) b by (auto simp: at_def split: if_splits dest!: nth_mem)
    next
      case (Order i)
      then show ?thesis using assms(2) b by (auto simp: at_def split: if_splits dest!: nth_mem)
    next
      case (Greet i)
      then show ?thesis using assms(2) b c set_goto [of i Checking s]
        by (auto simp: play_inv_def before_release_def split: if_splits)
    next
      case (Check i)
      then show ?thesis using assms(2) b c set_goto [of i Asleep s]
        by (auto simp: play_inv_def before_release_def split: if_splits)
    next
      case (Wake_Early i)
      then show ?thesis using assms(2) b c set_goto [of i Checking s]
        by (auto simp: play_inv_def before_release_def split: if_splits)
    qed (use assms(2,3) b c in \<open>auto simp: play_inv_def before_release_def split: if_splits\<close>)
  next
    case 2
    note g = 2 [unfolded gathering_def]
    show ?thesis
    proof (cases a)
      case (Acknowledged i)
      let ?t = "goto i At_Barrier s"
      have i: "at s i Sending" "s' = arrive ?t" using Acknowledged assms(2) by (auto split: if_splits)
      have "barrier_count ?t = arrived s + 1" using barrier_count_goto [OF i(1), of At_Barrier] g by simp
      then have "gathering s' \<or> opened s'"
        unfolding i(2) using g set_goto [of i At_Barrier s] by (intro gathering_arrive) auto
      then show ?thesis using i(2) c g by (auto simp: play_inv_def arrive_def)
    next
      case Main_Arrives
      let ?t = "s\<lparr>main_pc := Main_At_Barrier\<rparr>"
      have m: "main_pc s = Arriving" "s' = arrive ?t" using Main_Arrives assms(2) by (auto split: if_splits)
      have "barrier_count ?t = arrived s + 1" using m(1) g by (simp add: barrier_count_def)
      then have "gathering s' \<or> opened s'"
        unfolding m(2) using g by (intro gathering_arrive) auto
      then show ?thesis using m(2) c g by (auto simp: play_inv_def arrive_def)
    next
      case (Greet i)
      then show ?thesis using assms(2) g c set_goto [of i Checking s] barrier_count_goto [of s i Greeting Checking]
        by (auto simp: play_inv_def gathering_def split: if_splits)
    next
      case (Check i)
      then show ?thesis using assms(2) g c set_goto [of i Sending s] barrier_count_goto [of s i Checking Sending]
        by (auto simp: play_inv_def gathering_def split: if_splits)
    next
      case (Order i)
      then show ?thesis using assms(2) g by (auto simp: at_def split: if_splits dest!: nth_mem)
    next
      case (Wake_Early i)
      then show ?thesis using assms(2) g by (auto simp: at_def split: if_splits dest!: nth_mem)
    qed (use assms(2-4) g c in \<open>auto split: if_splits\<close>)
  next
    case 3
    note o = 3 [unfolded opened_def]
    show ?thesis
    proof (cases a)
      case (Order i)
      then show ?thesis using assms(2) o c set_goto [of i Over s]
        by (auto simp: play_inv_def opened_def split: if_splits)
    next
      case Play_Command
      then show ?thesis using assms(4) o by simp
    qed (use assms(2,3) o c in \<open>auto simp: at_def split: if_splits dest!: nth_mem\<close>)
  qed
qed

lemma first_play_inv: "first_play s \<Longrightarrow> play_inv s"
proof (induction rule: first_play.induct)
  case start
  then show ?case by (simp add: play_inv_def before_release_def boot_def)
next
  case (act s a s')
  then show ?case using play_inv_step by blast
qed


text \<open>And nobody sends a file while the files are being written.\<close>

lemma no_sending_while_writing:
  "first_play s \<Longrightarrow> main_pc s = Writing \<Longrightarrow> set (pcs s) \<subseteq> {Greeting, Checking, Asleep}"
  by (drule first_play_inv) (auto simp: play_inv_def before_release_def gathering_def opened_def)

section \<open>Playing ends\<close>

text \<open>
  The acts that bring a playing forward: all but wakeups without a signal, new clients and new commands. Each
  of them brings some thread nearer to its end.
\<close>

definition forward :: "act \<Rightarrow> bool" where
  "forward a \<longleftrightarrow> (case a of Connect \<Rightarrow> False | Wake_Early i \<Rightarrow> False | Play_Command \<Rightarrow> False | Reconnect \<Rightarrow> False | _ \<Rightarrow> True)"

fun left_to_do :: "tpc \<Rightarrow> nat" where
  "left_to_do Greeting = 6"
| "left_to_do Checking = 5"
| "left_to_do Asleep = 4"
| "left_to_do Sending = 3"
| "left_to_do At_Barrier = 2"
| "left_to_do Ordering = 1"
| "left_to_do Over = 0"

fun main_left :: "mpc \<Rightarrow> nat" where
  "main_left Writing = 3"
| "main_left Arriving = 2"
| "main_left Main_At_Barrier = 1"
| "main_left Prompt = 0"

definition work :: "system \<Rightarrow> nat" where
  "work s = sum_list (map left_to_do (pcs s)) + main_left (main_pc s) + (if main_pc s = Writing then length (pcs s) else 0)"

lemma work_update:
  "i < length xs \<Longrightarrow> sum_list (map left_to_do (xs[i := p])) + left_to_do (xs ! i) = sum_list (map left_to_do xs) + left_to_do p"
proof (induction xs arbitrary: i)
  case (Cons y ys)
  then show ?case by (cases i) (auto simp: add.assoc)
qed simp

lemma work_goto:
  "at s i q \<Longrightarrow> left_to_do p < left_to_do q \<Longrightarrow> work (goto i p s) < work s"
  using work_update [of i "pcs s" p] by (simp add: at_def goto_def work_def)

lemma work_pass: "sum_list (map left_to_do (map pass ps)) \<le> sum_list (map left_to_do ps)"
proof (induction ps)
  case (Cons p ps)
  have "left_to_do (pass p) \<le> left_to_do p" by (cases p) simp_all
  then show ?case using Cons by simp
qed simp

lemma work_arrive: "main_pc s \<noteq> Writing \<Longrightarrow> work (arrive s) \<le> work s"
proof -
  assume w: "main_pc s \<noteq> Writing"
  have "main_left (pass_main m) \<le> main_left m" "m \<noteq> Writing \<Longrightarrow> pass_main m \<noteq> Writing" for m by (cases m; simp)+
  then show ?thesis using work_pass [of "pcs s"] w by (simp add: arrive_def work_def add_mono)
qed

lemma work_wake: "sum_list (map left_to_do (map wake ps)) \<le> sum_list (map left_to_do ps) + length ps"
proof (induction ps)
  case (Cons p ps)
  have "left_to_do (wake p) \<le> left_to_do p + 1" by (cases p) simp_all
  then show ?case using Cons by simp
qed simp

text \<open>Every act forward leaves less to do, so there are no more of them than there is to do.\<close>

lemma forward_less:
  assumes "play_inv s" "perform a s = Some s'" "forward a"
  shows "work s' < work s"
proof (cases a)
  case (Acknowledged i)
  then have i: "at s i Sending" "s' = arrive (goto i At_Barrier s)" using assms(2) by (auto split: if_splits)
  have "Sending \<in> set (pcs s)" using i(1) nth_mem unfolding at_def by metis
  then have "main_pc s \<noteq> Writing"
    using assms(1) by (auto simp: play_inv_def before_release_def gathering_def opened_def)
  then have "work (arrive (goto i At_Barrier s)) \<le> work (goto i At_Barrier s)" by (intro work_arrive) simp
  moreover have "work (goto i At_Barrier s) < work s" using i(1) by (rule work_goto) simp
  ultimately show ?thesis unfolding i(2) by simp
next
  case Main_Arrives
  let ?t = "s\<lparr>main_pc := Main_At_Barrier\<rparr>"
  have m: "main_pc s = Arriving" "s' = arrive ?t" using assms(2) Main_Arrives by (auto split: if_splits)
  have "work ?t < work s" using m(1) by (simp add: work_def)
  moreover have "work (arrive ?t) \<le> work ?t" by (rule work_arrive) simp
  ultimately show ?thesis unfolding m(2) by simp
next
  case (Check i)
  then show ?thesis using assms(2) work_goto [of s i Checking] by (auto split: if_splits)
next
  case Release
  have "main_pc s = Writing" using assms(2) Release by (simp split: if_splits)
  then show ?thesis using assms(2) Release work_wake [of "pcs s"] by (auto simp: work_def)
qed (use assms(2-3) work_goto in \<open>auto simp: forward_def split: if_splits\<close>)

lemma forward_keeps:
  assumes "play_inv s" "perform a s = Some s'" "forward a"
  shows "play_inv s'"
  using assms by (intro play_inv_step [OF assms(1,2)]) (auto simp: forward_def)

lemma forward_bounded:
  "play_inv s \<Longrightarrow> perform_all as s = Some s' \<Longrightarrow> list_all forward as \<Longrightarrow> work s' + length as \<le> work s"
proof (induction as arbitrary: s)
  case (Cons a as)
  then obtain t where t: "perform a s = Some t" "perform_all as t = Some s'" by (auto split: option.splits)
  have a: "forward a" "list_all forward as" using Cons.prems(3) by simp_all
  have "work s' + length as \<le> work t" using Cons.IH [OF forward_keeps [OF Cons.prems(1) t(1) a(1)] t(2) a(2)] .
  then show ?case using forward_less [OF Cons.prems(1) t(1) a(1)] by simp
qed simp

text \<open>A playing under way can go on: there is always an act forward, until every client has its order.\<close>

lemma forward_possible:
  assumes "play_inv s" "main_pc s \<noteq> Prompt \<or> opened s" "\<not> (main_pc s = Prompt \<and> set (pcs s) \<subseteq> {Over})"
  shows "\<exists>a s'. forward a \<and> perform a s = Some s'"
proof (cases "main_pc s")
  case Writing
  then show ?thesis by (intro exI [of _ Release]) (simp add: forward_def)
next
  case Arriving
  then show ?thesis by (intro exI [of _ Main_Arrives]) (simp add: forward_def)
next
  case Prompt
  then have "set (pcs s) \<subseteq> {Ordering, Over}" "\<not> set (pcs s) \<subseteq> {Over}" using assms(2,3) by (auto simp: opened_def)
  then obtain i where "at s i Ordering" by (auto simp: at_def in_set_conv_nth) (metis in_set_conv_nth insertE singletonD subsetD)
  then show ?thesis by (intro exI [of _ "Order i"]) (simp add: forward_def)
next
  case Main_At_Barrier
  then have g: "gathering s" using assms(1) by (auto simp: play_inv_def before_release_def opened_def)
  have "\<exists>p \<in> set (pcs s). p \<noteq> At_Barrier"
  proof (rule ccontr)
    assume "\<not> ?thesis"
    then have "filter (\<lambda>p. p = At_Barrier) (pcs s) = pcs s" by (intro filter_True) blast
    then show False using g Main_At_Barrier by (auto simp: gathering_def barrier_count_def)
  qed
  then obtain i p where p: "at s i p" "p \<in> {Greeting, Checking, Sending}"
    using g by (fastforce simp: gathering_def at_def in_set_conv_nth)
  then show ?thesis
    by (auto intro: exI [of _ "Greet i"] exI [of _ "Check i"] exI [of _ "Acknowledged i"] simp: forward_def)
qed

lemma forward_underway:
  assumes "play_inv s" "main_pc s \<noteq> Prompt \<or> opened s" "perform a s = Some t" "forward a"
  shows "play_inv t" "main_pc t \<noteq> Prompt \<or> opened t"
proof -
  show inv: "play_inv t" by (rule forward_keeps [OF assms(1,3,4)])
  show "main_pc t \<noteq> Prompt \<or> opened t"
  proof (cases "main_pc t = Prompt")
    case True
    then have "parties t \<noteq> 0"
      using assms by (cases a) (auto simp: forward_def arrive_def opened_def before_release_def gathering_def play_inv_def split: if_splits)
    then show ?thesis using inv True by (auto simp: play_inv_def before_release_def gathering_def)
  qed simp
qed

lemma forward_run_underway:
  "perform_all as s = Some t \<Longrightarrow> list_all forward as \<Longrightarrow> play_inv s \<Longrightarrow> main_pc s \<noteq> Prompt \<or> opened s
     \<Longrightarrow> play_inv t \<and> (main_pc t \<noteq> Prompt \<or> opened t)"
proof (induction as arbitrary: s)
  case (Cons a as)
  then obtain u where u: "perform a s = Some u" "perform_all as u = Some t" by (auto split: option.splits)
  from forward_underway [OF Cons.prems(3,4) u(1)] Cons.prems(2) have "play_inv u" "main_pc u \<noteq> Prompt \<or> opened u" by simp_all
  from Cons.IH [OF u(2) _ this] Cons.prems(2) show ?case by simp
qed simp

lemma playing_ends:
  assumes "play_inv s" "main_pc s \<noteq> Prompt \<or> opened s"
  shows "\<exists>as s'. list_all forward as \<and> perform_all as s = Some s' \<and> set (pcs s') \<subseteq> {Over} \<and> main_pc s' = Prompt"
  using assms
proof (induction "work s" arbitrary: s rule: less_induct)
  case less
  show ?case
  proof (cases "main_pc s = Prompt \<and> set (pcs s) \<subseteq> {Over}")
    case True
    then show ?thesis by (intro exI [of _ "[]"] exI [of _ s]) simp
  next
    case False
    from forward_possible [OF less.prems False] obtain a t where a: "forward a" "perform a s = Some t" by blast
    from less.hyps [OF forward_less [OF less.prems(1) a(2,1)] forward_underway [OF less.prems a(2,1)]] obtain as s' where
      "list_all forward as" "perform_all as t = Some s'" "set (pcs s') \<subseteq> {Over}" "main_pc s' = Prompt" by blast
    then show ?thesis using a by (intro exI [of _ "a # as"] exI [of _ s']) simp
  qed
qed


section \<open>A second playing, and reconnecting\<close>

text \<open>
  After a playing the threads are over and the barrier still waits for all of them: the second \<open>play\<close> leaves the
  main thread at the barrier, and no act can ever free it.
\<close>

definition dead :: "system \<Rightarrow> bool" where
  "dead s \<longleftrightarrow> (\<forall>a. perform a s = None)"

text \<open>
  C30: After a playing the threads are over and the barrier still waits for all of them: the second \<open>play\<close> leaves the
  main thread at the barrier, and no act can ever free it.
\<close>

theorem second_play_deadlocks:
  assumes "set (pcs s) \<subseteq> {Over}" "main_pc s = Prompt" "0 < cur s" "1 < parties s" "arrived s = 0"
  shows "\<exists>s'. perform_all [Play_Command, Release, Main_Arrives] s = Some s' \<and> main_pc s' = Main_At_Barrier \<and> dead s'"
proof -
  have over: "pcs s ! i = Over" if "i < length (pcs s)" for i using assms(1) that by (meson nth_mem singletonD subsetD)
  have wake: "map wake (pcs s) = pcs s" using assms(1) by (intro map_idI) auto
  let ?s' = "s\<lparr>main_pc := Main_At_Barrier, accepting := False, flag := True, arrived := 1\<rparr>"
  have "perform_all [Play_Command, Release, Main_Arrives] s = Some ?s'"
    using assms wake by (simp add: arrive_def)
  moreover have "perform a ?s' = None" for a
    using over by (cases a) (auto simp: at_def)
  ultimately show ?thesis by (auto simp: dead_def)
qed

text \<open>
  After a reconnect the flag of the last playing is still set: a new client's thread goes on to send a file nobody
  has written for it. And a barrier made for fewer clients opens while one of them has not acknowledged.
\<close>

definition one_client_play :: "act list" where
  "one_client_play = [Connect, Greet 0, Check 0, Play_Command, Release, Main_Arrives, Check 0, Acknowledged 0, Order 0]"

lemma stale_flag:
  "\<exists>s. perform_all (one_client_play @ [Reconnect, Connect, Greet 1, Check 1]) boot = Some s
     \<and> at s 1 Sending \<and> main_pc s = Prompt \<and> accepting s"
  by (simp add: one_client_play_def boot_def arrive_def goto_def at_def)


section \<open>The handlers follow the acts\<close>

text \<open>
  How the server's variables show in the system: the handlers of theory \<open>Cmd_Handlers\<close>, run from the prompt, do what
  the acts of the main thread say.
\<close>

definition view :: "server \<Rightarrow> system \<Rightarrow> bool" where
  "view s t \<longleftrightarrow> clients_ok s \<and> cur t = length (clients_of s) \<and> (flag t \<longleftrightarrow> midi_ready s \<noteq> 0)
     \<and> (accepting t \<longleftrightarrow> accepting_clients s \<noteq> 0) \<and> (parties t = 0 \<longleftrightarrow> barrier_initialized s = 0)"

lemma connect_refines:
  assumes "view s t" "main_pc t = Prompt" "handle_socket H fd s = Inr (x, s')"
  shows "if x = None then \<exists>t'. perform Connect t = Some t' \<and> view s' t' else view s' t"
  using handle_socket_ok [OF _ assms(3)] assms(1,2) by (auto simp: view_def)

lemma reconnect_refines:
  assumes "view s t" "main_pc t = Prompt"
  shows "\<exists>s' t'. handle_reconnect H s = Inr s' \<and> perform Reconnect t = Some t' \<and> view s' t'"
proof -
  from assms(1) obtain s' where s': "handle_reconnect H s = Inr s'" using handle_reconnect_succeeds by (auto simp: view_def)
  with handle_reconnect_ok [OF _ s'] assms show ?thesis by (auto simp: view_def)
qed

text \<open>Writing the files touches none of the variables the threads share, except those cleared at its start.\<close>

definition same_shared :: "server \<Rightarrow> server \<Rightarrow> bool" where
  "same_shared s s' \<longleftrightarrow> threads s' = threads s \<and> clients s' = clients s \<and> tid s' = tid s \<and> midi_ready s' = midi_ready s
     \<and> accepting_clients s' = accepting_clients s \<and> barrier_initialized s' = barrier_initialized s"

lemma make_tmp_dir_same: "make_tmp_dir H s = Inr s' \<Longrightarrow> same_shared s s'"
  by (auto simp: make_tmp_dir_def tmp_dir_name_def sys Let_def same_shared_def andThen_def
      split: option.splits sum.splits if_splits)

lemma write_out_files_same: "write_out_files H ms i s = Inr s' \<Longrightarrow> same_shared s s'"
proof (induction ms arbitrary: i s)
  case Nil
  then show ?case by (simp add: same_shared_def)
next
  case (Cons m ms)
  then obtain f a d s1 where "s1 = tell (env_of H) (Call ''fopen'' [] [a, ''w'']) s"
    "write_out_files H ms (i + 1) (s1\<lparr>disk := d, midi_out_names := f\<rparr>) = Inr s'"
    by (auto simp: sys Let_def andThen_def split: option.splits sum.splits)
  with Cons.IH show ?case by (auto simp: same_shared_def)
qed


lemma create_midi_files_same:
  assumes "create_midi_files H s = Inr s'"
  shows "threads s' = threads s \<and> clients s' = clients s \<and> tid s' = tid s \<and> midi_ready s' = 0 \<and> accepting_clients s' = 0
    \<and> barrier_initialized s' = barrier_initialized s"
  using assms
  by (auto simp: create_midi_files_def server_prints Let_def res_iff set_store_def same_shared_def
      split: option.splits if_splits dest!: make_tmp_dir_same write_out_files_same)

lemma clients_of_empty_iff:
  assumes "clients_ok s" "client_list s = Inr l"
  shows "tl_len l = int (length (clients_of s))"
proof -
  obtain a l where a: "clients s = Some a" "lists (threads s) a = Some l" "tlist_ok (threads s, l)"
    using assms(1) by (auto simp: conns_ok_def)
  then show ?thesis using assms(2)
    by (simp add: client_list_def get_list_def clients_of_def served_def threads_of_def tlist_ok_rep)
qed

lemma same_shared_trans: "same_shared s1 s2 \<Longrightarrow> same_shared s2 s3 \<Longrightarrow> same_shared s1 s3"
  by (simp add: same_shared_def)

lemma player_parts_same:
  "same_shared s (need_settings E s)" "same_shared s (need_synth E s)" "same_shared s (renew_player E s)"
  "same_shared s (need_adriver E s)" "same_shared s (tell E c s)"
  by (simp_all add: need_settings_def need_synth_def renew_player_def need_adriver_def sys Let_def same_shared_def)

lemma player_setup_same: "same_shared s (player_setup F E s)"
  unfolding player_setup_def sys Let_def by (rule player_parts_same same_shared_trans [OF _ player_parts_same(4)]
      same_shared_trans [OF _ player_parts_same(5)] same_shared_trans [OF _ player_parts_same(3)]
      same_shared_trans [OF _ player_parts_same(2)] same_shared_trans [OF _ player_parts_same(1)])+

lemma player_setup_fields [simp]:
  fixes s :: server
  shows "threads (player_setup F E s) = threads s" "clients (player_setup F E s) = clients s" "tid (player_setup F E s) = tid s"
  "midi_ready (player_setup F E s) = midi_ready s" "accepting_clients (player_setup F E s) = accepting_clients s"
  "barrier_initialized (player_setup F E s) = barrier_initialized s"
  using player_setup_same [of s F E] by (simp_all add: same_shared_def)

text \<open>
  \<open>play\<close> with clients is the two acts that lead to the barrier; without clients, or when it is refused,
  it is none of the system's acts.
\<close>

lemma play_refines:
  assumes v: "view s t" "main_pc t = Prompt" and r: "handle_play H s = Inr (x, s')"
  shows "if mfile s = None \<or> clients_of s = [] then view s' t
    else \<exists>t'. perform_all [Play_Command, Release] t = Some t' \<and> main_pc t' = Arriving \<and> view s' t'"
proof -
  have ok: "clients_ok s" using v(1) by (simp add: view_def)
  consider (none) "mfile s = None" | (alone) m l s1 where "mfile s = Some m" "client_list s = Inr l" "tl_len l = 0"
      "play_alone H m s = Inr s1" "s' = s1"
    | (all) m l s1 s2 where "mfile s = Some m" "client_list s = Inr l" "tl_len l \<noteq> 0" "create_midi_files H s = Inr s1"
      "play_along H m (release_files H (tl_len l) s1) = Inr s2" "same_shared s2 s'"
  proof (cases "mfile s")
    case None
    then show ?thesis by (rule none)
  next
    case (Some m)
    then obtain l where l: "client_list s = Inr l" using r by (auto simp: handle_play_def res_iff)
    show ?thesis
    proof (cases "tl_len l = 0")
      case True
      then show ?thesis using r Some l by (intro alone) (auto simp: handle_play_def res_iff)
    next
      case False
      then obtain s1 s2 where "create_midi_files H s = Inr s1" "play_along H m (release_files H (tl_len l) s1) = Inr s2"
        "same_shared s2 s'"
        using r Some l by (auto simp: handle_play_def res_iff Let_def same_shared_def)
      then show ?thesis using Some l False by (intro all)
    qed
  qed
  then show ?thesis
  proof cases
    case none
    then show ?thesis using r v by (auto simp: handle_play_def server_prints view_def)
  next
    case alone
    then have "same_shared s s'"
      by (auto simp: play_alone_def Let_def server_prints sys player_add_midi_file_def player_play_def same_shared_def split: option.splits if_splits)
    moreover have "clients_of s = []" using clients_of_empty_iff [OF ok alone(2)] alone(3) by simp
    ultimately show ?thesis using v clients_of_cong [of s' s] by (simp add: view_def same_shared_def)
  next
    case all
    have n: "tl_len l = int (length (clients_of s))" by (rule clients_of_empty_iff [OF ok all(2)])
    have rel: "same_shared (s1\<lparr>midi_ready := 1, barrier_initialized := if barrier_initialized s1 = 0 then 1 else barrier_initialized s1\<rparr>)
        (release_files H (tl_len l) s1)"
      by (simp add: release_files_def Let_def server_prints same_shared_def)
    have "same_shared (release_files H (tl_len l) s1) s2"
      using all(5) by (auto simp: play_along_def server_prints sys player_add_midi_file_def same_shared_def split: option.splits if_splits)
    with rel all(6) create_midi_files_same [OF all(4)]
    have s': "threads s' = threads s" "clients s' = clients s" "tid s' = tid s" "midi_ready s' = 1" "accepting_clients s' = 0"
      "barrier_initialized s' \<noteq> 0"
      by (auto simp: same_shared_def)
    let ?t' = "t\<lparr>main_pc := Arriving, accepting := False, flag := True, parties := (if parties t = 0 then cur t + 1 else parties t),
        pcs := map wake (pcs t)\<rparr>"
    have k: "clients_of s \<noteq> []" using n all(3) by auto
    then have "perform_all [Play_Command, Release] t = Some ?t'" using v by (simp add: view_def)
    moreover have "view s' ?t'" using s' v clients_of_cong [of s' s] by (auto simp: view_def)
    ultimately show ?thesis using k all(1) by (intro if_split [THEN iffD2]) auto
  qed
qed

text \<open>What the main thread does from its prompt to the variables the threads share.\<close>

inductive main_does :: "host \<Rightarrow> server \<Rightarrow> act list \<Rightarrow> server \<Rightarrow> bool" for H where
  new_client: "handle_socket H fd s = Inr (None, s') \<Longrightarrow> main_does H s [Connect] s'"
| no_client: "handle_socket H fd s = Inr (Some x, s') \<Longrightarrow> main_does H s [] s'"
| reconnect: "handle_reconnect H s = Inr s' \<Longrightarrow> main_does H s [Reconnect] s'"
| play: "handle_play H s = Inr (x, s') \<Longrightarrow> mfile s \<noteq> None \<Longrightarrow> clients_of s \<noteq> [] \<Longrightarrow>
    main_does H s [Play_Command, Release] s'"
| no_play: "handle_play H s = Inr (x, s') \<Longrightarrow> mfile s = None \<or> clients_of s = [] \<Longrightarrow> main_does H s [] s'"

lemma setup_connections_shared:
  "clients_of (setup_connections H s) = []" "midi_ready (setup_connections H s) = midi_ready s"
  "accepting_clients (setup_connections H s) = 1" "barrier_initialized (setup_connections H s) = barrier_initialized s"
  by (simp_all add: setup_connections_def new_tlist_def Let_def server_prints clients_of_def served_def threads_of_def members_def)

lemma boot_refines:
  "midi_ready s = 0 \<Longrightarrow> barrier_initialized s = 0 \<Longrightarrow> cells_ok (threads s) \<Longrightarrow> view (setup_connections H s) boot"
  using setup_connections_ok [of s H] setup_connections_shared [of H s]
  by (simp add: view_def boot_def)


end
