(* ===== verification/Delivery.thy ===== *)
theory Delivery
  imports Midi_Splitter Client Shell Concurrency
begin

text \<open>
  What the server, a thread of it and a client need of their surroundings for a file to come from the server's store
  to a client's player.
\<close>

section \<open>From the server's file to the client's player\<close>

text \<open>
  What playing needs: \<open>k\<close> clients, a file of format 1 with a track beside the tempo track, a program built as the
  Makefile builds it, and room on the disk for every client's file.
\<close>

definition playable :: "host \<Rightarrow> server \<Rightarrow> nat \<Rightarrow> string \<Rightarrow> int \<Rightarrow> timed list list \<Rightarrow> bool" where
  "playable H s k d division tss \<longleftrightarrow> clients_ok s \<and> length (clients_of s) = k \<and> 0 < k \<and> k \<le> 1000
     \<and> (\<exists>m n. mfile s = Some m \<and> loaded (store_of s) m division tss \<and> writable_file n tss) \<and> 1 < length tss
     \<and> bd_accumulator (build_of H) \<and> 4 * k \<le> usable_of H k \<and> bd_noplay (build_of H) \<and> dir_ready H (tmp_dir s) d
     \<and> (\<forall>j < k. disk_takes H (d @ out_name (int j)) (length (part_bytes division tss k j)))"

text \<open>What a client's thread needs of its connection and of the main thread.\<close>

definition served_well :: "env \<Rightarrow> s_thread_arg \<Rightarrow> bool" where
  "served_well E a \<longleftrightarrow> connected E (socket a) \<and> (\<forall>t. ret (E t (Send (socket a) (chars ''connected'' @ [0]))) = 10)
     \<and> (\<exists>r. ready_after r E a)"

text \<open>What the client needs: it reaches the server as \<open>fd\<close>, it has memory, and it can answer.\<close>

definition can_reach :: "fluid_h \<Rightarrow> env \<Rightarrow> (trace \<Rightarrow> addrinfo list) \<Rightarrow> string \<Rightarrow> string list \<Rightarrow> client \<Rightarrow> int \<Rightarrow> bool" where
  "can_reach F C resolve garbage argv c fd \<longleftrightarrow> length argv \<le> 1 \<and> received_in fd (trace c) = [] \<and> fd \<noteq> -1
     \<and> fst (connect_to C resolve garbage (if length argv = 1 then argv ! 0 else SERVER_ADDR) (client_player_setup F C c)) = fd
     \<and> (\<forall>t n. ret (C t (Call ''malloc'' [n] [])) \<noteq> 0) \<and> (\<forall>t. ret (C t (Send fd [1])) \<noteq> -1)"

lemma midi_bytes_nonempty: "midi_bytes format division tss \<noteq> []"
  by (simp add: midi_bytes_def header_chunk_def tag_def)

lemma part_bytes_nonempty: "part_bytes division tss k i \<noteq> []"
  by (simp add: part_bytes_def midi_bytes_nonempty)

lemma handle_play_parts:
  assumes "playable H s k d division tss"
  shows "\<exists>s'. handle_play H s = Inr (1, s') \<and> clients_ok s' \<and> clients_of s' = clients_of s
    \<and> midi_ready s' = 1 \<and> accepting_clients s' = 0 \<and> barrier_initialized s' \<noteq> 0 \<and> tmp_dir s' = Some d
    \<and> (\<forall>i < k. disk s' (d @ out_name (int i)) = Some (part_bytes division tss k i))"
proof -
  obtain m n where p: "clients_ok s" "length (clients_of s) = k" "0 < k" "k \<le> 1000"
    "mfile s = Some m" "loaded (store_of s) m division tss" "1 < length tss" "writable_file n tss"
    "bd_accumulator (build_of H)" "4 * k \<le> usable_of H k" "bd_noplay (build_of H)" "dir_ready H (tmp_dir s) d"
    "\<And>j. j < k \<Longrightarrow> disk_takes H (d @ out_name (int j)) (length (part_bytes division tss k j))"
    using assms by (auto simp: playable_def)
  show ?thesis by (rule handle_play_ok [OF p])
qed

end
