(* ===== verification/Samples.thy ===== *)
theory Samples
  imports Delivery
begin

text \<open>
  Concrete inputs at which the theorems are applied: a file, a server with one client, and an environment in which every
  call succeeds.
\<close>

section \<open>A sample file\<close>

definition sample_path :: "byte list" where
  "sample_path = [47, 116, 109, 112, 47, 97]"

definition sample_tracks :: "timed list list" where
  "sample_tracks =
    [[(10, Meta 0x51 [7, 161, 32]), (0, Meta 0x03 [97, 98]), (5, Meta 0x2f [])],
     [(96, Channel 0x90 0 60 100), (200, Channel 0x90 0 60 0), (0, Channel 0xe0 1 3 64), (0, Meta 0x2f [])]]"

definition sample_fs :: "byte list \<Rightarrow> byte list option" where
  "sample_fs p = (if p = sample_path then Some (midi_bytes 1 480 sample_tracks) else None)"

definition sample_rd :: rd where
  "sample_rd = \<lparr>inp = [], Mf_toberead = 0, Mf_currtime = 0, Mf_nomerge = 0, Msgbuff = [], Msgindex = 0,
     malloc_max = 4096, junk = (\<lambda>_. 0), left_first = True\<rparr>"

definition sample_reader :: reader where
  "sample_reader = \<lparr>rd_heap = empty_heap, rd_mfile = None\<rparr>"

lemma sample_ok:
  "path_ok sample_path" "heap_ok (rd_heap sample_reader)"
  "list_all (track_fits (malloc_max sample_rd)) sample_tracks" "list_all track_rewritable sample_tracks"
  by (simp_all add: sample_path_def path_ok_def sample_reader_def empty_heap_def heap_ok_def sample_rd_def
      sample_tracks_def track_fits_def timed_ok_def channel_types_def fixed_length_def data_length_def
      two_bytes_def varlen_enc_def digits128.simps track_rewritable_def pitch_wheel_def)

lemma sample_fs_path: "sample_fs sample_path = Some (midi_bytes 1 480 sample_tracks)"
  by (simp add: sample_fs_def)

lemma sample_bytes_length: "length (midi_bytes 1 480 (map rewritten_track sample_tracks)) \<le> 1000"
  by (simp add: midi_bytes_def header_chunk_def track_chunk_def sample_tracks_def varlen_enc_def digits128.simps
      pitch_wheel_def two_bytes_def)

section \<open>An environment\<close>

text \<open>
  Every call succeeds; what comes in on a socket is \<open>input\<close>, what is read from a file \<open>content\<close>. New objects get
  numbers that no call has answered before.
\<close>

definition fresh_number :: "trace \<Rightarrow> int" where
  "fresh_number t = 1 + sum_list (map (\<lambda>(c, a). \<bar>ret a\<bar>) t)"

fun answer_ret :: "byte list \<Rightarrow> trace \<Rightarrow> libcall \<Rightarrow> int" where
  "answer_ret content t (Send fd b) = int (length b)"
| "answer_ret content t (Call f xs ss) =
     (if made f \<noteq> None \<or> f = ''socket'' then fresh_number t
      else if f = ''ftell'' then int (length content)
      else if f \<in> {''ferror'', ''getaddrinfo'', ''RL_ISSTATE'', ''pthread_create'', ''bind'', ''listen'', ''connect'', ''setsockopt''} then 0
      else if f = ''fluid_player_get_total_ticks'' then 9600
      else 1)"
| "answer_ret content t c = 0"

fun answer_bytes :: "byte list \<Rightarrow> byte list \<Rightarrow> trace \<Rightarrow> libcall \<Rightarrow> byte list" where
  "answer_bytes input content t (Recv fd n) = take (nat n) (drop (length (received_in fd t)) input)"
| "answer_bytes input content t (Call f xs ss) = (if f = ''fread'' then content else [])"
| "answer_bytes input content t c = []"

definition obliging :: "byte list \<Rightarrow> byte list \<Rightarrow> env" where
  "obliging input content t c = \<lparr>ret = answer_ret content t c, bytes = answer_bytes input content t c, str = ''/home'',
     stored = (case c of Call f xs ss \<Rightarrow> if f = ''stat'' then 0x41ED else 100000 | _ \<Rightarrow> 0)\<rparr>"

lemma live_call_ret: "(k, x) \<in> live_call L (c, a) \<Longrightarrow> (k, x) \<in> L \<or> x = ret a"
  by (cases c) (auto split: option.splits)

lemma live_in_ret: "(k, x) \<in> live_in t \<Longrightarrow> \<exists>(c, a) \<in> set t. ret a = x"
proof -
  have "(k, x) \<in> foldl live_call L t \<Longrightarrow> (k, x) \<in> L \<or> (\<exists>(c, a) \<in> set t. ret a = x)" for L
  proof (induction t arbitrary: L)
    case (Cons p t)
    then show ?case using live_call_ret [of k x L "fst p" "snd p"] by (cases p) fastforce
  qed simp
  then show "(k, x) \<in> live_in t \<Longrightarrow> ?thesis" by (auto simp: live_in_def)
qed

lemma fresh_number_new: "(c, a) \<in> set t \<Longrightarrow> ret a < fresh_number t"
proof -
  assume "(c, a) \<in> set t"
  then have "\<bar>ret a\<bar> \<le> sum_list (map (\<lambda>(c, a). \<bar>ret a\<bar>) t)"
    by (intro member_le_sum_list) force+
  then show ?thesis by (simp add: fresh_number_def)
qed

lemma fresh_number_pos: "0 < fresh_number t"
proof -
  have "0 \<le> sum_list (map (\<lambda>(c, a). \<bar>ret a\<bar>) t)" by (rule sum_list_nonneg) auto
  then show ?thesis by (simp add: fresh_number_def)
qed

lemma obliging_fluid: "fluid_gives (obliging input content)"
  unfolding fluid_gives_def
proof (intro allI impI)
  fix t f xs ss k
  assume "made f = Some k"
  then have r: "ret (obliging input content t (Call f xs ss)) = fresh_number t" by (simp add: obliging_def)
  have "(k, fresh_number t) \<notin> live_in t" using fresh_number_new by (fastforce dest: live_in_ret)
  then show "ret (obliging input content t (Call f xs ss)) \<noteq> 0 \<and> (k, ret (obliging input content t (Call f xs ss))) \<notin> live_in t"
    unfolding r using fresh_number_pos [of t] by simp
qed

lemma obliging_connected: "connected (obliging input content) fd"
  by (simp add: connected_def send_ok_def obliging_def)

lemma obliging_file: "file_there (obliging input content) name content"
  by (simp add: file_there_def obliging_def made_def Let_def)

lemma obliging_ready: "ready_after 0 (obliging input content) a"
  by (simp add: ready_after_def obliging_def made_def)

lemma obliging_delivers: "delivers (obliging input content) fd input"
  by (auto simp: delivers_def Let_def obliging_def intro!: exI append_take_drop_id [symmetric])

lemma obliging_served: "served_well (obliging input content) a"
  using obliging_connected [of input content "socket a"] obliging_ready [of input content a]
  by (auto simp: served_well_def obliging_def chars_def)

section \<open>A server with one client\<close>

definition sample_host :: host where
  "sample_host = \<lparr>build_of = makefile_build, fluid = \<lparr>FLUIDSYNTH_VERSION = ''2'', FLUID_PLAYER_READY = 0,
     FLUID_PLAYER_PLAYING = 1, FLUID_PLAYER_DONE = 2\<rparr>, env_of = obliging [] [], usable_of = (\<lambda>n. 4 * n + 8)\<rparr>"

definition sample_arg :: s_thread_arg where
  "sample_arg = \<lparr>socket = 4, arg_tid = 0, midi_ready_ptr = ''midi_ready'', midi_ready_cond = ''midi_ready_cond'',
     midi_ready_cond_mutex = ''midi_ready_cond_mutex'', midi_play_barrier = ''midi_play_barrier''\<rparr>"

definition sample_threads :: theap where
  "sample_threads = \<lparr>nodes = [1 \<mapsto> \<lparr>thread = 7, arg = 0, nextn = None\<rparr>], thread_args = [0 \<mapsto> sample_arg],
     lists = [2 \<mapsto> \<lparr>tl_first = Some 1, tl_last = Some 1, tl_len = 1\<rparr>], tbrk = 3\<rparr>"

definition sample_server :: "Mfile option \<Rightarrow> reader \<Rightarrow> server" where
  "sample_server m t = \<lparr>trace = [], settings = 0, synth = 0, player = 0, adriver = 0, sin_size = 0, addr_text = '''',
     client_fd = -1, their_addr = replicate 16 0, midi_ready = 0, barrier_initialized = 0, clients = Some 2,
     threads = sample_threads, accepting_clients = 1, tid = 1, mfile = m, midi_out_names = [], tmp_dir = None,
     running = 1, disk = (\<lambda>_. None), midi_state = sample_rd, reader_state = t\<rparr>"

lemma sample_clients: "clients_ok (sample_server m t)" "clients_of (sample_server m t) = [(7, sample_arg)]"
  by (simp_all add: sample_server_def sample_threads_def conns_ok_def cells_ok_def tlist_ok_rep theap_ok_def members_def
      served_def threads_of_def sample_arg_def eval_nat_numeral clients_of_def)

definition sample_addrinfo :: addrinfo where
  "sample_addrinfo = \<lparr>ai_family = 2, ai_socktype = 1, ai_protocol = 6, ai_addr = [2, 0, 56, 104, 127, 0, 0, 1]\<rparr>"

lemma fresh_number_valid [simp]: "fresh_number t \<noteq> -1" "fresh_number t \<noteq> 0"
  using fresh_number_pos [of t] by simp_all

section \<open>Playing the sample file\<close>

lemma sample_file_loaded:
  "\<exists>m r t. Mfile_from_file makefile_build sample_fs sample_path sample_rd sample_reader = Inr (Some m, r, t)
     \<and> loaded (rd_heap t) m 480 sample_tracks"
  by (rule read_loaded [where fs = sample_fs, OF sample_fs_path sample_ok(1) _ _ _ sample_ok(3,2)])
     (simp_all add: sample_tracks_def)

lemma sample_part: "part_bytes 480 sample_tracks 1 i = midi_bytes 1 480 (map rewritten_track sample_tracks)"
  by (simp add: part_bytes_def shares_def alone_items_def sample_tracks_def)

lemma sample_playable:
  assumes "loaded (rd_heap t) m 480 sample_tracks"
  shows "playable sample_host (sample_server (Some m) t) 1 ''/home/tmp/'' 480 sample_tracks"
proof -
  have "writable_file (malloc_max sample_rd) sample_tracks" using sample_ok by (simp add: writable_file_def)
  moreover have "disk_takes sample_host name (length (part_bytes 480 sample_tracks 1 i))" for name i
    using sample_bytes_length unfolding sample_part by (simp add: disk_takes_def sample_host_def obliging_def made_def)
  moreover have "dir_ready sample_host None ''/home/tmp/''"
    by (simp add: dir_ready_def sample_host_def obliging_def made_def S_ISDIR_def)
  moreover have "1 < length sample_tracks" by (simp add: sample_tracks_def)
  ultimately show ?thesis
    using assms sample_clients [of "Some m" t]
    by (auto simp: playable_def store_of_def sample_server_def sample_host_def makefile_build_def)
qed

definition sample_content :: "byte list" where
  "sample_content = midi_bytes 1 480 (map rewritten_track sample_tracks)"

section \<open>Players and a client\<close>

definition no_player :: player where
  "no_player = \<lparr>trace = [], settings = 0, synth = 0, player = 0, adriver = 0\<rparr>"

lemma no_player_inv: "player_inv no_player"
  by (simp add: player_inv_def no_player_def live_in_def lawful_in_def objects_def held_def)

definition sample_fluid :: fluid_h where
  "sample_fluid = \<lparr>FLUIDSYNTH_VERSION = ''2'', FLUID_PLAYER_READY = 0, FLUID_PLAYER_PLAYING = 1, FLUID_PLAYER_DONE = 2\<rparr>"

definition new_client :: client where
  "new_client = \<lparr>trace = [], settings = 0, synth = 0, player = 0, adriver = 0,
     server_fd = 0, fbuff = 0, fcontent = [], fsize = 0, sbuf = 0, client_running = 0\<rparr>"

definition new_client_fd :: "byte list \<Rightarrow> int" where
  "new_client_fd input = fst (connect_to (obliging input []) (\<lambda>t. [sample_addrinfo]) ''garbage'' SERVER_ADDR
     (client_player_setup sample_fluid (obliging input []) new_client))"

lemma new_client_reaches:
  "can_reach sample_fluid (obliging input []) (\<lambda>t. [sample_addrinfo]) ''garbage'' [] new_client (new_client_fd input)"
proof -
  have "new_client_fd input \<noteq> -1"
    by (simp add: new_client_fd_def connect_to_def sys Let_def obliging_def made_def split_beta)
  moreover have "received_in fd (trace new_client) = []" for fd by (simp add: received_in_def new_client_def)
  ultimately show ?thesis by (auto simp: can_reach_def obliging_def made_def new_client_fd_def)
qed

end
