(* ===== verification/File_Properties.thy ===== *)
theory File_Properties
  imports Samples
begin

text \<open>
  What the program does with MIDI files: reading, keeping, copying, splitting and writing them. The theorems here
  state it over the definitions of theories \<open>Midi\<close> to \<open>Midi_Splitter\<close>; each is applied once at a concrete input.
\<close>

section \<open>Tracks and their memory\<close>

text \<open>
  C18: Appending new events to an empty track keeps it well formed (its list is linked in order, its length and its last
  event are right, its data are live, its delta times are the distances) and leaves exactly these events, in order.
\<close>

theorem track_built:
  assumes "heap_ok h" "list_all new_ok vs"
  shows "\<exists>h' t. add_all add_event (h, new_mtrack) vs = Inr (h', t) \<and> building (h', t) \<and> track_items h' t = map new_view vs"
proof -
  have "building (h, new_mtrack)" "track_items h new_mtrack = []"
    using assms(1) by (simp_all add: track_ok_def track_addrs_def new_mtrack_def bufs_live_def track_events_def
        deltas_ok_def track_deltas_def track_items_def)
  with track_list.add_all_ok [OF _ assms(2), of "(h, new_mtrack)"] show ?thesis by auto
qed

definition sample_events :: "new_event list" where
  "sample_events = [New_reg 0 0x90 0 60 100, New_sysex 5 3 [0xf0, 1, 0], New_meta 9 0x51 3 [7, 161, 32]]"

theorem track_built_witness:
  "\<exists>h' t. add_all add_event (empty_heap, new_mtrack) sample_events = Inr (h', t) \<and> building (h', t)
    \<and> track_items h' t = map new_view sample_events"
  by (rule track_built) (simp_all add: heap_ok_def empty_heap_def sample_events_def)

text \<open>
  C19: Freeing a track succeeds and frees exactly its events and the data they own.\<close>

theorem free_track_exactly:
  assumes "track_owned h t"
  shows "\<exists>h'. free_Mtrack h t = Inr h' \<and> heap_ok h'
    \<and> (\<forall>a. evs h' a = (if a \<in> set (track_addrs h t) then None else evs h a))
    \<and> (\<forall>a. bufs h' a = (if a \<in> set (track_bufs h t) then None else bufs h a))"
  using free_Mtrack_ok [OF assms] assms by (auto simp: without_def track_owned_def heap_ok_def)


text \<open>A track with one system exclusive message.\<close>

definition sysex_heap :: heap where
  "sysex_heap = \<lparr>evs = [0 \<mapsto> \<lparr>deltatime = 0, curtime = 5, event_data = MEVENT_SYSEX \<lparr>sx_msg = Some 1, sx_len = 2\<rparr>, nxt = None\<rparr>],
     bufs = [1 \<mapsto> [7, 0]], brk = 2\<rparr>"

definition sysex_track :: Mtrack where
  "sysex_track = new_mtrack\<lparr>trk_first := Some 0, trk_last := Some 0, trk_len := 1\<rparr>"

lemma sysex_track_owned: "track_owned sysex_heap sysex_track" "track_bufs sysex_heap sysex_track = [1]"
proof -
  have a: "track_addrs sysex_heap sysex_track = [0]"
    by (simp add: track_addrs_def sysex_heap_def sysex_track_def new_mtrack_def eval_nat_numeral)
  show "track_bufs sysex_heap sysex_track = [1]"
    unfolding track_bufs_def a by (simp add: event_bufs_def event_at_def data_ptr_def sysex_heap_def)
  then show "track_owned sysex_heap sysex_track"
    by (simp add: track_owned_def track_ok_def a bufs_live_def track_events_def event_at_def buf_live_def data_ptr_def)
       (simp add: sysex_heap_def sysex_track_def new_mtrack_def heap_ok_def)
qed

theorem free_track_exactly_witness:
  "\<exists>h'. free_Mtrack sysex_heap sysex_track = Inr h' \<and> heap_ok h'
    \<and> (\<forall>a. evs h' a = (if a \<in> set (track_addrs sysex_heap sysex_track) then None else evs sysex_heap a))
    \<and> (\<forall>a. bufs h' a = (if a \<in> set (track_bufs sysex_heap sysex_track) then None else bufs sysex_heap a))"
  by (rule free_track_exactly [OF sysex_track_owned(1)])

text \<open>
  C29: A copy made with \<open>Mtrack_copy\<close> shares its data with the original: when both are freed, as happens to
  every track that is split, the second \<open>free_Mtrack\<close> frees memory that is already free.
\<close>

theorem copy_freed_twice:
  assumes "bd_accumulator B" "track_owned h t" "track_bufs h t \<noteq> []" "strings_ok t"
  shows "\<exists>h1 c h2. Mtrack_copy B h t = Inr (h1, c) \<and> free_Mtrack h1 t = Inr h2 \<and> free_Mtrack h2 c = Inl Double_Free"
proof -
  obtain n i x where str: "cstrdup (trk_name t) = Inr n" "cstrdup (trk_instrument t) = Inr i" "cstrdup (trk_text t) = Inr x"
    using assms(4) cstrdup_ok [of "trk_name t"] cstrdup_ok [of "trk_instrument t"] cstrdup_ok [of "trk_text t"]
    by (auto simp: strings_ok_def)
  have t: "heap_ok h" "track_ok h t" "bufs_live h t" using assms(2) by (simp_all add: track_owned_def)
  from Mtrack_copy_ok [OF assms(1) t str] obtain h1 c where c: "Mtrack_copy B h t = Inr (h1, c)" by blast
  have "track_owned h1 t" by (rule Mtrack_copy_shares(3) [OF assms(1,2) c])
  then obtain h2 where f: "free_Mtrack h1 t = Inr h2" using free_Mtrack_ok by blast
  from c f copy_free_both [OF assms(1-3) c f] show ?thesis by (intro exI conjI)
qed

theorem copy_freed_twice_witness:
  "\<exists>h1 c h2. Mtrack_copy makefile_build sysex_heap sysex_track = Inr (h1, c) \<and> free_Mtrack h1 sysex_track = Inr h2
    \<and> free_Mtrack h2 c = Inl Double_Free"
  by (rule copy_freed_twice [OF _ sysex_track_owned(1)])
     (simp add: makefile_build_def, simp add: sysex_track_owned(2), simp add: strings_ok_def sysex_track_def new_mtrack_def c_string_def)

section \<open>Numbers in files\<close>

text \<open>
  C15: \<open>WriteVarLen\<close>, which packs the groups of seven bits into one word and takes them out again, writes
  the same bytes as the encoding that defines variable-length quantities, for every value of at most eight groups.
\<close>

theorem WriteVarLen_reference:
  assumes "unat v < 2 ^ 56" "room (length (varlen_enc (unat v))) w"
  shows "WriteVarLen (stdio_fns e) v w = Inr (out (varlen_enc (unat v)) w)"
  by (rule WriteVarLen_out [OF assms])

definition sample_wr :: wr where
  "sample_wr = \<lparr>fout = new_stream 100, laststatus = 0, Mf_numbyteswritten = 0\<rparr>"

theorem WriteVarLen_reference_witness:
  "WriteVarLen (stdio_fns None) 200 sample_wr = Inr (out (varlen_enc (unat (200 :: ulong))) sample_wr)"
  by (rule WriteVarLen_reference) (simp_all add: room_def sample_wr_def new_stream_def varlen_enc_def digits128.simps)



theorem WriteVarLen_nine_groups_witness:
  "WriteVarLen (stdio_fns None) (2 ^ 56 + 5) sample_wr = Inr (out (varlen_enc (unat (2 ^ 56 + 5 :: ulong) - unat (2 ^ 56 + 5 :: ulong) mod 128)) sample_wr)"
  by (rule WriteVarLen_nine_groups) (simp_all add: room_def sample_wr_def new_stream_def)


text \<open>
  C26: A track chunk that announces more bytes than the file has is never accepted, whatever the bytes are and
  whatever the handlers do.
\<close>

theorem truncated_track_refused:
  assumes "inp r = tag ''MTrk'' @ be32 n @ rest" "length rest < n" "n < 2 ^ 32"
  shows "readtrack H r s \<noteq> Inr x"
proof -
  from readmt_tag [where s = "''MTrk''", OF assms(1), of H] obtain c where c: "readmt H ''MTrk'' r = Inr (c, r\<lparr>inp := be32 n @ rest\<rparr>)" "c \<noteq> EOF_c"
    by auto
  have "read32bit H (r\<lparr>inp := be32 n @ rest\<rparr>) = Inr (int n, advance 4 (r\<lparr>inp := be32 n @ rest\<rparr>))"
    by (rule read32bit_enc [OF assms(3)]) simp
  from readtrack_truncated [OF c this] assms(2) show ?thesis by (simp add: be32_def)
qed

theorem truncated_track_refused_witness:
  "\<forall>x. readtrack (bindfcns makefile_build) (sample_rd\<lparr>inp := tag ''MTrk'' @ be32 4 @ [0, 0xff, 0x2f]\<rparr>) sample_reader \<noteq> Inr x"
  by (rule allI, rule truncated_track_refused [where n = 4 and rest = "[0, 0xff, 0x2f]"]) simp_all

section \<open>Reading and splitting files\<close>



lemma sample_writable: "writable_file (malloc_max sample_rd) sample_tracks"
  using sample_ok by (simp add: writable_file_def)

lemma sample_shares: "1 \<le> k \<Longrightarrow> part_bytes 480 sample_tracks k i = midi_bytes 1 480 (map rewritten_track sample_tracks)"
  by (simp add: part_bytes_def shares_def alone_items_def sample_tracks_def)





definition one_track :: "int \<Rightarrow> Mfile" where
  "one_track format = new_mfile\<lparr>mf_format := format, ntracks := 1, tracks := [Some new_mtrack]\<rparr>"

lemma one_track_ok: "file_ok empty_heap (one_track format) [new_mtrack]"
  by (simp add: file_ok_def one_track_def forest_def heap_ok_def empty_heap_def track_ok_def track_addrs_def new_mtrack_def
      bufs_live_def track_events_def deltas_ok_def track_deltas_def track_items_def file_strings_ok_def strings_ok_def new_mfile_def)

theorem split_format_2_witness:
  "Mfile_split_by_tracks makefile_build (\<lambda>n. 4 * n) empty_heap (one_track 2) (int 1) = Inl Out_Of_Bounds"
  by (rule split_format_2 [OF _ one_track_ok]) (simp_all add: makefile_build_def one_track_def)

theorem split_only_tempotrack_witness:
  "Mfile_split_by_tracks makefile_build (\<lambda>n. 4 * n) empty_heap (one_track 1) (int 1) = Inl Div_By_Zero"
  by (rule split_only_tempotrack [OF _ one_track_ok]) (simp_all add: makefile_build_def one_track_def)

end
