(* ===== verification/Server_Properties.thy ===== *)
theory Server_Properties
  imports Samples
begin

text \<open>
  What the server does: its commands, its clients, their threads, its shell and its sockets. The theorems here state it
  over the definitions of theories \<open>Sys\<close> to \<open>Shell\<close>; theorems that stand in those theories are applied here at a
  concrete input.
\<close>

section \<open>Playing\<close>




section \<open>Clients come and go\<close>

lemma tid_clients: "clients_ok s \<Longrightarrow> tid s = int (length (clients_of s))"
  by (auto simp: conns_ok_def clients_of_def served_def threads_of_def)

text \<open>
  C12: A connection that is taken adds one client at the end of the list, with the next number; one that is refused
  leaves the clients as they were. Either way the list stays well formed: linked in order, its length right, a thread
  argument of its own for each client, the clients numbered from 0.
\<close>

theorem client_numbered:
  assumes "clients_ok s" "handle_socket H fd s = Inr (x, s')"
  shows "clients_ok s' \<and> (if x = None then accepting_clients s \<noteq> 0
      \<and> (\<exists>th a. clients_of s' = clients_of s @ [(th, a)] \<and> arg_tid a = int (length (clients_of s)))
    else clients_of s' = clients_of s)"
  using handle_socket_ok [OF assms] tid_clients [OF assms(1)] by auto

lemma sample_connection: "\<exists>s'. handle_socket sample_host 3 (sample_server m t) = Inr (None, s')"
  by (rule handle_socket_succeeds) (simp_all add: gives_threads_def sample_clients, simp_all add: sample_host_def obliging_def made_def sample_server_def)

theorem client_numbered_witness:
  "\<exists>s'. handle_socket sample_host 3 (sample_server None sample_reader) = Inr (None, s') \<and> clients_ok s'
    \<and> (\<exists>th a. clients_of s' = [(7, sample_arg), (th, a)] \<and> arg_tid a = 1)"
proof -
  obtain s' where s': "handle_socket sample_host 3 (sample_server None sample_reader) = Inr (None, s')"
    using sample_connection by blast
  from client_numbered [OF sample_clients(1) s'] s' show ?thesis by (auto simp: sample_clients)
qed



text \<open>The second time, the list is no longer there.\<close>

lemma sample_player_inv: "player_inv (sample_server m t)"
  by (simp add: player_inv_def sample_server_def live_in_def lawful_in_def objects_def held_def)


section \<open>Commands\<close>

text \<open>
  C40: Before the first \<open>play\<close> there is no player, and \<open>pause\<close>, \<open>resume\<close>, \<open>loop\<close>, \<open>noloop\<close> and
  \<open>restart\<close> hand a null pointer to fluidsynth.
\<close>

theorem commands_before_play:
  assumes "player_inv s" "player s = 0"
  shows "\<not> lawful (snd (handle_pause H s)) \<and> \<not> lawful (snd (handle_resume H s)) \<and> \<not> lawful (snd (handle_loop H s))
    \<and> \<not> lawful (snd (handle_noloop H s)) \<and> \<not> lawful (snd (handle_restart H s))"
  using player_command_lawful [OF assms(1), of H] assms(2) by simp

theorem commands_before_play_witness:
  "\<not> lawful (snd (handle_pause sample_host (sample_server None sample_reader)))"
  using commands_before_play [OF sample_player_inv, of None sample_reader sample_host] by (simp add: sample_server_def)

text \<open>
  C27: \<open>seek p%\<close> goes to the \<open>p\<close>-th hundredth of the piece, rounded down, which lies within it; when the product
  of \<open>p\<close> and the length does not fit into an \<open>int\<close>, the multiplication overflows.
\<close>

theorem seek_percent:
  assumes "p \<le> 100" "ret (env_of H (trace s) (Call ''fluid_player_get_total_ticks'' [player s] [])) = int n"
  shows "if p * n < 2 ^ 31 then \<exists>s1. handle_seek H (dec_nat p @ ''%'') s = Inr (0, player_seek (env_of H) (int (p * n div 100)) s1)
      \<and> p * n div 100 \<le> n \<and> player s1 = player s
    else handle_seek H (dec_nat p @ ''%'') s = Inl Signed_Overflow"
  using handle_seek_percent [OF assms] handle_seek_percent_overflow [OF assms] by simp

theorem seek_percent_witness:
  "\<exists>s1. handle_seek sample_host (dec_nat 50 @ ''%'') (sample_server None sample_reader)
    = Inr (0, player_seek (env_of sample_host) (int (50 * 9600 div 100)) s1)"
proof -
  have "ret (env_of sample_host (trace (sample_server None sample_reader))
      (Call ''fluid_player_get_total_ticks'' [player (sample_server None sample_reader)] [])) = int 9600"
    by (simp add: sample_host_def obliging_def made_def)
  from seek_percent [OF _ this, of 50] show ?thesis by auto
qed

text \<open>
  C28: The name of a client's file fits its buffer for the first thousand clients; for the next one \<open>sprintf\<close> writes
  behind the end of the buffer.
\<close>

theorem midi_filename_bound:
  assumes "0 \<le> i"
  shows "get_midi_filename (Some d) i = (if i < 1000 then Inr (d @ out_name i) else Inl Out_Of_Bounds)"
  using out_name_fits [OF assms] by (simp add: get_midi_filename_def)

theorem midi_filename_bound_witness: "get_midi_filename (Some ''/tmp/'') 1000 = Inl Out_Of_Bounds"
  using midi_filename_bound [of 1000 "''/tmp/''"] by simp


section \<open>The threads of the clients\<close>

theorem sendall_fd_prefix_witness:
  "\<exists>t rc w'. sendall_fd (obliging [] []) 4 [1, 2, 3] (int (length [1, 2, 3 :: byte])) (sample_server None sample_reader)
      = Inr (int t, rc, w') \<and> t \<le> length [1, 2, 3 :: byte]
    \<and> sent_on 4 w' = sent_on 4 (sample_server None sample_reader) @ take t [1, 2, 3] \<and> (rc = 0 \<and> t = length [1, 2, 3 :: byte] \<or> rc = -1)"
  using obliging_connected by (intro sendall_fd_prefix) (simp_all add: connected_def)



section \<open>The shell\<close>

definition sample_shell :: "Mfile option \<Rightarrow> shell" where
  "sample_shell m = \<lparr>srv = sample_server m sample_reader, line_ptr = 0, args = None, sockfd = 3, sigwinch_received = 0\<rparr>"

lemma sample_malloc: "ret (env_of sample_host t (Call ''malloc'' xs [])) \<noteq> 0"
  by (simp add: sample_host_def obliging_def made_def)

theorem cb_linehandler_words_witness:
  "\<exists>s0 args'. cb_linehandler sample_host (Some ''seek 10'') (sample_shell None) =
      andThen (run_words sample_host (0 < count_char ''seek 10'' CHR '' '') (words_of ''seek 10'') s0) (\<lambda>(found, s1).
        let s2 = (if found then s1 else eprintf sample_host ''%s: command not found'' [] [hd (words_of ''seek 10'')] s1)
        in Inr (Going, (sample_shell None)\<lparr>srv := run (env_of sample_host) ''free'' [] [''line''] s2, args := Some args'\<rparr>))
    \<and> clients_of s0 = clients_of (srv (sample_shell None)) \<and> mfile s0 = mfile (srv (sample_shell None))"
  by (rule cb_linehandler_words [OF _ sample_malloc]) (simp add: words_of_def)

theorem cb_linehandler_blank_witness: "cb_linehandler sample_host (Some '' '') (sample_shell None) = Inl Null_Deref"
  by (rule cb_linehandler_blank [OF _ _ sample_malloc]) (simp_all add: words_of_def)

section \<open>Sockets and the terminal\<close>

lemma open_call_ret: "x \<in> open_call D (c, a) \<Longrightarrow> x \<in> D \<or> x = ret a"
  by (cases c) (auto split: if_splits)

lemma obliging_fds: "fresh_fds (obliging input content)"
proof -
  have r: "x \<in> foldl open_call D t \<Longrightarrow> x \<in> D \<or> (\<exists>(c, a) \<in> set t. ret a = x)" for D t and x :: int
  proof (induction t arbitrary: D)
    case (Cons p t)
    then show ?case using open_call_ret [of x D "fst p" "snd p"] by (cases p) fastforce
  qed simp
  have "fresh_number t \<notin> foldl open_call {} t" for t
    using r [of "fresh_number t" "{}" t] fresh_number_new by fastforce
  then show ?thesis by (simp add: fresh_fds_def obliging_def)
qed

lemma sample_setup: "\<exists>fd w'. setup_server (obliging [] []) (\<lambda>t. [sample_addrinfo]) (sample_server None sample_reader) = Inr (fd, w')"
  by (simp add: setup_server_def sys Let_def obliging_def made_def)

theorem setup_server_ok_witness:
  "\<exists>fd w'. setup_server (obliging [] []) (\<lambda>t. [sample_addrinfo]) (sample_server None sample_reader) = Inr (fd, w')
    \<and> (open_fds w' = insert fd (open_fds (sample_server None sample_reader)) \<and> fd \<notin> open_fds (sample_server None sample_reader)
        \<and> listening w' fd \<or> fd = 1 \<and> open_fds w' = open_fds (sample_server None sample_reader))"
proof -
  obtain fd w' where s: "setup_server (obliging [] []) (\<lambda>t. [sample_addrinfo]) (sample_server None sample_reader) = Inr (fd, w')"
    using sample_setup by blast
  from setup_server_ok [OF obliging_fds s] s show ?thesis by blast
qed

definition typing :: env where
  "typing t c = (let (l, p, n) = edited (''sta'', 2, 0) t in
     \<lparr>ret = (case c of Call f xs ss \<Rightarrow> if f = ''rl_point'' then p else if f = ''rl_end'' then int (length l) else 1 | _ \<Rightarrow> 0),
      bytes = [], str = l, stored = 0\<rparr>)"

theorem my_rl_printf_keeps_line_witness:
  "edited (''sta'', 2, 0) (trace (my_rl_printf typing (Stdout ''hello'' [] []) (sample_server None sample_reader)))
    = edited (''sta'', 2, 0) (trace (sample_server None sample_reader))"
  by (rule my_rl_printf_keeps_line) (simp add: readline_answers_def typing_def split_beta Let_def)

end
