(* ===== verification/Client_Properties.thy ===== *)
theory Client_Properties
  imports Samples
begin

text \<open>
  What the client and the player, which both programs have, do.
\<close>

section \<open>The player\<close>



text \<open>An environment in which every new player is object 5, and a player with the objects 1 to 4.\<close>

definition numbered :: "int \<Rightarrow> answer" where
  "numbered x = \<lparr>ret = x, bytes = [], str = [], stored = 0\<rparr>"

definition set_up :: player where
  "set_up = \<lparr>trace = [(Call ''new_fluid_settings'' [] [], numbered 1), (Call ''new_fluid_synth'' [1] [], numbered 2),
      (Call ''new_fluid_player'' [2] [], numbered 3), (Call ''new_fluid_audio_driver'' [1, 2] [], numbered 4)],
    settings = 1, synth = 2, player = 3, adriver = 4\<rparr>"


section \<open>The client\<close>

text \<open>A connected client that has received everything.\<close>

definition sample_client :: client where
  "sample_client = \<lparr>trace = trace set_up, settings = 1, synth = 2, player = 3, adriver = 4,
     server_fd = 6, fbuff = 0, fcontent = [], fsize = 0, sbuf = CLIENT_PLAY, client_running = 1\<rparr>"


lemma received_set_up: "received_in 6 (trace sample_client) = []"
  by (simp add: received_in_def sample_client_def set_up_def)

lemma sample_client_sound: "sound_player sample_client"
  by (auto simp: player_inv_def sample_client_def set_up_def live_in_def lawful_in_def objects_def held_def numbered_def
      made_def kinds_def unmade_def ready_def)

theorem client_step_sound_witness:
  "\<exists>c'. client_step (obliging [CLIENT_PLAY] []) sample_client = Inr (Going, c') \<and> sound_player c'"
proof -
  have fd: "server_fd sample_client = 6" by (simp add: sample_client_def)
  have "to_come (server_fd sample_client) [CLIENT_PLAY] sample_client = CLIENT_PLAY # []"
    unfolding fd by (simp add: to_come_def received_set_up)
  from client_step_play [OF obliging_delivers this] obtain c1 where
    "client_step (obliging [CLIENT_PLAY] []) sample_client = Inr (Going, client_player_play (obliging [CLIENT_PLAY] []) c1)" by blast
  with client_step_sound [OF this sample_client_sound] show ?thesis by blast
qed



end
