(* ===== verification/Network_Router.thy ===== *)
theory Network_Router
  imports Player
begin

text \<open>
  \<open>exp/network_router.c\<close> and \<open>exp/fluidsup.h\<close>: an experiment of the authors with fluidsynth, which plays the files
  named on the command line, and a handler for MIDI events that would route them by channel.
\<close>

section \<open>Events\<close>

record fluid_midi_event =
  ev_next :: int
  paramptr :: int
  dtime :: "32 word"
  param1 :: "32 word"
  param2 :: "32 word"
  ev_type :: byte
  channel :: byte

definition NOTE_OFF :: int where "NOTE_OFF = 0x80"
definition NOTE_ON :: int where "NOTE_ON = 0x90"
definition KEY_PRESSURE :: int where "KEY_PRESSURE = 0xa0"
definition CONTROL_CHANGE :: int where "CONTROL_CHANGE = 0xb0"
definition PROGRAM_CHANGE :: int where "PROGRAM_CHANGE = 0xc0"
definition CHANNEL_PRESSURE :: int where "CHANNEL_PRESSURE = 0xd0"
definition PITCH_BEND :: int where "PITCH_BEND = 0xe0"
definition MIDI_SYSEX :: int where "MIDI_SYSEX = 0xf0"
definition MIDI_SYSTEM_RESET :: int where "MIDI_SYSTEM_RESET = 0xff"
definition MIDI_TEXT :: int where "MIDI_TEXT = 0x01"
definition MIDI_LYRIC :: int where "MIDI_LYRIC = 0x05"
definition MIDI_SET_TEMPO :: int where "MIDI_SET_TEMPO = 0x51"

lemmas event_type_defs = NOTE_OFF_def NOTE_ON_def KEY_PRESSURE_def CONTROL_CHANGE_def PROGRAM_CHANGE_def
  CHANNEL_PRESSURE_def PITCH_BEND_def MIDI_SYSEX_def MIDI_SYSTEM_RESET_def MIDI_TEXT_def MIDI_LYRIC_def MIDI_SET_TEMPO_def

text \<open>
  The arguments of a call of the synthesizer are evaluated left to right. \<open>ok\<close> and \<open>failed\<close> are fluidsynth's
  \<open>FLUID_OK\<close> and \<open>FLUID_FAILED\<close>; \<open>p\<close> is the address of the event, and \<open>event\<close> what is there.
\<close>

definition send_synth :: "env \<Rightarrow> string \<Rightarrow> int \<Rightarrow> int \<Rightarrow> string list \<Rightarrow> int \<Rightarrow> 'a world_scheme \<Rightarrow> int \<times> 'a world_scheme" where
  "send_synth E f the_synth chan gets p w =
     (let (xs, w1) = fold (\<lambda>g (xs, w). let (x, w') = get E g [p] [] w in (xs @ [x], w')) gets ([], w)
      in get E f (the_synth # chan # xs) [] w1)"

text \<open>The case \<open>KEY_PRESSURE\<close> has no statement and falls into the next one.\<close>

definition network_event_handler ::
  "int \<Rightarrow> int \<Rightarrow> env \<Rightarrow> int \<Rightarrow> int \<Rightarrow> fluid_midi_event \<Rightarrow> 'a world_scheme \<Rightarrow> int \<times> 'a world_scheme" where
  "network_event_handler ok failed E the_synth p event w =
     (let (type, w1) = get E ''fluid_midi_event_get_type'' [p] [] w;
          (chan, w2) = get E ''fluid_midi_event_get_channel'' [p] [] w1 in
      if type = NOTE_ON then send_synth E ''fluid_synth_noteon'' the_synth chan
        [''fluid_midi_event_get_key'', ''fluid_midi_event_get_velocity''] p w2
      else if type = NOTE_OFF then send_synth E ''fluid_synth_noteoff'' the_synth chan [''fluid_midi_event_get_key''] p w2
      else if type = CONTROL_CHANGE then send_synth E ''fluid_synth_cc'' the_synth chan
        [''fluid_midi_event_get_control'', ''fluid_midi_event_get_value''] p w2
      else if type = PROGRAM_CHANGE then send_synth E ''fluid_synth_program_change'' the_synth chan [''fluid_midi_event_get_program''] p w2
      else if type = CHANNEL_PRESSURE then send_synth E ''fluid_synth_channel_pressure'' the_synth chan [''fluid_midi_event_get_program''] p w2
      else if type = KEY_PRESSURE \<or> type = PITCH_BEND then send_synth E ''fluid_synth_pitch_bend'' the_synth chan
        [''fluid_midi_event_get_pitch''] p w2
      else if type = MIDI_SYSTEM_RESET then get E ''fluid_synth_system_reset'' [the_synth] [] w2
      else if type = MIDI_SYSEX then get E ''fluid_synth_sysex'' [the_synth, paramptr event, s32 (uint (param1 event)), 0, 0, 0, 0] [] w2
      else if type \<in> {MIDI_TEXT, MIDI_LYRIC, MIDI_SET_TEMPO} then (ok, w2)
      else (failed, w2))"

section \<open>The program\<close>

text \<open>
  One argument after the other, \<open>argv\<close> without the program's name. A soundfont anywhere on the command line loads the first
  argument.
\<close>

definition process_arg :: "env \<Rightarrow> int \<Rightarrow> int \<Rightarrow> string \<Rightarrow> string \<Rightarrow> 'a world_scheme \<Rightarrow> 'a world_scheme" where
  "process_arg E the_synth the_player argv1 a w =
     (let (sf, w1) = get E ''fluid_is_soundfont'' [] [a] w;
          w2 = (if sf \<noteq> 0 then run E ''fluid_synth_sfload'' [the_synth, 1] [argv1] w1 else w1);
          (mf, w3) = get E ''fluid_is_midifile'' [] [a] w2
      in if mf \<noteq> 0 then run E ''fluid_player_add'' [the_player] [a] w3 else w3)"

definition process_args :: "env \<Rightarrow> int \<Rightarrow> int \<Rightarrow> string list \<Rightarrow> 'a world_scheme \<Rightarrow> 'a world_scheme" where
  "process_args E the_synth the_player argv w = fold (process_arg E the_synth the_player (hd argv)) argv w"

definition network_router_main :: "env \<Rightarrow> string list \<Rightarrow> 'a world_scheme \<Rightarrow> int \<times> 'a world_scheme" where
  "network_router_main E argv w =
     (let (the_settings, w1) = get E ''new_fluid_settings'' [] [] w;
          (the_synth, w2) = get E ''new_fluid_synth'' [the_settings] [] w1;
          (the_player, w3) = get E ''new_fluid_player'' [the_synth] [] w2;
          w4 = run E ''fluid_settings_setstr'' [the_settings] [''audio.driver'', ''pulseaudio''] w3;
          w5 = run E ''fluid_settings_setstr'' [the_settings] [''synth.midi-channels'', ''256''] w4;
          w6 = tell E (Print (puts ''processing args'')) w5;
          w7 = process_args E the_synth the_player argv w6;
          (the_adriver, w8) = get E ''new_fluid_audio_driver'' [the_settings, the_synth] [] w7;
          w9 = tell E (Print (puts ''enter anything to start playback'')) w8;
          w10 = run E ''getchar'' [] [] w9;
          w11 = run E ''fluid_player_play'' [the_player] [] w10;
          w12 = run E ''fluid_player_join'' [the_player] [] w11;
          w13 = run E ''delete_fluid_audio_driver'' [the_adriver] [] w12;
          w14 = run E ''delete_fluid_player'' [the_player] [] w13;
          w15 = run E ''delete_fluid_synth'' [the_synth] [] w14
      in (0, run E ''delete_fluid_settings'' [the_settings] [] w15))"

section \<open>The objects of a run\<close>

lemma process_arg_objects:
  assumes "(Synth, y) \<in> live w" "(Player_Object, p) \<in> live w" "lawful w"
  shows "live (process_arg E y p f a w) = live w" "lawful (process_arg E y p f a w)"
  using assms by (simp_all add: process_arg_def player_eqs)

lemma process_args_objects:
  assumes "(Synth, y) \<in> live w" "(Player_Object, p) \<in> live w" "lawful w"
  shows "live (process_args E y p argv w) = live w \<and> lawful (process_args E y p argv w)"
proof -
  have "live (fold (process_arg E y p f) as w) = live w \<and> lawful (fold (process_arg E y p f) as w)" for f as
    using assms by (induction as arbitrary: w) (simp_all add: process_arg_objects)
  then show ?thesis by (simp add: process_args_def)
qed

text \<open>
  A run of the program keeps to the contract of fluidsynth, whatever its arguments are, and deletes every object it
  has made.
\<close>

theorem network_router_lawful:
  assumes "live w = {}" "lawful w"
  shows "live (snd (network_router_main E argv w)) = {} \<and> lawful (snd (network_router_main E argv w))"
proof -
  define s where "s = ret (E (trace w) (Call ''new_fluid_settings'' [] []))"
  define w1 where "w1 = run E ''new_fluid_settings'' [] [] w"
  define y where "y = ret (E (trace w1) (Call ''new_fluid_synth'' [s] []))"
  define w2 where "w2 = run E ''new_fluid_synth'' [s] [] w1"
  define p where "p = ret (E (trace w2) (Call ''new_fluid_player'' [y] []))"
  define w3 where "w3 = run E ''new_fluid_player'' [y] [] w2"
  define w6 where "w6 = tell E (Print (puts ''processing args''))
    (run E ''fluid_settings_setstr'' [s] [''synth.midi-channels'', ''256'']
      (run E ''fluid_settings_setstr'' [s] [''audio.driver'', ''pulseaudio''] w3))"
  define w7 where "w7 = process_args E y p argv w6"
  define d where "d = ret (E (trace w7) (Call ''new_fluid_audio_driver'' [s, y] []))"
  define w12 where "w12 = run E ''fluid_player_join'' [p] [] (run E ''fluid_player_play'' [p] [] (run E ''getchar'' [] []
    (tell E (Print (puts ''enter anything to start playback'')) (run E ''new_fluid_audio_driver'' [s, y] [] w7))))"
  have 1: "live w1 = {(Settings, s)} \<and> lawful w1" using assms by (simp add: w1_def s_def player_eqs)
  have 2: "live w2 = {(Synth, y), (Settings, s)} \<and> lawful w2" using 1 by (simp add: w2_def y_def player_eqs)
  have 3: "live w3 = {(Player_Object, p), (Synth, y), (Settings, s)} \<and> lawful w3" using 2 by (simp add: w3_def p_def player_eqs)
  then have "live w6 = {(Player_Object, p), (Synth, y), (Settings, s)} \<and> lawful w6" by (simp add: w6_def player_eqs)
  then have 7: "live w7 = {(Player_Object, p), (Synth, y), (Settings, s)} \<and> lawful w7"
    using process_args_objects [of y w6 p E argv] by (simp add: w7_def)
  then have "live w12 = {(Audio_Driver, d), (Player_Object, p), (Synth, y), (Settings, s)} \<and> lawful w12"
    by (simp add: w12_def d_def player_eqs)
  moreover have "snd (network_router_main E argv w) = run E ''delete_fluid_settings'' [s] [] (run E ''delete_fluid_synth'' [y] []
      (run E ''delete_fluid_player'' [p] [] (run E ''delete_fluid_audio_driver'' [d] [] w12)))"
    by (simp add: network_router_main_def sys Let_def w12_def w7_def w6_def w3_def w2_def w1_def d_def p_def y_def s_def)
  ultimately show ?thesis by (simp add: player_eqs insert_Diff_if)
qed

text \<open>Pressure on a key is sent as a bend of the pitch.\<close>

lemma key_pressure_bends:
  assumes "\<And>t. ret (E t (Call ''fluid_midi_event_get_type'' [p] [])) = KEY_PRESSURE"
  shows "\<exists>w' x c. network_event_handler k f E sy p event w = get E ''fluid_synth_pitch_bend'' [sy, c, x] [] w'"
  using assms by (auto simp: network_event_handler_def send_synth_def sys Let_def event_type_defs)

end
