(* ===== verification/Smf_Load.thy ===== *)
theory Smf_Load
  imports Wire
begin

text \<open>
  The loader of libsmf (\<open>exp/libsmf-1.3/src/smf_load.c\<close>), the library for MIDI files the authors tried besides
  \<open>midifile.c\<close>: chunks, variable-length quantities and events, up to where events are added to tracks. A pointer into a
  buffer is an offset into its bytes; reading outside them is a fault. The messages for GLib's log are left out.
\<close>

section \<open>Buffers\<close>

definition peek :: "byte list \<Rightarrow> nat \<Rightarrow> byte res" where
  "peek mem p = (if p < length mem then Inr (mem ! p) else Inl Out_Of_Bounds)"

definition fetch :: "byte list \<Rightarrow> nat \<Rightarrow> nat \<Rightarrow> byte list res" where
  "fetch mem p k = (if p + k \<le> length mem then Inr (take k (drop p mem)) else Inl Out_Of_Bounds)"

text \<open>\<open>ntohl\<close> and \<open>ntohs\<close> of the bytes in memory.\<close>

definition be_value :: "byte list \<Rightarrow> int" where
  "be_value bs = foldl (\<lambda>a b. a * 256 + uint b) 0 bs"

section \<open>Chunks\<close>

text \<open>The fields of the struct but for the arrays of tracks and tempos. \<open>file_buffer\<close> is \<open>None\<close> for a null pointer.\<close>

record smf =
  smf_format :: int
  ppqn :: int
  frames_per_second :: int
  resolution :: int
  number_of_tracks :: int
  file_buffer :: "byte list option"
  file_buffer_length :: int
  next_chunk_offset :: int
  expected_number_of_tracks :: int

definition smf_bytes :: "smf \<Rightarrow> byte list" where
  "smf_bytes s = (case file_buffer s of None \<Rightarrow> [] | Some bs \<Rightarrow> bs)"

lemma smf_bytes_update [simp]:
  "smf_bytes (s\<lparr>next_chunk_offset := i\<rparr>) = smf_bytes s" "smf_bytes (s\<lparr>file_buffer_length := n\<rparr>) = smf_bytes s"
  "smf_bytes (s\<lparr>file_buffer := Some bs\<rparr>) = bs"
  by (simp_all add: smf_bytes_def)

text \<open>\<open>isalpha\<close> in the C locale.\<close>

definition isalpha :: "byte \<Rightarrow> bool" where
  "isalpha b \<longleftrightarrow> 65 \<le> b \<and> b \<le> 90 \<or> 97 \<le> b \<and> b \<le> 122"

text \<open>The sum is computed as a \<open>size_t\<close> and cut to an \<open>int\<close>.\<close>

definition next_chunk :: "build \<Rightarrow> smf \<Rightarrow> (nat option \<times> smf) res" where
  "next_chunk B s =
     andThen (assert_c B (0 < file_buffer_length s)) (\<lambda>_. andThen (assert_c B (0 \<le> next_chunk_offset s)) (\<lambda>_.
     if next_chunk_offset s + 8 \<ge> file_buffer_length s then Inr (None, s)
     else if next_chunk_offset s < 0 then Inl Out_Of_Bounds
     else let p = nat (next_chunk_offset s) in
       andThen (fetch (smf_bytes s) p 4) (\<lambda>chunk_id.
       if \<not> list_all isalpha chunk_id then Inr (None, s)
       else andThen (fetch (smf_bytes s) (p + 4) 4) (\<lambda>len.
         let off = s32 (next_chunk_offset s + 8 + be_value len)
         in Inr (Some p, s\<lparr>next_chunk_offset := (if off > file_buffer_length s then file_buffer_length s else off)\<rparr>)))))"

definition chunk_signature_matches :: "byte list \<Rightarrow> nat \<Rightarrow> string \<Rightarrow> bool res" where
  "chunk_signature_matches mem p signature = andThen (fetch mem p 4) (\<lambda>b. Inr (b = map of_char signature))"

definition parse_mthd_header :: "build \<Rightarrow> smf \<Rightarrow> (int \<times> smf) res" where
  "parse_mthd_header B s =
     (if file_buffer_length s < 6 then Inr (-1, s)
      else andThen (chunk_signature_matches (smf_bytes s) 0 ''MThd'') (\<lambda>m.
        if \<not> m then Inr (-2, s)
        else andThen (next_chunk B s) (\<lambda>(mthd, s1). case mthd of
            None \<Rightarrow> Inr (-3, s1)
          | Some p \<Rightarrow> andThen (assert_c B (p = 0)) (\<lambda>_. andThen (fetch (smf_bytes s1) (p + 4) 4) (\<lambda>len.
              if s32 (be_value len) \<noteq> 6 then Inr (-4, s1) else Inr (0, s1))))))"

text \<open>The fields of the header are read where they should be, whether the file goes on that far or not.\<close>

definition parse_division :: "byte \<Rightarrow> byte \<Rightarrow> smf \<Rightarrow> int \<times> smf" where
  "parse_division d1 d2 s =
     (let s1 = (if 0 \<le> sint d1 then s\<lparr>ppqn := be_value [d1, d2], frames_per_second := 0, resolution := 0\<rparr>
                else s\<lparr>ppqn := 0, frames_per_second := - sint d1, resolution := sint d2\<rparr>)
      in if ppqn s1 = 0 then (-4, s1) else (0, s1))"

definition parse_mthd_chunk :: "build \<Rightarrow> smf \<Rightarrow> (int \<times> smf) res" where
  "parse_mthd_chunk B s =
     andThen (parse_mthd_header B s) (\<lambda>(rc, s1).
       if rc \<noteq> 0 then Inr (1, s1)
       else andThen (fetch (smf_bytes s1) 8 2) (\<lambda>f.
         let s2 = s1\<lparr>smf_format := be_value f\<rparr> in
         if smf_format s2 < 0 \<or> smf_format s2 > 2 then Inr (-1, s2)
         else if smf_format s2 = 2 then Inr (-2, s2)
         else andThen (fetch (smf_bytes s2) 10 2) (\<lambda>n.
           let s3 = s2\<lparr>expected_number_of_tracks := be_value n\<rparr> in
           if expected_number_of_tracks s3 \<le> 0 then Inr (-3, s3)
           else andThen (peek (smf_bytes s3) 12) (\<lambda>d1. andThen (peek (smf_bytes s3) 13) (\<lambda>d2.
             Inr (parse_division d1 d2 s3))))))"

text \<open>
  Events without the pointer to their track and without their time in seconds, which is a \<open>double\<close>; tracks without the
  pointer to the \<open>smf\<close>, which the functions get besides.
\<close>

record smf_event =
  event_number :: int
  delta_time_pulses :: int
  time_pulses :: int
  track_number :: int
  midi_buffer :: "byte list option"
  midi_buffer_length :: int

record smf_track =
  events_array :: "smf_event list"
  number_of_events :: int
  next_event_number :: int
  time_of_next_event :: int
  trk_buffer :: "nat option"
  trk_buffer_length :: int
  next_event_offset :: int

definition parse_mtrk_header :: "build \<Rightarrow> smf \<Rightarrow> smf_track \<Rightarrow> (int \<times> smf \<times> smf_track) res" where
  "parse_mtrk_header B s t =
     andThen (next_chunk B s) (\<lambda>(mtrk, s1). case mtrk of
         None \<Rightarrow> Inr (-1, s1, t)
       | Some p \<Rightarrow> andThen (chunk_signature_matches (smf_bytes s1) p ''MTrk'') (\<lambda>m.
           if \<not> m then Inr (-2, s1, t)
           else andThen (fetch (smf_bytes s1) (p + 4) 4) (\<lambda>len.
             Inr (0, s1, t\<lparr>trk_buffer := Some p, trk_buffer_length := s32 (8 + be_value len), next_event_offset := 8\<rparr>))))"

section \<open>Variable-length quantities\<close>

text \<open>
  The loop of \<open>extract_vlq\<close>: \<open>None\<close> at the end of the buffer, otherwise the value and the number of bytes. The shift of an
  \<open>int\<close> may overflow before the length is looked at.
\<close>

function vlq_loop :: "byte list \<Rightarrow> nat \<Rightarrow> int \<Rightarrow> nat \<Rightarrow> int \<Rightarrow> (int \<times> nat) option res" where
  "vlq_loop mem buf n i val =
     (if n \<le> int i then Inr None
      else andThen (peek mem (buf + i)) (\<lambda>c.
        let val' = val * 128 + uint (c AND 0x7F) in
        if 2 ^ 31 \<le> val' then Inl Signed_Overflow
        else if c AND 0x80 \<noteq> 0 then vlq_loop mem buf n (i + 1) val'
        else Inr (Some (val', i + 1))))"
  by pat_completeness auto
termination by (relation "measure (\<lambda>(mem, buf, n, i, val). nat (n - int i))") auto

declare vlq_loop.simps [simp del]

text \<open>The code, and what is stored for value and length, which also happens when they are too long.\<close>

definition extract_vlq :: "build \<Rightarrow> byte list \<Rightarrow> nat \<Rightarrow> int \<Rightarrow> (int \<times> (int \<times> int) option) res" where
  "extract_vlq B mem buf n =
     andThen (assert_c B (0 < n)) (\<lambda>_. andThen (vlq_loop mem buf n 0 0) (\<lambda>x. case x of
         None \<Rightarrow> Inr (-1, None)
       | Some (v, k) \<Rightarrow> Inr (if 4 < k then -2 else 0, Some (v, int k))))"

section \<open>Short files\<close>

lemma be_value_append: "be_value (bs @ [b]) = be_value bs * 256 + uint b"
  by (simp add: be_value_def)

lemma be_value_range: "0 \<le> be_value bs \<and> be_value bs < 256 ^ length bs"
proof (induction bs rule: rev_induct)
  case Nil
  then show ?case by (simp add: be_value_def)
next
  case (snoc b bs)
  have "uint b < 256" using uint_bounded [of b] by simp
  moreover have "be_value bs + 1 \<le> 256 ^ length bs" using snoc by simp
  then have "(be_value bs + 1) * 256 \<le> 256 ^ length bs * 256" by (rule mult_right_mono) simp
  ultimately show ?case using snoc by (simp add: be_value_append algebra_simps)
qed

text \<open>
  A chunk is found only inside the file, and the next one is looked for behind it; a length from \<open>2 ^ 31\<close> on leaves a
  negative offset, which the next call asserts against.
\<close>

lemma next_chunk_found:
  assumes "next_chunk B s = Inr (Some p, s')"
  shows "int p = next_chunk_offset s" "int p + 8 < file_buffer_length s" "p + 8 \<le> length (smf_bytes s)"
    "file_buffer s' = file_buffer s" "next_chunk_offset s' \<le> file_buffer_length s"
  using assms by (auto simp: next_chunk_def fetch_def Let_def res_iff split: if_splits)

text \<open>\<open>parse_mthd_chunk\<close> reads the fields of a header that is announced but not there.\<close>

lemma parse_mthd_chunk_over_read:
  assumes "smf_bytes s = map of_char ''MThd'' @ [0, 0, 0, 6, b]" "file_buffer_length s = 9" "next_chunk_offset s = 0"
  shows "parse_mthd_chunk B s = Inl Out_Of_Bounds"
  using assms
  by (simp add: parse_mthd_chunk_def parse_mthd_header_def chunk_signature_matches_def next_chunk_def fetch_def isalpha_def
      be_value_def s32_def Let_def of_char_def)

end
