(* ===== verification/Smf_Events.thy ===== *)
theory Smf_Events
  imports Smf_Load
begin

text \<open>
  The events of libsmf: how \<open>smf_load.c\<close> takes one out of a track, the predicates of \<open>smf_decode.c\<close> and \<open>smf.c\<close> on
  them, and the variable-length quantities \<open>smf_save.c\<close> writes. \<open>M n\<close> says that \<open>malloc\<close> finds \<open>n\<close> bytes.
\<close>

section \<open>Lengths\<close>

definition is_status_byte :: "byte \<Rightarrow> bool" where
  "is_status_byte status \<longleftrightarrow> status AND 0x80 \<noteq> 0"

definition is_sysex_byte :: "byte \<Rightarrow> bool" where
  "is_sysex_byte status \<longleftrightarrow> status = 0xF0"

definition is_escape_byte :: "byte \<Rightarrow> bool" where
  "is_escape_byte status \<longleftrightarrow> status = 0xF7"

text \<open>The length and, where it is stored, the number of bytes consumed.\<close>

definition expected_sysex_length :: "build \<Rightarrow> byte \<Rightarrow> byte list \<Rightarrow> nat \<Rightarrow> int \<Rightarrow> (int \<times> int option) res" where
  "expected_sysex_length B status mem second_byte n =
     andThen (assert_c B (status = 0xF0)) (\<lambda>_.
     if n < 3 then Inr (-1, None)
     else andThen (extract_vlq B mem second_byte n) (\<lambda>(rc, x).
       if rc \<noteq> 0 then Inr (-1, None)
       else case x of None \<Rightarrow> Inr (-1, None) | Some (sysex_length, len) \<Rightarrow> Inr (sysex_length + 1, Some len)))"

definition expected_escaped_length :: "build \<Rightarrow> byte \<Rightarrow> byte list \<Rightarrow> nat \<Rightarrow> int \<Rightarrow> (int \<times> int option) res" where
  "expected_escaped_length B status mem second_byte n =
     andThen (expected_sysex_length B status mem second_byte n) (\<lambda>(l, consumed). Inr (l - 1, consumed))"

definition expected_message_length :: "build \<Rightarrow> byte \<Rightarrow> byte list \<Rightarrow> nat \<Rightarrow> int \<Rightarrow> int res" where
  "expected_message_length B status mem second_byte n =
     andThen (assert_c B (is_status_byte status)) (\<lambda>_. andThen (assert_c B (\<not> is_sysex_byte status)) (\<lambda>_.
     andThen (assert_c B (\<not> is_escape_byte status)) (\<lambda>_. andThen (assert_c B (0 \<le> n)) (\<lambda>_.
     if status = 0xFF then
       (if n < 2 then Inr (-1) else andThen (peek mem (second_byte + 1)) (\<lambda>b. Inr (uint b + 3)))
     else if status AND 0xF0 = 0xF0 then Inr (
       if status = 0xF2 then 3
       else if status \<in> {0xF1, 0xF3} then 2
       else if status \<in> {0xF6, 0xF8, 0xF9, 0xFA, 0xFB, 0xFC, 0xFE} then 1
       else -2)
     else let kind = status AND 0xF0 in Inr (
       if kind \<in> {0x80, 0x90, 0xA0, 0xB0, 0xE0} then 3
       else if kind \<in> {0xC0, 0xD0} then 2
       else -3)))))"

section \<open>Events\<close>

text \<open>A byte of the message, which may not be there.\<close>

definition midi_byte :: "smf_event \<Rightarrow> nat \<Rightarrow> byte res" where
  "midi_byte e i = (case midi_buffer e of None \<Rightarrow> Inl Null_Deref | Some bs \<Rightarrow> peek bs i)"

definition has_message :: "build \<Rightarrow> smf_event \<Rightarrow> unit res" where
  "has_message B e =
     andThen (assert_c B (midi_buffer e \<noteq> None)) (\<lambda>_. assert_c B (0 < midi_buffer_length e))"

definition smf_event_is_metadata :: "build \<Rightarrow> smf_event \<Rightarrow> bool res" where
  "smf_event_is_metadata B e =
     andThen (has_message B e) (\<lambda>_. andThen (midi_byte e 0) (\<lambda>b. Inr (b = 0xFF)))"

definition smf_event_is_system_realtime :: "build \<Rightarrow> smf_event \<Rightarrow> bool res" where
  "smf_event_is_system_realtime B e =
     andThen (has_message B e) (\<lambda>_. andThen (smf_event_is_metadata B e) (\<lambda>meta.
       if meta then Inr False else andThen (midi_byte e 0) (\<lambda>b. Inr (0xF8 \<le> b))))"

definition smf_event_is_system_common :: "build \<Rightarrow> smf_event \<Rightarrow> bool res" where
  "smf_event_is_system_common B e =
     andThen (has_message B e) (\<lambda>_. andThen (midi_byte e 0) (\<lambda>b. Inr (0xF0 \<le> b \<and> b \<le> 0xF7)))"

definition smf_event_is_sysex :: "build \<Rightarrow> smf_event \<Rightarrow> bool res" where
  "smf_event_is_sysex B e =
     andThen (has_message B e) (\<lambda>_. andThen (midi_byte e 0) (\<lambda>b. Inr (b = 0xF0)))"

definition smf_event_is_tempo_change_or_time_signature :: "build \<Rightarrow> smf_event \<Rightarrow> bool res" where
  "smf_event_is_tempo_change_or_time_signature B e =
     andThen (smf_event_is_metadata B e) (\<lambda>meta.
       if \<not> meta then Inr False
       else andThen (assert_c B (2 \<le> midi_buffer_length e)) (\<lambda>_.
         andThen (midi_byte e 1) (\<lambda>b. Inr (b = 0x51 \<or> b = 0x58))))"

definition smf_event_is_eot :: "smf_event \<Rightarrow> bool res" where
  "smf_event_is_eot e =
     (if midi_buffer_length e \<noteq> 3 then Inr False
      else andThen (midi_byte e 0) (\<lambda>a. if a \<noteq> 0xFF then Inr False
        else andThen (midi_byte e 1) (\<lambda>b. if b \<noteq> 0x2F then Inr False
          else andThen (midi_byte e 2) (\<lambda>c. Inr (c = 0)))))"

definition event_is_end_of_track :: "smf_event \<Rightarrow> bool res" where
  "event_is_end_of_track e =
     andThen (midi_byte e 0) (\<lambda>a. if a \<noteq> 0xFF then Inr False else andThen (midi_byte e 1) (\<lambda>b. Inr (b = 0x2F)))"

definition smf_event_length_is_valid :: "build \<Rightarrow> smf_event \<Rightarrow> bool res" where
  "smf_event_length_is_valid B e =
     andThen (assert_c B (midi_buffer e \<noteq> None)) (\<lambda>_.
     if midi_buffer_length e < 1 then Inr False
     else andThen (smf_event_is_sysex B e) (\<lambda>sysex.
       if sysex then Inr True
       else andThen (midi_byte e 0) (\<lambda>b. case midi_buffer e of None \<Rightarrow> Inl Null_Deref | Some bs \<Rightarrow>
         andThen (expected_message_length B b bs 1 (midi_buffer_length e - 1)) (\<lambda>l.
           Inr (midi_buffer_length e = l)))))"

definition smf_event_is_valid :: "build \<Rightarrow> smf_event \<Rightarrow> bool res" where
  "smf_event_is_valid B e =
     andThen (assert_c B (midi_buffer e \<noteq> None)) (\<lambda>_. andThen (assert_c B (1 \<le> midi_buffer_length e)) (\<lambda>_.
     andThen (midi_byte e 0) (\<lambda>b.
       if \<not> is_status_byte b then Inr False else smf_event_length_is_valid B e)))"

section \<open>Extraction\<close>

text \<open>
  \<open>mem\<close> is the file in memory and \<open>buf\<close> where the event starts; \<open>n\<close> is \<open>buffer_length\<close>, \<open>len\<close> what \<open>*len\<close> held. The
  result is the code with the event and \<open>*len\<close> as they are then.
\<close>

definition extract_sysex_event ::
  "build \<Rightarrow> (int \<Rightarrow> bool) \<Rightarrow> byte list \<Rightarrow> nat \<Rightarrow> int \<Rightarrow> smf_event \<Rightarrow> int \<Rightarrow> (int \<times> smf_event \<times> int) res" where
  "extract_sysex_event B M mem buf n e len =
     andThen (peek mem buf) (\<lambda>status. andThen (assert_c B (is_sysex_byte status)) (\<lambda>_.
     andThen (expected_sysex_length B status mem (buf + 1) (n - 1)) (\<lambda>(message_length, consumed).
     case consumed of None \<Rightarrow> Inr (-3, e, len) | Some vlq_length \<Rightarrow>
       if message_length < 0 then Inr (-3, e, len)
       else if vlq_length + message_length \<ge> n then Inr (-5, e, len)
       else let e1 = e\<lparr>midi_buffer_length := message_length\<rparr> in
         if \<not> M message_length then Inr (-4, e1\<lparr>midi_buffer := None\<rparr>, len)
         else andThen (fetch mem (buf + 1 + nat vlq_length) (nat (message_length - 1))) (\<lambda>bs.
           Inr (0, e1\<lparr>midi_buffer := Some (status # bs)\<rparr>, vlq_length + message_length)))))"

text \<open>What the last test decides is only a warning in the log.\<close>

definition extract_escaped_event ::
  "build \<Rightarrow> (int \<Rightarrow> bool) \<Rightarrow> byte list \<Rightarrow> nat \<Rightarrow> int \<Rightarrow> smf_event \<Rightarrow> int \<Rightarrow> (int \<times> smf_event \<times> int) res" where
  "extract_escaped_event B M mem buf n e len =
     andThen (peek mem buf) (\<lambda>status. andThen (assert_c B (is_escape_byte status)) (\<lambda>_.
     andThen (expected_escaped_length B status mem (buf + 1) (n - 1)) (\<lambda>(message_length, consumed).
     case consumed of None \<Rightarrow> Inr (-3, e, len) | Some vlq_length \<Rightarrow>
       if message_length < 0 then Inr (-3, e, len)
       else if vlq_length + message_length \<ge> n then Inr (-5, e, len)
       else let e1 = e\<lparr>midi_buffer_length := message_length\<rparr> in
         if \<not> M message_length then Inr (-4, e1\<lparr>midi_buffer := None\<rparr>, len)
         else andThen (fetch mem (buf + 1 + nat vlq_length) (nat message_length)) (\<lambda>bs.
           let e2 = e1\<lparr>midi_buffer := Some bs\<rparr> in
           andThen (smf_event_is_valid B e2) (\<lambda>v.
             if v then Inr (-1, e2, len)
             else andThen (smf_event_is_system_realtime B e2) (\<lambda>rt.
               andThen (if rt then Inr True else smf_event_is_system_common B e2) (\<lambda>_.
                 Inr (0, e2, vlq_length + message_length))))))))"

text \<open>\<open>last_status\<close> is an \<open>int\<close>, of which the functions called take the lowest byte.\<close>

definition extract_midi_event ::
  "build \<Rightarrow> (int \<Rightarrow> bool) \<Rightarrow> byte list \<Rightarrow> nat \<Rightarrow> int \<Rightarrow> smf_event \<Rightarrow> int \<Rightarrow> int \<Rightarrow> (int \<times> smf_event \<times> int) res" where
  "extract_midi_event B M mem buf n e len last_status =
     andThen (assert_c B (0 < n)) (\<lambda>_. andThen (peek mem buf) (\<lambda>b.
     let (status, k) = (if is_status_byte b then (b, 1) else (word_of_int last_status, 0)) in
     if \<not> is_status_byte status then Inr (-1, e, len)
     else if is_sysex_byte status then extract_sysex_event B M mem buf n e len
     else if is_escape_byte status then extract_escaped_event B M mem buf n e len
     else andThen (expected_message_length B status mem (buf + k) (n - int k)) (\<lambda>message_length.
       if message_length < 0 then Inr (-3, e, len)
       else if message_length - 1 > n - int k then Inr (-5, e, len)
       else let e1 = e\<lparr>midi_buffer_length := message_length\<rparr> in
         if \<not> M message_length then Inr (-4, e1\<lparr>midi_buffer := None\<rparr>, len)
         else andThen (fetch mem (buf + k) (nat (message_length - 1))) (\<lambda>bs.
           Inr (0, e1\<lparr>midi_buffer := Some (status # bs)\<rparr>, int k + message_length - 1)))))"

section \<open>New events\<close>

definition sizeof_smf_event :: int where
  "sizeof_smf_event = 64"

text \<open>An event is a value here: that some of the exits free it again and some do not is left out.\<close>

definition smf_event_new :: "(int \<Rightarrow> bool) \<Rightarrow> smf_event option" where
  "smf_event_new M =
     (if \<not> M sizeof_smf_event then None
      else Some \<lparr>event_number = 0, delta_time_pulses = -1, time_pulses = -1, track_number = -1, midi_buffer = None,
                 midi_buffer_length = 0\<rparr>)"

definition smf_event_new_from_pointer :: "(int \<Rightarrow> bool) \<Rightarrow> byte list \<Rightarrow> int \<Rightarrow> smf_event option res" where
  "smf_event_new_from_pointer M midi_data len =
     (case smf_event_new M of None \<Rightarrow> Inr None | Some e \<Rightarrow>
        if \<not> M len then Inr None
        else if len < 0 then Inl Out_Of_Bounds
        else andThen (fetch midi_data 0 (nat len)) (\<lambda>bs.
          Inr (Some (e\<lparr>midi_buffer_length := len, midi_buffer := Some bs\<rparr>))))"

definition smf_event_new_from_bytes :: "(int \<Rightarrow> bool) \<Rightarrow> int \<Rightarrow> int \<Rightarrow> int \<Rightarrow> smf_event option" where
  "smf_event_new_from_bytes M first_byte second_byte third_byte =
     (case smf_event_new M of None \<Rightarrow> None | Some e \<Rightarrow>
        if first_byte < 0 then None
        else if first_byte > 255 then None
        else if \<not> is_status_byte (word_of_int first_byte) then None
        else let len = (if second_byte < 0 then 1 else if third_byte < 0 then 2 else 3) in
          if len > 1 \<and> (second_byte > 255 \<or> is_status_byte (word_of_int second_byte)) then None
          else if len > 2 \<and> (third_byte > 255 \<or> is_status_byte (word_of_int third_byte)) then None
          else if \<not> M len then None
          else Some (e\<lparr>midi_buffer_length := len,
            midi_buffer := Some (map word_of_int (take (nat len) [first_byte, second_byte, third_byte]))\<rparr>))"

section \<open>Text\<close>

text \<open>A string of at most \<open>n\<close> characters, with its zero.\<close>

definition make_string :: "build \<Rightarrow> (int \<Rightarrow> bool) \<Rightarrow> byte list \<Rightarrow> nat \<Rightarrow> int \<Rightarrow> int \<Rightarrow> byte list option res" where
  "make_string B M mem buf n len =
     andThen (assert_c B (0 < n)) (\<lambda>_. andThen (assert_c B (0 < len)) (\<lambda>_.
     let l = (if len > n then n else len) in
     if \<not> M (l + 1) then Inr None
     else if l < 0 then Inl Out_Of_Bounds
     else andThen (fetch mem buf (nat l)) (\<lambda>bs. Inr (Some (bs @ [0])))))"

text \<open>The test of the kind of text is \<open>< 1 && > 9\<close>.\<close>

definition smf_event_is_textual :: "build \<Rightarrow> smf_event \<Rightarrow> bool res" where
  "smf_event_is_textual B e =
     andThen (smf_event_is_metadata B e) (\<lambda>meta.
       if \<not> meta then Inr False
       else if midi_buffer_length e < 4 then Inr False
       else andThen (midi_byte e 3) (\<lambda>b. if b < 1 \<and> b > 9 then Inr False else Inr True))"

text \<open>The code of \<open>extract_vlq\<close> is not looked at.\<close>

definition smf_event_extract_text :: "build \<Rightarrow> (int \<Rightarrow> bool) \<Rightarrow> smf_event \<Rightarrow> byte list option res" where
  "smf_event_extract_text B M e =
     andThen (smf_event_is_textual B e) (\<lambda>textual.
       if \<not> textual then Inr None
       else if midi_buffer_length e < 3 then Inr None
       else case midi_buffer e of None \<Rightarrow> Inl Null_Deref | Some bs \<Rightarrow>
         andThen (extract_vlq B bs 2 (midi_buffer_length e - 2)) (\<lambda>(_, x).
           let (string_length, length_length) = (case x of None \<Rightarrow> (-1, -1) | Some y \<Rightarrow> y) in
           if string_length \<le> 0 then Inr None
           else make_string B M bs (nat (2 + length_length)) (midi_buffer_length e - 2 - length_length) string_length))"

section \<open>Writing quantities\<close>

text \<open>The two loops of \<open>format_vlq\<close>; the bytes it puts into \<open>buf\<close>.\<close>

function format_pack :: "ulong \<Rightarrow> ulong \<Rightarrow> ulong" where
  "format_pack val buffer =
     (let v = drop_bit 7 val
      in if v \<noteq> 0 then format_pack v (push_bit 8 buffer OR ((v AND 0x7F) OR 0x80)) else buffer)"
  by pat_completeness auto
termination
proof (relation "measure (\<lambda>(v, b). unat v)")
  fix val buffer x :: ulong
  assume x: "x = drop_bit 7 val" "x \<noteq> 0"
  have "unat x = unat val div 128" using unat_drop_bit_div [of 7 val] by (simp add: x(1))
  moreover have "0 < unat x" using x(2) by (simp add: unat_gt_0)
  ultimately show "((x, push_bit 8 buffer OR ((x AND 0x7F) OR 0x80)), val, buffer)
      \<in> measure (\<lambda>(v, b). unat v)"
    by (simp add: div_less_dividend)
qed simp

declare format_pack.simps [simp del]

function format_bytes :: "ulong \<Rightarrow> byte list" where
  "format_bytes buffer =
     ucast buffer # (if buffer AND 0x80 \<noteq> 0 then format_bytes (drop_bit 8 buffer) else [])"
  by pat_completeness auto
termination
proof (relation "measure unat")
  fix buffer :: ulong
  assume "buffer AND 0x80 \<noteq> 0"
  then have "buffer \<noteq> 0" by auto
  then have "0 < unat buffer" by (simp add: unat_gt_0)
  then show "(drop_bit 8 buffer, buffer) \<in> measure unat"
    using unat_drop_bit_div [of 8 buffer] by (simp add: div_less_dividend)
qed simp

declare format_bytes.simps [simp del]

text \<open>\<open>space\<close> is how many bytes there are behind \<open>buf\<close>; \<open>i\<close> is the offset of the last byte stored.\<close>

definition format_vlq :: "build \<Rightarrow> nat \<Rightarrow> int \<Rightarrow> ulong \<Rightarrow> (byte list \<times> int) res" where
  "format_vlq B space len val =
     (let bs = format_bytes (format_pack val (val AND 0x7F)) in
      if length bs > space then Inl Out_Of_Bounds
      else andThen (assert_c B (int (length bs) - 1 \<le> len)) (\<lambda>_. Inr (bs, int (length bs))))"

section \<open>Quantities, as midifile.c reads them\<close>

lemma peek_cases: "peek mem p = Inr c \<longleftrightarrow> p < length mem \<and> c = mem ! p"
  by (auto simp: peek_def)

lemma byte_masks: "uint ((c :: byte) AND 0x7F) = uint c AND 0x7f" "c AND 0x80 \<noteq> 0 \<longleftrightarrow> uint c AND 0x80 \<noteq> 0"
proof -
  have "uint (c AND 0x80) = uint c AND 0x80" by (simp add: unsigned_and_eq)
  then show "c AND 0x80 \<noteq> 0 \<longleftrightarrow> uint c AND 0x80 \<noteq> 0" by (metis uint_0_iff)
qed (simp add: unsigned_and_eq)

lemma group_range: "0 \<le> uint (c AND 0x7F)" "uint ((c :: byte) AND 0x7F) < 128"
  by (simp_all add: byte_masks int_and_127)

text \<open>A round of \<open>vlq_loop\<close> and one of \<open>varinum_loop\<close> on the same byte.\<close>

lemma varinum_round:
  assumes "inp r = drop p mem" "p < length mem" "0 \<le> val" "val < 2 ^ 31"
  shows "varinum_loop H val r =
    (let v = val * 128 + uint (mem ! p AND 0x7F)
     in if mem ! p AND 0x80 \<noteq> 0 then varinum_loop H v (advance 1 r) else Inr (v, advance 1 r))"
proof -
  have "inp r = mem ! p # drop (Suc p) mem" using assms(1,2) by (simp add: Cons_nth_drop_Suc)
  then have g: "egetc H r = Inr (uint (mem ! p), advance 1 r)" by (rule egetc_advance)
  have b: "0 \<le> uint (mem ! p AND 0x7F)" "uint (mem ! p AND 0x7F) < 128" by (fact group_range)+
  have "0 \<le> val * 128 + uint (mem ! p AND 0x7F)" using assms(3) b(1) by simp
  then have "- (2 ^ 63) \<le> val * 128 + uint (mem ! p AND 0x7F)" by (rule order_trans [rotated]) simp
  moreover have "val * 128 + uint (mem ! p AND 0x7F) < 2 ^ 63" using assms(4) b(2) by simp
  ultimately have "s64 (push_bit 7 val + uint (mem ! p AND 0x7F)) = val * 128 + uint (mem ! p AND 0x7F)"
    by (simp add: s64_id push_bit_eq_mult)
  then show ?thesis by (subst varinum_loop.simps) (simp add: g byte_masks Let_def)
qed

lemma vlq_loop_reads:
  assumes "vlq_loop mem buf n i val = Inr (Some (v, k))" "inp r = drop (buf + i) mem" "0 \<le> val" "val < 2 ^ 31"
  shows "i < k \<and> int k \<le> n \<and> varinum_loop H val r = Inr (v, advance (k - i) r)"
  using assms
proof (induction mem buf n i val arbitrary: r rule: vlq_loop.induct)
  case (1 mem buf n i val)
  let ?c = "mem ! (buf + i)" and ?v = "val * 128 + uint (mem ! (buf + i) AND 0x7F)"
  have n: "int i < n" and p: "buf + i < length mem" and lt: "?v < 2 ^ 31"
    using "1.prems"(1) by (auto simp: vlq_loop.simps [of mem buf n i] andThen_eq_Inr peek_cases Let_def split: if_splits)
  note round = varinum_round [OF "1.prems"(2) p "1.prems"(3,4), of H]
  show ?case
  proof (cases "?c AND 0x80 = 0")
    case True
    then have "v = ?v" "k = i + 1"
      using "1.prems"(1) n p lt by (auto simp: vlq_loop.simps [of mem buf n i] peek_def Let_def)
    then show ?thesis using True round n by simp
  next
    case False
    then have l: "vlq_loop mem buf n (i + 1) ?v = Inr (Some (v, k))"
      using "1.prems"(1) n p lt by (simp add: vlq_loop.simps [of mem buf n i] peek_def Let_def)
    have "0 \<le> ?v" using "1.prems"(3) group_range [of ?c] by simp
    then have "i + 1 < k \<and> int k \<le> n \<and> varinum_loop H ?v (advance 1 r) = Inr (v, advance (k - (i + 1)) (advance 1 r))"
      using "1.IH" [of ?c ?v "advance 1 r", OF _ _ refl _ _ l] n p lt False "1.prems"(2) by (simp add: peek_def add.commute)
    then show ?thesis using False round by (auto simp: Let_def Suc_diff_Suc)
  qed
qed

lemma varinum_loop_reads:
  assumes "varinum_loop H val r = Inr (v, advance j r)" "inp r = drop (buf + i) mem" "0 \<le> val" "val < 128 ^ i"
    and "i + j \<le> 4" "int (i + j) \<le> n"
  shows "vlq_loop mem buf n i val = Inr (Some (v, i + j))"
  using assms
proof (induction j arbitrary: i val r)
  case 0
  from "0.prems"(1) have "length (inp (advance 0 r)) < length (inp r)" by (rule varinum_loop_consumes)
  then show ?case by simp
next
  case (Suc j)
  let ?c = "mem ! (buf + i)" and ?v = "val * 128 + uint (mem ! (buf + i) AND 0x7F)"
  have "inp r \<noteq> []" using varinum_loop_consumes [OF Suc.prems(1)] by auto
  then have p: "buf + i < length mem" using Suc.prems(2) by simp
  have "(128 :: int) ^ i \<le> 128 ^ 3" using Suc.prems(5) by (intro power_increasing) simp_all
  then have val: "val < 2 ^ 21" using Suc.prems(4) by simp
  then have lt: "?v < 2 ^ 31" and val31: "val < 2 ^ 31" using group_range [of ?c] by simp_all
  note round = varinum_round [OF Suc.prems(2) p Suc.prems(3) val31, of H]
  show ?case
  proof (cases "?c AND 0x80 = 0")
    case True
    then have e: "Inr (?v, advance 1 r) = Inr (v, advance (Suc j) r)" using round Suc.prems(1) by simp
    then have "Mf_toberead (advance 1 r) = Mf_toberead (advance (Suc j) r)" by simp
    then have "j = 0" by simp
    then show ?thesis using True e p lt Suc.prems(6) by (simp add: vlq_loop.simps [of mem buf n i] peek_def Let_def)
  next
    case False
    have "varinum_loop H ?v (advance 1 r) = Inr (v, advance j (advance 1 r))"
      using False round Suc.prems(1) by (simp add: Let_def)
    moreover have "0 \<le> ?v" "?v < 128 ^ (i + 1)" using Suc.prems(3,4) group_range [of ?c] by simp_all
    ultimately have "vlq_loop mem buf n (i + 1) ?v = Inr (Some (v, i + 1 + j))"
      using Suc.prems(2,5,6) by (intro Suc.IH [of ?v "advance 1 r"]) (simp_all add: add.commute)
    then show ?thesis using False p lt Suc.prems(6) by (simp add: vlq_loop.simps [of mem buf n i] peek_def Let_def)
  qed
qed

lemma readvarinum_loop: "readvarinum H r = varinum_loop H 0 r"
proof (cases "inp r")
  case (Cons b bs)
  have "- (2 ^ 63) \<le> uint b AND 0x7f" by (rule order_trans [of _ 0]) simp_all
  moreover have "uint b AND 0x7f < 2 ^ 63" by (rule order.strict_trans [of _ 128]) (simp_all add: int_and_127)
  ultimately have "s64 (uint b AND 0x7f) = uint b AND 0x7f" by (rule s64_id)
  moreover have "uint b AND 0x80 = 0 \<Longrightarrow> uint b AND 0x7f = uint b"
  proof -
    assume "uint b AND 0x80 = 0"
    then have "even (uint b div 128)" using int_and_128 [of "uint b"] by blast
    then have "uint b < 128" using uint_bounded [of b] by simp presburger
    then show ?thesis by (simp add: int_and_127 mod_pos_pos_trivial)
  qed
  ultimately show ?thesis
    by (auto simp: readvarinum_def varinum_loop.simps [of H 0] egetc_advance [OF Cons] Let_def)
qed (simp add: readvarinum_def varinum_loop.simps [of H 0] egetc_def mferror_def split: option.splits)

lemma extract_vlq_code:
  assumes "0 < n"
  shows "extract_vlq B mem buf n = Inr (0, Some (v, k)) \<longleftrightarrow>
    (\<exists>j. k = int j \<and> j \<le> 4 \<and> vlq_loop mem buf n 0 0 = Inr (Some (v, j)))"
proof (cases "vlq_loop mem buf n 0 0")
  case (Inr x)
  with assms show ?thesis by (cases x) (auto simp: extract_vlq_def split: if_splits)
qed (use assms in \<open>simp add: extract_vlq_def\<close>)

lemma extract_vlq_agrees:
  assumes "0 < n" "inp r = drop buf mem"
  shows "extract_vlq B mem buf n = Inr (0, Some (v, k)) \<longleftrightarrow>
    (\<exists>j. k = int j \<and> j \<le> 4 \<and> k \<le> n \<and> readvarinum H r = Inr (v, advance j r))"
proof
  assume "extract_vlq B mem buf n = Inr (0, Some (v, k))"
  then obtain j where j: "k = int j" "j \<le> 4" "vlq_loop mem buf n 0 0 = Inr (Some (v, j))"
    using extract_vlq_code [OF assms(1)] by blast
  with vlq_loop_reads [OF j(3), of r H] assms(2)
  show "\<exists>j. k = int j \<and> j \<le> 4 \<and> k \<le> n \<and> readvarinum H r = Inr (v, advance j r)"
    by (auto simp: readvarinum_loop)
next
  assume "\<exists>j. k = int j \<and> j \<le> 4 \<and> k \<le> n \<and> readvarinum H r = Inr (v, advance j r)"
  then obtain j where j: "k = int j" "j \<le> 4" "k \<le> n" "varinum_loop H 0 r = Inr (v, advance j r)"
    by (auto simp: readvarinum_loop)
  with varinum_loop_reads [OF j(4), of buf 0 mem n] assms(2)
  show "extract_vlq B mem buf n = Inr (0, Some (v, k))"
    unfolding extract_vlq_code [OF assms(1)] by auto
qed

section \<open>Quantities, as midifile.c writes them\<close>

lemma low_group: "(push_bit 8 b OR 0x80) + (v AND 0x7F) = push_bit 8 b OR ((v AND 0x7F) OR (0x80 :: ulong))"
proof -
  have "take_bit 7 (push_bit 8 b) = 0" by (rule bit_eqI) (simp add: bit_take_bit_iff bit_push_bit_iff)
  then have "take_bit 7 (push_bit 8 b OR 0x80) = 0" by simp
  then have "(push_bit 8 b OR 0x80) AND 0x7F = 0" by (simp add: take_bit_eq_mask mask_eq_exp_minus_1)
  then have "(push_bit 8 b OR 0x80) AND (v AND 0x7F) = 0" by (metis and.left_commute and_zero_eq)
  then have "(push_bit 8 b OR 0x80) + (v AND 0x7F) = (push_bit 8 b OR 0x80) OR (v AND 0x7F)"
    by (rule disjunctive_add_eq_or)
  then show ?thesis by (simp only: ac_simps)
qed

lemma format_pack_varlen: "format_pack v b = varlen_pack v b"
proof (induction v b rule: format_pack.induct)
  case (1 v b)
  then show ?case
    by (cases "drop_bit 7 v = 0")
      (simp_all add: format_pack.simps [of v b] varlen_pack.simps [of v b] Let_def low_group word_gt_0)
qed

lemma format_bytes_nemit: "format_bytes b = map word_of_nat (nemit (unat b))"
proof (induction b rule: format_bytes.induct)
  case (1 b)
  have byte: "ucast b = (word_of_nat (unat b mod 256) :: byte)"
    by (simp add: word_unat_eq_iff unsigned_ucast_eq take_bit_eq_mod unat_of_nat)
  have "unat (drop_bit 8 b) = unat b div 256" using unat_drop_bit_div [of 8 b] by simp
  then show ?case
    using 1 and_0x80_iff [of b] by (simp add: format_bytes.simps [of b] nemit.simps [of "unat b"] byte)
qed

lemma format_vlq_enc:
  assumes "unat v < 2 ^ 56" "length (varlen_enc (unat v)) \<le> space" "int (length (varlen_enc (unat v))) \<le> len + 1"
  shows "format_vlq B space len v = Inr (varlen_enc (unat v), int (length (varlen_enc (unat v))))"
proof -
  have "format_bytes (format_pack v (v AND 0x7F)) = varlen_enc (unat v)"
    by (simp only: format_bytes_nemit format_pack_varlen varlen_small [OF assms(1)])
  then show ?thesis using assms(2,3) by (simp add: format_vlq_def Let_def)
qed

text \<open>What \<open>format_vlq\<close> writes, \<open>extract_vlq\<close> reads back, up to four bytes.\<close>

lemma extract_vlq_enc:
  assumes "v < 2 ^ 28" "drop buf mem = varlen_enc v @ rest" "int (length (varlen_enc v)) \<le> n"
  shows "extract_vlq B mem buf n = Inr (0, Some (int v, int (length (varlen_enc v))))"
proof -
  define r :: rd where "r = undefined\<lparr>inp := drop buf mem\<rparr>"
  have l: "length (varlen_enc v) \<le> 4"
    using digits128_length [of "v div 128" 3] assms(1) by (simp add: varlen_enc_def less_mult_imp_div_less)
  have "readvarinum (undefined :: unit mf_handlers) r = Inr (int v, advance (length (varlen_enc v)) r)"
    using assms(1,2) by (intro readvarinum_enc [of v r rest]) (simp_all add: r_def)
  moreover have "0 < n" using assms(3) by (simp add: varlen_enc_def)
  ultimately show ?thesis
    using l assms(3) extract_vlq_agrees [of n r buf mem B "int v" _ "undefined :: unit mf_handlers"]
    by (auto simp: r_def)
qed

section \<open>Extraction stays in the buffer\<close>

lemma peek_inside: "p < length mem \<Longrightarrow> peek mem p = Inr (mem ! p)"
  by (simp add: peek_def)

lemma fetch_inside: "p + k \<le> length mem \<Longrightarrow> fetch mem p k = Inr (take k (drop p mem))"
  by (simp add: fetch_def)

lemma vlq_loop_inside:
  assumes "int buf + n \<le> int (length mem)" "0 \<le> val"
  shows "case vlq_loop mem buf n i val of Inl f \<Rightarrow> f = Signed_Overflow | Inr None \<Rightarrow> True
    | Inr (Some (v, k)) \<Rightarrow> i < k \<and> int k \<le> n \<and> 0 \<le> v \<and> v < 2 ^ 31"
  using assms
proof (induction mem buf n i val rule: vlq_loop.induct)
  case (1 mem buf n i val)
  let ?c = "mem ! (buf + i)" and ?v = "val * 128 + uint (mem ! (buf + i) AND 0x7F)"
  show ?case
  proof (cases "n \<le> int i \<or> 2 ^ 31 \<le> ?v \<or> ?c AND 0x80 = 0")
    case True
    then show ?thesis
      using "1.prems" group_range [of ?c] by (auto simp: vlq_loop.simps [of mem buf n i] peek_def Let_def)
  next
    case False
    then have p: "peek mem (buf + i) = Inr ?c" using "1.prems"(1) by (intro peek_inside) simp
    have "0 \<le> ?v" using "1.prems"(2) group_range [of ?c] by simp
    then have "case vlq_loop mem buf n (i + 1) ?v of Inl f \<Rightarrow> f = Signed_Overflow | Inr None \<Rightarrow> True
      | Inr (Some (v, k)) \<Rightarrow> i + 1 < k \<and> int k \<le> n \<and> 0 \<le> v \<and> v < 2 ^ 31"
      using "1.IH" [of ?c ?v, OF _ p refl _ _ "1.prems"(1)] False by simp
    then show ?thesis
      using False p by (auto simp: vlq_loop.simps [of mem buf n i val] Let_def split: sum.splits option.splits)
  qed
qed

text \<open>What follows is for a build with assertions.\<close>

lemma expected_sysex_length_inside:
  assumes "int p + n \<le> int (length mem)"
  shows "case expected_sysex_length B 0xF0 mem p n of Inl f \<Rightarrow> f = Signed_Overflow
    | Inr (l, None) \<Rightarrow> l = -1 | Inr (l, Some k) \<Rightarrow> 1 \<le> l \<and> 1 \<le> k \<and> k \<le> n"
  using vlq_loop_inside [OF assms, of 0 0]
  by (auto simp: expected_sysex_length_def extract_vlq_def split: sum.splits option.splits)

lemma expected_message_length_inside:
  assumes "int p + n \<le> int (length mem)" "0 \<le> n" "is_status_byte s" "\<not> is_sysex_byte s" "\<not> is_escape_byte s"
  shows "\<exists>l. expected_message_length B s mem p n = Inr l \<and> (l < 0 \<or> 1 \<le> l \<and> (s = 0xFF \<longrightarrow> 2 \<le> n \<and> l = uint (mem ! (p + 1)) + 3))"
  using assms by (auto simp: expected_message_length_def Let_def peek_def)

text \<open>The length depends on the status and, for a meta event, on the second byte behind it.\<close>

lemma expected_message_length_same:
  assumes "expected_message_length B s mem p n = Inr l" "0 \<le> l" "0 \<le> n'"
    and "s = 0xFF \<Longrightarrow> 2 \<le> n' \<and> q + 1 < length bs \<and> bs ! (q + 1) = mem ! (p + 1)"
  shows "expected_message_length B s bs q n' = Inr l"
proof -
  have a: "assert_c B (is_status_byte s) = Inr ()" "assert_c B (\<not> is_sysex_byte s) = Inr ()" "assert_c B (\<not> is_escape_byte s) = Inr ()"
    "assert_c B (0 \<le> n) = Inr ()" "assert_c B (0 \<le> n') = Inr ()"
    using assms(1,3) unfolding expected_message_length_def andThen_eq_Inr by simp_all
  note e = expected_message_length_def [of B s, unfolded a(1-3) andThen_Inr]
  show ?thesis
  proof (cases "s = 0xFF")
    case True
    note e = e [unfolded True]
    have "n < 2 \<Longrightarrow> l = -1" using assms(1) True a(4) by (simp add: e)
    then have n: "\<not> n < 2" using assms(2) by auto
    then obtain b where b: "peek mem (p + 1) = Inr b" "l = uint b + 3"
      using assms(1) True a(4) by (cases "peek mem (p + 1)") (simp_all add: e)
    then have "bs ! (q + 1) = b" using assms(4) True by (simp add: peek_cases)
    then show ?thesis using b(2) assms(4) True a(5) by (simp add: e peek_inside)
  next
    case False
    then show ?thesis using assms(1) a(4,5) by (simp add: e)
  qed
qed

lemma smf_event_is_valid_sysex:
  "1 \<le> l \<Longrightarrow> smf_event_is_valid B (e\<lparr>midi_buffer_length := l, midi_buffer := Some (0xF0 # bs)\<rparr>) = Inr True"
  by (simp add: smf_event_is_valid_def smf_event_length_is_valid_def smf_event_is_sysex_def has_message_def midi_byte_def
      peek_def is_status_byte_def)

lemma smf_event_is_valid_message:
  assumes "expected_message_length B s (s # bs) 1 (l - 1) = Inr l" "1 \<le> l" "is_status_byte s" "\<not> is_sysex_byte s"
  shows "smf_event_is_valid B (e\<lparr>midi_buffer_length := l, midi_buffer := Some (s # bs)\<rparr>) = Inr True"
  using assms
  by (simp add: smf_event_is_valid_def smf_event_length_is_valid_def smf_event_is_sysex_def has_message_def midi_byte_def
      peek_def is_sysex_byte_def)

lemma extract_sysex_event_sound:
  assumes "\<not> bd_ndebug B" "0 < n" "int buf + n \<le> int (length mem)"
  shows "case extract_sysex_event B M mem buf n e len of
      Inl f \<Rightarrow> f = Signed_Overflow \<or> f = Assert_Failed \<and> mem ! buf \<noteq> 0xF0
    | Inr (rc, e', l) \<Rightarrow> rc = 0 \<longrightarrow> 0 < l \<and> l \<le> n \<and> smf_event_is_valid B e' = Inr True"
proof -
  have p: "peek mem buf = Inr (mem ! buf)" using assms(2,3) by (intro peek_inside) simp
  show ?thesis
  proof (cases "mem ! buf = 0xF0")
    case False
    then show ?thesis using assms(1) p by (simp add: extract_sysex_event_def is_sysex_byte_def assert_c_def)
  next
    case True
    note x = expected_sysex_length_inside [of "buf + 1" "n - 1" mem B]
    show ?thesis
    proof (cases "expected_sysex_length B 0xF0 mem (buf + 1) (n - 1)")
      case (Inl f)
      then show ?thesis using x assms(3) p True by (simp add: extract_sysex_event_def is_sysex_byte_def)
    next
      case (Inr y)
      obtain l c where y: "y = (l, c)" by (cases y)
      show ?thesis
      proof (cases c)
        case None
        then show ?thesis using Inr y p True by (simp add: extract_sysex_event_def is_sysex_byte_def)
      next
        case (Some k)
        then have b: "1 \<le> l" "1 \<le> k" "k \<le> n - 1" using x Inr y assms(3) by simp_all
        have "k + l < n \<Longrightarrow> fetch mem (buf + 1 + nat k) (nat (l - 1)) = Inr (take (nat (l - 1)) (drop (buf + 1 + nat k) mem))"
          using assms(3) b by (intro fetch_inside) simp
        then show ?thesis
          using Inr y Some p True b
          by (auto simp: extract_sysex_event_def is_sysex_byte_def Let_def smf_event_is_valid_sysex)
      qed
    qed
  qed
qed

text \<open>An escaped event always fails the assertion on its status that is meant for system exclusive ones.\<close>

lemma extract_escaped_event_aborts:
  assumes "\<not> bd_ndebug B" "buf < length mem"
  shows "extract_escaped_event B M mem buf n e len = Inl Assert_Failed"
  using assms
  by (cases "mem ! buf = 0xF7")
    (simp_all add: extract_escaped_event_def peek_inside is_escape_byte_def assert_c_def expected_escaped_length_def
      expected_sysex_length_def)

lemma extract_midi_event_message:
  assumes "0 < n" "int buf + n \<le> int (length mem)" "k \<le> 1" "(s, k) = (if is_status_byte (mem ! buf) then (mem ! buf, 1) else (word_of_int ls, 0 :: nat))"
    and s: "is_status_byte s" "\<not> is_sysex_byte s" "\<not> is_escape_byte s"
  shows "\<exists>rc e' l. extract_midi_event B M mem buf n e len ls = Inr (rc, e', l) \<and>
    (rc = 0 \<longrightarrow> 0 \<le> l \<and> l \<le> n \<and> smf_event_is_valid B e' = Inr True)"
proof -
  have p: "peek mem buf = Inr (mem ! buf)" using assms(1,2) by (intro peek_inside) simp
  have in': "int (buf + k) + (n - int k) \<le> int (length mem)" "0 \<le> n - int k" using assms(1-3) by simp_all
  obtain l where l: "expected_message_length B s mem (buf + k) (n - int k) = Inr l"
      "l < 0 \<or> 1 \<le> l \<and> (s = 0xFF \<longrightarrow> 2 \<le> n - int k \<and> l = uint (mem ! (buf + k + 1)) + 3)"
    using expected_message_length_inside [OF in' s] by blast
  let ?bs = "take (nat (l - 1)) (drop (buf + k) mem)"
  have e: "extract_midi_event B M mem buf n e len ls =
    (if l < 0 then Inr (-3, e, len) else if l - 1 > n - int k then Inr (-5, e, len)
     else if \<not> M l then Inr (-4, e\<lparr>midi_buffer_length := l, midi_buffer := None\<rparr>, len)
     else andThen (fetch mem (buf + k) (nat (l - 1))) (\<lambda>bs.
       Inr (0, e\<lparr>midi_buffer_length := l, midi_buffer := Some (s # bs)\<rparr>, int k + l - 1)))"
    unfolding extract_midi_event_def p andThen_Inr assms(4) [symmetric] Let_def prod.case using assms(1) s l(1) by simp
  show ?thesis
  proof (cases "l < 0 \<or> l - 1 > n - int k \<or> \<not> M l")
    case True
    then show ?thesis by (auto simp: e)
  next
    case False
    then have b: "1 \<le> l" "l - 1 \<le> n - int k" using l(2) by auto
    have f: "fetch mem (buf + k) (nat (l - 1)) = Inr ?bs" using in' b by (intro fetch_inside) linarith
    have "2 \<le> l - 1 \<and> 2 < length (s # ?bs) \<and> (s # ?bs) ! 2 = mem ! (buf + k + 1)" if "s = 0xFF"
    proof -
      define u where "u = uint (mem ! (buf + k + 1))"
      have u: "l = u + 3" "0 \<le> u" using l(2) b(1) that by (auto simp: u_def)
      then have "1 < nat (l - 1)" "1 < length mem - (buf + k)" using b(2) in' by linarith+
      then show ?thesis using u by (simp add: numeral_2_eq_2)
    qed
    then have "expected_message_length B s (s # ?bs) 1 (l - 1) = Inr l"
      using b by (intro expected_message_length_same [OF l(1)]) (simp_all add: numeral_2_eq_2)
    then have "smf_event_is_valid B (e\<lparr>midi_buffer_length := l, midi_buffer := Some (s # ?bs)\<rparr>) = Inr True"
      using b(1) s(1,2) by (intro smf_event_is_valid_message)
    then show ?thesis using False b f by (simp add: e)
  qed
qed


end
