(* ===== verification/Smf_Save.thy ===== *)
theory Smf_Save
  imports Smf_Events
begin

text \<open>
  What libsmf writes (\<open>exp/libsmf-1.3/src/smf_save.c\<close>): bytes smf_appended to the file in memory, the events of a track and its
  headers. The struct of the file and that of the track are passed and returned; offsets into the file need no fixing
  when it moves. \<open>M n\<close> says that \<open>malloc\<close> or \<open>realloc\<close> finds \<open>n\<close> bytes.
\<close>

section \<open>Appending\<close>

definition poke :: "byte list \<Rightarrow> nat \<Rightarrow> byte list \<Rightarrow> byte list res" where
  "poke mem p bs = (if p + length bs \<le> length mem then Inr (take p mem @ bs @ drop (p + length bs) mem) else Inl Out_Of_Bounds)"

text \<open>The new bytes hold anything until they are written; they are 0 here. The result is their offset.\<close>

definition smf_extend :: "(int \<Rightarrow> bool) \<Rightarrow> int \<Rightarrow> smf \<Rightarrow> (nat option \<times> smf) res" where
  "smf_extend M len s =
     (let n = file_buffer_length s + len in
      if 2 ^ 31 \<le> n then Inl Signed_Overflow
      else if \<not> M n then Inr (None, s\<lparr>file_buffer := None, file_buffer_length := 0\<rparr>)
      else Inr (Some (nat (file_buffer_length s)),
        s\<lparr>file_buffer := Some (smf_bytes s @ replicate (nat len) 0), file_buffer_length := n\<rparr>))"

definition smf_append :: "(int \<Rightarrow> bool) \<Rightarrow> byte list \<Rightarrow> int \<Rightarrow> smf \<Rightarrow> (int \<times> smf) res" where
  "smf_append M buffer len s =
     andThen (smf_extend M len s) (\<lambda>(dest, s1). case dest of
         None \<Rightarrow> Inr (-1, s1)
       | Some p \<Rightarrow> andThen (fetch buffer 0 (nat len)) (\<lambda>bs. andThen (poke (smf_bytes s1) p bs) (\<lambda>mem.
           Inr (0, s1\<lparr>file_buffer := Some mem\<rparr>))))"

definition write_mthd_header :: "(int \<Rightarrow> bool) \<Rightarrow> smf \<Rightarrow> (int \<times> smf) res" where
  "write_mthd_header M s =
     smf_append M (map of_char ''MThd'' @ be32 6 @ be16 (smf_format s) @ be16 (number_of_tracks s) @ be16 (ppqn s)) 14 s"

definition track_extend :: "(int \<Rightarrow> bool) \<Rightarrow> int \<Rightarrow> smf \<Rightarrow> smf_track \<Rightarrow> (nat option \<times> smf \<times> smf_track) res" where
  "track_extend M len s t =
     andThen (smf_extend M len s) (\<lambda>(buf, s1). case buf of
         None \<Rightarrow> Inr (None, s1, t)
       | Some p \<Rightarrow> Inr (Some p, s1, t\<lparr>trk_buffer_length := trk_buffer_length t + len,
           trk_buffer := (if trk_buffer t = None then Some p else trk_buffer t)\<rparr>))"

definition track_append :: "(int \<Rightarrow> bool) \<Rightarrow> byte list \<Rightarrow> int \<Rightarrow> smf \<Rightarrow> smf_track \<Rightarrow> (int \<times> smf \<times> smf_track) res" where
  "track_append M buffer len s t =
     andThen (track_extend M len s t) (\<lambda>(dest, s1, t1). case dest of
         None \<Rightarrow> Inr (-1, s1, t1)
       | Some p \<Rightarrow> andThen (fetch buffer 0 (nat len)) (\<lambda>bs. andThen (poke (smf_bytes s1) p bs) (\<lambda>mem.
           Inr (0, s1\<lparr>file_buffer := Some mem\<rparr>, t1))))"

section \<open>Events\<close>

text \<open>The next step, unless there was an error.\<close>

definition unless_error ::
  "(int \<times> smf \<times> smf_track) res \<Rightarrow> (smf \<Rightarrow> smf_track \<Rightarrow> (int \<times> smf \<times> smf_track) res) \<Rightarrow> (int \<times> smf \<times> smf_track) res" where
  "unless_error m f = andThen m (\<lambda>(rc, s, t). if rc \<noteq> 0 then Inr (rc, s, t) else f s t)"

definition MAX_VLQ_LENGTH :: nat where
  "MAX_VLQ_LENGTH = 128"

definition write_vlq :: "build \<Rightarrow> (int \<Rightarrow> bool) \<Rightarrow> ulong \<Rightarrow> smf \<Rightarrow> smf_track \<Rightarrow> (int \<times> smf \<times> smf_track) res" where
  "write_vlq B M val s t =
     andThen (format_vlq B MAX_VLQ_LENGTH (int MAX_VLQ_LENGTH) val) (\<lambda>(buf, vlq_length). track_append M buf vlq_length s t)"

definition write_event_time :: "build \<Rightarrow> (int \<Rightarrow> bool) \<Rightarrow> smf_event \<Rightarrow> smf \<Rightarrow> smf_track \<Rightarrow> (int \<times> smf \<times> smf_track) res" where
  "write_event_time B M e s t =
     andThen (assert_c B (0 \<le> delta_time_pulses e)) (\<lambda>_. write_vlq B M (word_of_int (delta_time_pulses e)) s t)"

text \<open>The message of an event from its byte \<open>i\<close> on.\<close>

definition append_message ::
  "(int \<Rightarrow> bool) \<Rightarrow> smf_event \<Rightarrow> nat \<Rightarrow> smf \<Rightarrow> smf_track \<Rightarrow> (int \<times> smf \<times> smf_track) res" where
  "append_message M e i s t =
     (case midi_buffer e of None \<Rightarrow> Inl Null_Deref
      | Some bs \<Rightarrow> track_append M (drop i bs) (midi_buffer_length e - int i) s t)"

definition write_sysex_contents ::
  "build \<Rightarrow> (int \<Rightarrow> bool) \<Rightarrow> smf_event \<Rightarrow> smf \<Rightarrow> smf_track \<Rightarrow> (int \<times> smf \<times> smf_track) res" where
  "write_sysex_contents B M e s t =
     andThen (if bd_ndebug B then Inr True else smf_event_is_sysex B e) (\<lambda>sysex. andThen (assert_c B sysex) (\<lambda>_.
     unless_error (track_append M [0xF0] 1 s t) (\<lambda>s t.
     unless_error (write_vlq B M (word_of_int (midi_buffer_length e - 1)) s t) (\<lambda>s t.
     unless_error (append_message M e 1 s t) (\<lambda>s t. Inr (0, s, t))))))"

definition write_escaped_event_contents ::
  "build \<Rightarrow> (int \<Rightarrow> bool) \<Rightarrow> smf_event \<Rightarrow> smf \<Rightarrow> smf_track \<Rightarrow> (int \<times> smf \<times> smf_track) res" where
  "write_escaped_event_contents B M e s t =
     andThen (smf_event_is_sysex B e) (\<lambda>sysex.
       if sysex then write_sysex_contents B M e s t
       else unless_error (track_append M [0xF7] 1 s t) (\<lambda>s t.
         unless_error (write_vlq B M (word_of_int (midi_buffer_length e)) s t) (\<lambda>s t.
         unless_error (append_message M e 0 s t) (\<lambda>s t. Inr (0, s, t)))))"

definition write_event_contents ::
  "build \<Rightarrow> (int \<Rightarrow> bool) \<Rightarrow> smf_event \<Rightarrow> smf \<Rightarrow> smf_track \<Rightarrow> (int \<times> smf \<times> smf_track) res" where
  "write_event_contents B M e s t =
     andThen (smf_event_is_system_realtime B e) (\<lambda>realtime.
     andThen (if realtime then Inr True else smf_event_is_system_common B e) (\<lambda>system.
       if system then write_escaped_event_contents B M e s t else append_message M e 0 s t))"

definition smf_write_event ::
  "build \<Rightarrow> (int \<Rightarrow> bool) \<Rightarrow> smf_event \<Rightarrow> smf \<Rightarrow> smf_track \<Rightarrow> (int \<times> smf \<times> smf_track) res" where
  "smf_write_event B M e s t =
     unless_error (write_event_time B M e s t) (\<lambda>s t. unless_error (write_event_contents B M e s t) (\<lambda>s t. Inr (0, s, t)))"

section \<open>Tracks\<close>

text \<open>The length of the header is not set yet: \<open>left\<close> is what the four bytes of the struct on the stack hold.\<close>

definition write_mtrk_header :: "(int \<Rightarrow> bool) \<Rightarrow> byte list \<Rightarrow> smf \<Rightarrow> smf_track \<Rightarrow> (int \<times> smf \<times> smf_track) res" where
  "write_mtrk_header M left s t = track_append M (map of_char ''MTrk'' @ left) 8 s t"

definition write_mtrk_length :: "build \<Rightarrow> smf \<Rightarrow> smf_track \<Rightarrow> (int \<times> smf \<times> smf_track) res" where
  "write_mtrk_length B s t =
     andThen (assert_c B (trk_buffer t \<noteq> None)) (\<lambda>_. andThen (assert_c B (6 \<le> trk_buffer_length t)) (\<lambda>_.
     case trk_buffer t of None \<Rightarrow> Inl Null_Deref | Some p \<Rightarrow>
       andThen (poke (smf_bytes s) (p + 4) (be32 (nat ((trk_buffer_length t - 8) mod 2 ^ 32)))) (\<lambda>mem.
         Inr (0, s\<lparr>file_buffer := Some mem\<rparr>, t))))"

text \<open>Numbers of events start from 1; \<open>g_ptr_array_index\<close> does not check its index.\<close>

definition smf_track_get_event_by_number :: "build \<Rightarrow> smf_track \<Rightarrow> int \<Rightarrow> smf_event option res" where
  "smf_track_get_event_by_number B t i =
     andThen (assert_c B (1 \<le> i)) (\<lambda>_.
       if i > number_of_events t then Inr None
       else if i < 1 \<or> int (length (events_array t)) < i then Inl Out_Of_Bounds
       else Inr (Some (events_array t ! nat (i - 1))))"

definition smf_track_get_last_event :: "build \<Rightarrow> smf_track \<Rightarrow> smf_event option res" where
  "smf_track_get_last_event B t =
     (if number_of_events t = 0 then Inr None else smf_track_get_event_by_number B t (number_of_events t))"

definition smf_track_get_next_event :: "build \<Rightarrow> smf_track \<Rightarrow> (smf_event option \<times> smf_track) res" where
  "smf_track_get_next_event B t =
     (if next_event_number t = -1 then Inr (None, t)
      else andThen (assert_c B (1 \<le> next_event_number t)) (\<lambda>_. andThen (assert_c B (0 < number_of_events t)) (\<lambda>_.
        andThen (smf_track_get_event_by_number B t (next_event_number t)) (\<lambda>event.
        andThen (assert_c B (event \<noteq> None)) (\<lambda>_.
        if next_event_number t < number_of_events t then
          andThen (smf_track_get_event_by_number B t (next_event_number t + 1)) (\<lambda>next_event.
          andThen (assert_c B (next_event \<noteq> None)) (\<lambda>_. case next_event of
              None \<Rightarrow> Inl Null_Deref
            | Some e \<Rightarrow> Inr (event, t\<lparr>time_of_next_event := time_pulses e, next_event_number := next_event_number t + 1\<rparr>)))
        else Inr (event, t\<lparr>next_event_number := -1\<rparr>))))))"

text \<open>Writing leaves the events of the track and the position among them alone.\<close>

definition events_of :: "smf_track \<Rightarrow> smf_event list \<times> int \<times> int" where
  "events_of t = (events_array t, number_of_events t, next_event_number t)"

lemma unless_error_Inr:
  assumes "unless_error m f = Inr (rc, s', t')"
  obtains "m = Inr (rc, s', t')" | s1 t1 where "m = Inr (0, s1, t1)" "f s1 t1 = Inr (rc, s', t')"
  using assms by (auto simp: unless_error_def andThen_eq_Inr split: if_splits)

lemma track_append_events: "track_append M bs n s t = Inr (rc, s', t') \<Longrightarrow> events_of t' = events_of t"
  by (auto simp: track_append_def track_extend_def smf_extend_def Let_def andThen_eq_Inr events_of_def split: option.splits if_splits)

lemma append_message_events: "append_message M e i s t = Inr (rc, s', t') \<Longrightarrow> events_of t' = events_of t"
  by (auto simp: append_message_def dest: track_append_events split: option.splits)

lemma write_vlq_events: "write_vlq B M v s t = Inr (rc, s', t') \<Longrightarrow> events_of t' = events_of t"
  by (auto simp: write_vlq_def andThen_eq_Inr dest: track_append_events)

lemmas appended_events = track_append_events append_message_events write_vlq_events

lemma write_sysex_events: "write_sysex_contents B M e s t = Inr (rc, s', t') \<Longrightarrow> events_of t' = events_of t"
  unfolding write_sysex_contents_def andThen_eq_Inr by (auto elim!: unless_error_Inr dest!: appended_events)

lemma write_escaped_events: "write_escaped_event_contents B M e s t = Inr (rc, s', t') \<Longrightarrow> events_of t' = events_of t"
  unfolding write_escaped_event_contents_def andThen_eq_Inr
  by (auto elim!: unless_error_Inr dest!: appended_events write_sysex_events split: if_splits)

lemma smf_write_event_events: "smf_write_event B M e s t = Inr (rc, s', t') \<Longrightarrow> events_of t' = events_of t"
  unfolding smf_write_event_def write_event_contents_def write_event_time_def andThen_eq_Inr
  by (auto elim!: unless_error_Inr dest!: appended_events write_escaped_events simp: andThen_eq_Inr split: if_splits)

text \<open>The events that are left.\<close>

definition events_left :: "smf_track \<Rightarrow> nat" where
  "events_left t = (if next_event_number t = -1 then 0 else Suc (nat (number_of_events t - next_event_number t)))"

lemma events_left_same: "events_of t' = events_of t \<Longrightarrow> events_left t' = events_left t"
  by (simp add: events_of_def events_left_def)

lemma smf_track_get_next_event_advances:
  "smf_track_get_next_event B t = Inr (Some e, t') \<Longrightarrow> events_left t' < events_left t"
  by (auto simp: smf_track_get_next_event_def andThen_eq_Inr events_left_def split: if_splits option.splits)

function smf_write_events :: "build \<Rightarrow> (int \<Rightarrow> bool) \<Rightarrow> smf \<Rightarrow> smf_track \<Rightarrow> (int \<times> smf \<times> smf_track) res" where
  "smf_write_events B M s t =
     andThen (smf_track_get_next_event B t) (\<lambda>(event, t1). case event of
         None \<Rightarrow> Inr (0, s, t1)
       | Some e \<Rightarrow> andThen (smf_write_event B M e s t1) (\<lambda>(rc, s2, t2).
           if rc \<noteq> 0 then Inr (rc, s2, t2) else smf_write_events B M s2 t2))"
  by pat_completeness auto
termination
proof (relation "measure (\<lambda>(B, M, s, t). events_left t)")
  fix B M s t x event e t1 w rc y s2 t2
  assume "smf_track_get_next_event B t = Inr x" "(event, t1) = x" "event = Some e"
    and "smf_write_event B M e s t1 = Inr w" "(rc, y) = w" "(s2, t2) = y"
  then have "events_left t1 < events_left t" "events_left t2 = events_left t1"
    by (auto dest: smf_track_get_next_event_advances smf_write_event_events [THEN events_left_same])
  then show "((B, M, s2, t2), B, M, s, t) \<in> measure (\<lambda>(B, M, s, t). events_left t)" by simp
qed simp

declare smf_write_events.simps [simp del]

definition smf_write_track :: "build \<Rightarrow> (int \<Rightarrow> bool) \<Rightarrow> byte list \<Rightarrow> smf \<Rightarrow> smf_track \<Rightarrow> (int \<times> smf \<times> smf_track) res" where
  "smf_write_track B M left s t =
     unless_error (write_mtrk_header M left s t) (\<lambda>s t. unless_error (smf_write_events B M s t) (\<lambda>s t.
     unless_error (write_mtrk_length B s t) (\<lambda>s t. Inr (0, s, t))))"

section \<open>Events with text\<close>

text \<open>What is in the block behind the terminating zero is left out.\<close>

definition smf_event_new_textual :: "build \<Rightarrow> (int \<Rightarrow> bool) \<Rightarrow> int \<Rightarrow> byte list \<Rightarrow> smf_event option res" where
  "smf_event_new_textual B M type str =
     andThen (assert_c B (1 \<le> type \<and> type \<le> 9)) (\<lambda>_.
     let text_length = int (length str) in
     if 2 ^ 31 \<le> 2 + text_length + int MAX_VLQ_LENGTH then Inl Signed_Overflow
     else case smf_event_new M of None \<Rightarrow> Inr None | Some e \<Rightarrow>
       if \<not> M (2 + text_length + int MAX_VLQ_LENGTH) then Inr None
       else andThen (format_vlq B (length str + MAX_VLQ_LENGTH) (int MAX_VLQ_LENGTH - 2) (word_of_int text_length)) (\<lambda>(vlq, vlq_length).
         Inr (Some (e\<lparr>midi_buffer := Some ([0xFF, word_of_int type] @ vlq @ str @ [0]),
           midi_buffer_length := 2 + vlq_length + text_length\<rparr>))))"

section \<open>What is written\<close>

text \<open>The file in memory is as long as it says, and there is memory for \<open>k\<close> more bytes.\<close>

definition space_for :: "(int \<Rightarrow> bool) \<Rightarrow> nat \<Rightarrow> smf \<Rightarrow> bool" where
  "space_for M k s \<longleftrightarrow> file_buffer_length s = int (length (smf_bytes s)) \<and> length (smf_bytes s) + k < 2 ^ 31
     \<and> (\<forall>n. 0 \<le> n \<and> n \<le> int (length (smf_bytes s) + k) \<longrightarrow> M n)"

definition smf_appended :: "byte list \<Rightarrow> smf \<Rightarrow> smf" where
  "smf_appended bs s = s\<lparr>file_buffer := Some (smf_bytes s @ bs), file_buffer_length := int (length (smf_bytes s) + length bs)\<rparr>"

lemma smf_bytes_appended [simp]: "smf_bytes (smf_appended bs s) = smf_bytes s @ bs"
  by (simp add: smf_appended_def smf_bytes_def)

lemma smf_appended_twice [simp]: "smf_appended cs (smf_appended bs s) = smf_appended (bs @ cs) s"
  by (simp add: smf_appended_def smf_bytes_def add.assoc)

lemma space_for_appended: "space_for M k s \<Longrightarrow> length bs \<le> k \<Longrightarrow> space_for M (k - length bs) (smf_appended bs s)"
  by (auto simp: space_for_def smf_appended_def smf_bytes_def)

lemma track_append_ok:
  assumes "space_for M k s" "length bs \<le> k"
  shows "\<exists>t'. track_append M bs (int (length bs)) s t = Inr (0, smf_appended bs s, t')"
proof -
  have "file_buffer_length s = int (length (smf_bytes s))" "\<not> 2 ^ 31 \<le> int (length (smf_bytes s)) + int (length bs)"
    "M (int (length (smf_bytes s)) + int (length bs))"
    using assms by (auto simp: space_for_def)
  then show ?thesis
    by (simp add: track_append_def track_extend_def smf_extend_def Let_def fetch_def poke_def smf_appended_def)
qed

lemma append_message_ok:
  assumes "space_for M k s" "midi_buffer e = Some bs" "midi_buffer_length e = int (length bs)" "i \<le> length bs" "length bs \<le> k + i"
  shows "\<exists>t'. append_message M e i s t = Inr (0, smf_appended (drop i bs) s, t')"
  using track_append_ok [of M k s "drop i bs" t] assms by (simp add: append_message_def of_nat_diff)

lemma write_vlq_ok:
  assumes "space_for M k s" "v < 2 ^ 56" "8 \<le> k"
  shows "\<exists>t'. write_vlq B M (word_of_int (int v)) s t = Inr (0, smf_appended (varlen_enc v) s, t')"
proof -
  have u: "unat (word_of_int (int v) :: ulong) = v" using assms(2) by (simp add: unat_of_nat)
  have l: "length (varlen_enc v) \<le> 8" by (rule varlen_enc_length [OF assms(2)])
  then have "format_vlq B MAX_VLQ_LENGTH (int MAX_VLQ_LENGTH) (word_of_int (int v)) = Inr (varlen_enc v, int (length (varlen_enc v)))"
    using format_vlq_enc [of "word_of_int (int v)" MAX_VLQ_LENGTH "int MAX_VLQ_LENGTH" B] assms(2) unfolding u
    by (simp add: MAX_VLQ_LENGTH_def)
  then show ?thesis using track_append_ok [of M k s "varlen_enc v" t] assms(1,3) l by (simp add: write_vlq_def)
qed

lemma unless_error_ok [simp]: "unless_error (Inr (0, s, t)) f = f s t"
  by (simp add: unless_error_def)

lemma write_wrapped_ok:
  assumes "space_for M k s" "midi_buffer e = Some bs" "midi_buffer_length e = int (length bs)" "i \<le> length bs"
    and "length bs < 2 ^ 28" "length bs + 9 \<le> k"
  shows "\<exists>t'. unless_error (track_append M [st] 1 s t) (\<lambda>s t.
      unless_error (write_vlq B M (word_of_int (midi_buffer_length e - int i)) s t) (\<lambda>s t.
      unless_error (append_message M e i s t) (\<lambda>s t. Inr (0, s, t)))) =
    Inr (0, smf_appended (st # varlen_enc (length bs - i) @ drop i bs) s, t')"
proof -
  let ?v = "varlen_enc (length bs - i)"
  have l: "midi_buffer_length e - int i = int (length bs - i)" using assms(3,4) by (simp add: of_nat_diff)
  have small: "length bs - i < 2 ^ 56" using assms(5) by simp
  then have v: "length ?v \<le> 8" by (rule varlen_enc_length)
  obtain t1 where 1: "track_append M [st] 1 s t = Inr (0, smf_appended [st] s, t1)"
    using track_append_ok [OF assms(1), of "[st]" t] assms(6) by auto
  have s1: "space_for M (k - 1) (smf_appended [st] s)" using space_for_appended [OF assms(1), of "[st]"] assms(6) by simp
  obtain t2 where 2: "write_vlq B M (word_of_int (int (length bs - i))) (smf_appended [st] s) t1 = Inr (0, smf_appended (st # ?v) s, t2)"
  proof -
    have "8 \<le> k - 1" using assms(6) by simp
    then show ?thesis using write_vlq_ok [OF s1 small, of B t1] that by auto
  qed
  have s2: "space_for M (k - 1 - length ?v) (smf_appended (st # ?v) s)"
    using space_for_appended [OF s1, of ?v] assms(6) v by simp
  obtain t3 where "append_message M e i (smf_appended (st # ?v) s) t2 = Inr (0, smf_appended ((st # ?v) @ drop i bs) s, t3)"
  proof -
    have "length bs \<le> k - 1 - length ?v + i" using assms(6) v by simp
    then show ?thesis using append_message_ok [OF s2 assms(2,3,4), of t2] that by auto
  qed
  then show ?thesis using 1 2 unfolding l by simp
qed

lemma write_sysex_ok:
  assumes "space_for M k s" "midi_buffer e = Some (0xF0 # bs)" "midi_buffer_length e = int (Suc (length bs))"
    and "Suc (length bs) < 2 ^ 28" "length bs + 10 \<le> k"
  shows "\<exists>t'. write_sysex_contents B M e s t = Inr (0, smf_appended (0xF0 # varlen_enc (length bs) @ bs) s, t')"
proof -
  have x: "smf_event_is_sysex B e = Inr True"
    using assms(2,3) by (simp add: smf_event_is_sysex_def has_message_def midi_byte_def peek_def)
  have "\<exists>t'. unless_error (track_append M [0xF0] 1 s t) (\<lambda>s t.
      unless_error (write_vlq B M (word_of_int (midi_buffer_length e - int 1)) s t) (\<lambda>s t.
      unless_error (append_message M e 1 s t) (\<lambda>s t. Inr (0, s, t)))) =
    Inr (0, smf_appended (0xF0 # varlen_enc (length (0xF0 # bs) - 1) @ drop 1 (0xF0 # bs)) s, t')"
    using assms by (intro write_wrapped_ok [OF assms(1,2)]) simp_all
  then show ?thesis using x by (simp add: write_sysex_contents_def)
qed

text \<open>The event as it is in the track.\<close>

definition event_bytes :: "byte list \<Rightarrow> byte list" where
  "event_bytes bs = (if hd bs = 0xF0 then 0xF0 # varlen_enc (length bs - 1) @ tl bs else bs)"

lemma write_event_contents_ok:
  assumes "space_for M k s" "midi_buffer e = Some bs" "midi_buffer_length e = int (length bs)" "bs \<noteq> []"
    and "hd bs \<le> 0xF0 \<or> hd bs = 0xFF" "length bs < 2 ^ 28" "length bs + 9 \<le> k"
  shows "\<exists>t'. write_event_contents B M e s t = Inr (0, smf_appended (event_bytes bs) s, t')"
proof -
  obtain b cs where bs: "bs = b # cs" using assms(4) by (cases bs) simp_all
  have "\<not> 0xF8 \<le> b" if "b \<le> 0xF0" using order_trans [of "0xF8" b "0xF0"] that by auto
  then have r: "smf_event_is_system_realtime B e = Inr False"
    using assms(2,3,5) bs
    by (auto simp: smf_event_is_system_realtime_def smf_event_is_metadata_def has_message_def midi_byte_def peek_def)
  have c: "smf_event_is_system_common B e = Inr (b = 0xF0)"
    using assms(2,3,5) bs by (auto simp: smf_event_is_system_common_def has_message_def midi_byte_def peek_def)
  show ?thesis
  proof (cases "b = 0xF0")
    case True
    have "smf_event_is_sysex B e = Inr True"
      using assms(2,3) bs True by (simp add: smf_event_is_sysex_def has_message_def midi_byte_def peek_def)
    then show ?thesis
      using write_sysex_ok [OF assms(1), of e cs B t] assms(2,3,6,7) bs True r c
      by (simp add: write_event_contents_def write_escaped_event_contents_def event_bytes_def)
  next
    case False
    then show ?thesis
      using append_message_ok [OF assms(1-3), of 0 t] assms(7) bs r c by (simp add: write_event_contents_def event_bytes_def)
  qed
qed

section \<open>What is written can be loaded\<close>

lemma drop_appended: "drop (length as) ((as @ bs) @ cs) = bs @ cs"
  by simp

lemma extract_sysex_written:
  assumes "drop buf mem = 0xF0 # varlen_enc (length bs) @ bs @ rest" "length bs < 2 ^ 28" "2 < length rest"
    and "M (int (Suc (length bs)))"
  shows "extract_midi_event B M mem buf (int (length mem - buf)) e len ls =
    Inr (0, e\<lparr>midi_buffer_length := int (Suc (length bs)), midi_buffer := Some (0xF0 # bs)\<rparr>,
      int (Suc (length (varlen_enc (length bs)) + length bs)))"
proof -
  let ?v = "varlen_enc (length bs)" and ?n = "int (length mem - buf)"
  have n: "length mem - buf = Suc (length ?v + (length bs + length rest))" using arg_cong [OF assms(1), of length] by simp
  then have "buf < length mem" by simp
  then have b: "peek mem buf = Inr 0xF0"
    using arg_cong [OF assms(1), of hd] by (simp add: peek_def hd_drop_conv_nth)
  have d: "drop (buf + 1) mem = ?v @ bs @ rest" using arg_cong [OF assms(1), of "drop 1"] by (simp add: add.commute)
  have "extract_vlq B mem (buf + 1) (?n - 1) = Inr (0, Some (int (length bs), int (length ?v)))"
    using n assms(3) by (intro extract_vlq_enc [OF assms(2) d]) simp
  then have x: "expected_sysex_length B 0xF0 mem (buf + 1) (?n - 1) = Inr (int (length bs) + 1, Some (int (length ?v)))"
    using n assms(3) by (simp add: expected_sysex_length_def)
  have "drop (buf + 1 + length ?v) mem = bs @ rest"
    using arg_cong [OF d, of "drop (length ?v)"] by (simp add: add.commute)
  then have f: "fetch mem (buf + 1 + length ?v) (length bs) = Inr bs"
    using n by (simp add: fetch_def)
  have "extract_midi_event B M mem buf ?n e len ls = extract_sysex_event B M mem buf ?n e len"
    using b n by (simp add: extract_midi_event_def is_status_byte_def is_sysex_byte_def)
  also have "\<dots> = Inr (0, e\<lparr>midi_buffer_length := int (Suc (length bs)), midi_buffer := Some (0xF0 # bs)\<rparr>,
      int (Suc (length ?v + length bs)))"
    using b x f n assms(3,4) by (cases rest) (simp_all add: extract_sysex_event_def is_sysex_byte_def Let_def add.commute)
  finally show ?thesis .
qed

lemma extract_message_written:
  assumes "drop buf mem = (s # cs) @ rest" "is_status_byte s" "\<not> is_sysex_byte s" "\<not> is_escape_byte s"
    and "expected_message_length B s (s # cs) 1 (int (length cs)) = Inr (int (Suc (length cs)))"
    and "M (int (Suc (length cs)))"
  shows "extract_midi_event B M mem buf (int (length mem - buf)) e len ls =
    Inr (0, e\<lparr>midi_buffer_length := int (Suc (length cs)), midi_buffer := Some (s # cs)\<rparr>, int (Suc (length cs)))"
proof -
  let ?n = "int (length mem - buf)"
  have n: "length mem - buf = Suc (length cs + length rest)" using arg_cong [OF assms(1), of length] by simp
  then have "buf < length mem" by simp
  then have b: "peek mem buf = Inr s" using arg_cong [OF assms(1), of hd] by (simp add: peek_def hd_drop_conv_nth)
  have d: "drop (buf + 1) mem = cs @ rest" using arg_cong [OF assms(1), of "drop 1"] by (simp add: add.commute)
  have "s = 0xFF \<Longrightarrow> 2 \<le> int (length cs)"
    using assms(5) by (auto simp: expected_message_length_def is_status_byte_def is_sysex_byte_def is_escape_byte_def split: if_splits)
  moreover have "cs ! 1 = mem ! (buf + 2)" if "2 \<le> int (length cs)"
    using arg_cong [OF d, of "\<lambda>l. l ! 1"] n that by (simp add: nth_append numeral_2_eq_2)
  ultimately have "expected_message_length B s mem (buf + 1) (?n - 1) = Inr (int (Suc (length cs)))"
    using n by (intro expected_message_length_same [OF assms(5)]) (auto simp: numeral_2_eq_2)
  moreover have "fetch mem (buf + 1) (length cs) = Inr cs" using d n by (simp add: fetch_def)
  ultimately show ?thesis
    using b n assms(2-4,6) by (simp add: extract_midi_event_def Let_def)
qed

lemma event_loaded:
  assumes "smf_event_is_valid B e = Inr True" "midi_buffer e = Some bs" "midi_buffer_length e = int (length bs)" "bs \<noteq> []"
    and "hd bs \<le> 0xF0 \<or> hd bs = 0xFF" "length bs < 2 ^ 28" "M (int (length bs))" "2 < length rest"
    and "drop buf mem = event_bytes bs @ rest"
  shows "extract_midi_event B M mem buf (int (length mem - buf)) e0 len ls =
    Inr (0, e0\<lparr>midi_buffer_length := int (length bs), midi_buffer := Some bs\<rparr>, int (length (event_bytes bs)))"
proof -
  obtain b cs where bs: "bs = b # cs" using assms(4) by (cases bs) simp_all
  show ?thesis
  proof (cases "b = 0xF0")
    case True
    then show ?thesis
      using extract_sysex_written [of buf mem cs rest M B e0 len ls] assms(6-9) bs by (simp add: event_bytes_def)
  next
    case False
    have "\<not> is_escape_byte b" using assms(5) bs by (auto simp: is_escape_byte_def)
    moreover have "is_status_byte b" "expected_message_length B b (b # cs) 1 (int (length cs)) = Inr (int (Suc (length cs)))"
      using assms(1-3) bs False
      by (auto simp: smf_event_is_valid_def smf_event_length_is_valid_def smf_event_is_sysex_def has_message_def midi_byte_def
          peek_def andThen_eq_Inr split: if_splits)
    ultimately show ?thesis
      using extract_message_written [of buf mem b cs rest B M e0 len ls] assms(7,9) bs False
      by (simp add: event_bytes_def is_sysex_byte_def)
  qed
qed

text \<open>
  An event of the system that is not exclusive goes into the file wrapped up, and what is wrapped up cannot be loaded:
  saving such an event in a build with assertions, which loads the file again, ends the program.
\<close>

lemma escaped_event_not_loaded:
  assumes "\<not> bd_ndebug B" "space_for M k s" "midi_buffer e = Some bs" "midi_buffer_length e = int (length bs)" "bs \<noteq> []"
    and "0xF0 < hd bs" "hd bs \<noteq> 0xFF" "length bs < 2 ^ 28" "length bs + 9 \<le> k"
  shows "\<exists>m t'. write_event_contents B M e s t = Inr (0, smf_appended m s, t') \<and>
    (\<forall>rest n e0 len ls. 0 < n \<longrightarrow> extract_midi_event B M (smf_bytes (smf_appended m s) @ rest) (length (smf_bytes s)) n e0 len ls = Inl Assert_Failed)"
proof -
  obtain b cs where bs: "bs = b # cs" using assms(5) by (cases bs) simp_all
  let ?m = "0xF7 # varlen_enc (length bs - 0) @ drop 0 bs"
  have c: "midi_byte e 0 = Inr b" "has_message B e = Inr ()" using assms(3,4) bs by (simp_all add: midi_byte_def peek_def has_message_def)
  have "b \<le> 0xF7 \<or> 0xF8 \<le> b" by (simp add: word_le_nat_alt) linarith
  then have sys: "smf_event_is_system_realtime B e = Inr True \<or>
      smf_event_is_system_realtime B e = Inr False \<and> smf_event_is_system_common B e = Inr True"
    using assms(6,7) bs c
    by (auto simp: smf_event_is_system_realtime_def smf_event_is_metadata_def smf_event_is_system_common_def order_less_imp_le)
  have "smf_event_is_sysex B e = Inr False" using assms(6) bs c by (auto simp: smf_event_is_sysex_def)
  then have "\<exists>t'. write_event_contents B M e s t = Inr (0, smf_appended ?m s, t')"
    using sys write_wrapped_ok [OF assms(2-4) _ assms(8,9), of 0 "0xF7" t B]
    by (auto simp: write_event_contents_def write_escaped_event_contents_def)
  moreover have "extract_midi_event B M (smf_bytes (smf_appended ?m s) @ rest) (length (smf_bytes s)) n e0 len ls = Inl Assert_Failed"
    if "0 < n" for rest n e0 len ls
    using that extract_escaped_event_aborts [OF assms(1), of "length (smf_bytes s)" "smf_bytes s @ ?m @ rest" M n e0 len]
    by (simp add: extract_midi_event_def peek_def is_status_byte_def is_sysex_byte_def is_escape_byte_def nth_append)
  ultimately show ?thesis by blast
qed

end
