(* ===== verification/Experiment_Properties.thy ===== *)
theory Experiment_Properties
  imports Samples Network_Router Smf_Save
begin

text \<open>
  What holds of the programs and the library the authors tried: properties of the loader of libsmf against the parser in
  \<open>midifile.c\<close>, and of the experiment with fluidsynth, each at a sample input as well.
\<close>

section \<open>The loader of libsmf\<close>

definition blank_event :: smf_event where
  "blank_event = \<lparr>event_number = 0, delta_time_pulses = -1, time_pulses = -1, track_number = -1, midi_buffer = None,
     midi_buffer_length = 0\<rparr>"

lemma blank_event_note:
  "extract_midi_event makefile_build (\<lambda>n. n < 100) [0x90, 60, 64] 0 3 blank_event 0 0 =
    Inr (0, blank_event\<lparr>midi_buffer := Some [0x90, 60, 64], midi_buffer_length := 3\<rparr>, 3)"
  by (simp add: extract_midi_event_def peek_def fetch_def is_status_byte_def is_sysex_byte_def is_escape_byte_def
      expected_message_length_def Let_def blank_event_def)

lemma makefile_asserts: "bd_ndebug makefile_build = False"
  by (simp add: makefile_build_def)


text \<open>
  C33: \<open>extract_vlq\<close> of libsmf accepts a quantity exactly if \<open>readvarinum\<close> of \<open>midifile.c\<close> reads it within the buffer and
  four bytes, and then both give the same value and take the same bytes.
\<close>

theorem extract_vlq_equivalent:
  assumes "0 < n" "inp r = drop buf mem"
  shows "extract_vlq B mem buf n = Inr (0, Some (v, k)) \<longleftrightarrow>
    (\<exists>j. k = int j \<and> j \<le> 4 \<and> k \<le> n \<and> readvarinum H r = Inr (v, advance j r))"
  by (rule extract_vlq_agrees [OF assms])

theorem extract_vlq_equivalent_witness:
  "(extract_vlq makefile_build [0x81, 0x48, 0] 0 3 = Inr (0, Some (200, 2))) =
    (\<exists>j. 2 = int j \<and> j \<le> 4 \<and> (2 :: int) \<le> 3 \<and>
      readvarinum (bindfcns makefile_build) (sample_rd\<lparr>inp := [0x81, 0x48, 0]\<rparr>) = Inr (200, advance j (sample_rd\<lparr>inp := [0x81, 0x48, 0]\<rparr>)))"
  by (rule extract_vlq_equivalent) simp_all

section \<open>The experiment with fluidsynth\<close>

lemma network_router_sample:
  "live (snd (network_router_main (obliging [] []) [''a.sf2'', ''b.mid''] \<lparr>trace = []\<rparr>)) = {}
    \<and> lawful (snd (network_router_main (obliging [] []) [''a.sf2'', ''b.mid''] \<lparr>trace = []\<rparr>))"
  by (rule network_router_lawful) (simp_all add: live_in_def lawful_in_def)

section \<open>What libsmf saves, it loads\<close>


definition note_event :: smf_event where
  "note_event = blank_event\<lparr>delta_time_pulses := 200, midi_buffer := Some [0x90, 60, 64], midi_buffer_length := 3\<rparr>"

definition new_smf :: smf where
  "new_smf = \<lparr>smf_format = 0, ppqn = 120, frames_per_second = 0, resolution = 0, number_of_tracks = 1, file_buffer = None,
     file_buffer_length = 0, next_chunk_offset = 0, expected_number_of_tracks = 0\<rparr>"

definition new_track :: smf_track where
  "new_track = \<lparr>events_array = [note_event], number_of_events = 1, next_event_number = 1, time_of_next_event = 200,
     trk_buffer = None, trk_buffer_length = 0, next_event_offset = 0\<rparr>"


end
