(* ===== verification/Spec2Isabelle.thy ===== *)
theory Spec2Isabelle
  imports File_Properties Server_Properties Client_Properties Experiment_Properties
begin

text \<open>
  MKS65-symphony is a server that splits a MIDI file among the clients connected to it and has them play their parts
  together. This development models the server (\<open>src/server\<close>), the client (\<open>src/client\<close>) and the protocol between
  them (\<open>src/client_protocol.h\<close>).

  \<^bold>\<open>Parts of the program and their theories.\<close> A command typed at the server's prompt (\<open>shell.c\<close>) runs a handler
  (\<open>cmd_handlers.c\<close>). \<open>load\<close> reads a MIDI file: \<open>midi_reader.c\<close> binds its handlers to the parser of \<open>midifile.c\<close> and builds
  the structures of \<open>midi.c\<close>. A connection (\<open>socket.c\<close>) gets a thread (\<open>server_thread.c\<close>), which greets the client and waits.
  \<open>play\<close> shares the tracks among the clients (\<open>midi_splitter.c\<close>), writes a file for each (\<open>midi_writer.c\<close>, \<open>midifile.c\<close>),
  sets a flag and comes to a barrier; each thread sends its file, waits for the client's answer and then at the barrier, and
  orders its client to play. The client (\<open>client.c\<close>, \<open>socket_client.c\<close>) obeys single bytes and plays with fluidsynth
  (\<open>midi_player.c\<close>).

  \<^item> \<open>Prelude\<close>: faults and results, C integers, strings, lists that grow at their end (locale \<open>append_list\<close>).
  \<^item> \<open>Midi\<close>: \<open>midi.h\<close>, \<open>midi.c\<close>. The store has events and buffers at addresses; a track is the record of its first and
    last pointer and its length. Invariants \<open>track_ok\<close> and \<open>building\<close>, appending, copying, freeing.
  \<^item> \<open>Mf_Read\<close>, \<open>Mf_Write\<close>: the two halves of \<open>midifile.c\<close>. The handlers are a record of optional functions, as the
    function pointers are; the state of the file is the input left and the counters.
  \<^item> \<open>Wire\<close>, \<open>Parse\<close>: what the routines for numbers and for whole events do on the bytes they are made for; locales
    \<open>emitter\<close>, \<open>codec\<close> and \<open>wire\<close>, interpreted for variable-length quantities and for numbers of two and four bytes.
  \<^item> \<open>Midi_Reader\<close>, \<open>Midi_Writer\<close>, \<open>Midi_Splitter\<close>: the files of the same names.
  \<^item> \<open>Utils\<close>, \<open>Net\<close>, \<open>Sys\<close>: \<open>utils.c\<close>; the loops \<open>sendall\<close> and \<open>recvall\<close> over any socket; the environment of a process.
  \<^item> \<open>Player\<close>, \<open>Server_Thread\<close>, \<open>Socket\<close>, \<open>Cmd_Handlers\<close>, \<open>Shell\<close>, \<open>Client\<close>: the files of these names. The state of a
    process is a record of its global variables on top of the trace of its calls.
  \<^item> \<open>Concurrency\<close>: the threads of the server as a transition system over where each of them is, the flag, the
    barrier and the number of clients; the handlers of the main thread refine it.
  \<^item> \<open>Network_Router\<close>, \<open>Smf_Load\<close>, \<open>Smf_Events\<close>, \<open>Smf_Save\<close>: what the authors tried (\<open>src/exp\<close>): a player that routes events,
    and of libsmf the chunks, quantities and events of its loader, up to where an event is put on a track, and the
    writing of headers, events and tracks.
  \<^item> \<open>Delivery\<close>, \<open>Samples\<close>: what server and client need of their surroundings, and concrete inputs.
  \<^item> \<open>File_Properties\<close>, \<open>Server_Properties\<close>, \<open>Client_Properties\<close>, \<open>Experiment_Properties\<close> and this theory: the properties, each applied once at
    a concrete input. Properties that nothing else uses stand in the theory of their component.

  \<^bold>\<open>How code becomes definitions.\<close> A function of the program is a definition of the same name (a loop of it is a function
  of its own); a function that can run into undefined behaviour or end the process returns \<open>fault + result\<close>, with a constructor
  of \<open>fault\<close> for each kind. Machine words are kept where they wrap; signed overflow is the fault \<open>Signed_Overflow\<close> where the
  code can reach it. A function without its \<open>return\<close> gives its value if the compiler leaves it in the register
  (\<open>bd_accumulator\<close>), and is a fault otherwise. The C library, the kernel, readline and fluidsynth are not under \<open>src/\<close>:
  an environment answers every call, from the trace of all calls before; theorems assume what their documentation
  says (\<open>send_ok\<close>, \<open>delivers\<close>, \<open>fluid_gives\<close>, \<open>fresh_fds\<close>, \<open>readline_answers\<close>), and theory \<open>Samples\<close> has an environment that
  satisfies all of it.

  \<^bold>\<open>Loops.\<close> Loops over the bytes of a file are recursive functions that end because each round takes input (the
  collection \<open>consumes\<close>). Walks along \<open>next\<close> pointers carry a fuel of one more than the next free address: a longer walk has
  come to an address twice and never ends, which is the fault \<open>Diverges\<close>. Loops on sockets and the main loops are partial
  functions, where \<open>None\<close> is the run that does not end; that they end, or do not, is proved.

  \<^bold>\<open>What the theorems show.\<close> A file read is the file's events, and written again it is the same file but for two
  changes the code makes; the parts written for the clients are their shares, and each client ends up playing its own.
  The list of clients, the tracks and the objects of fluidsynth keep their invariants under every operation. The first playing
  always ends and orders no client before all are ready. Other theorems state where the code goes wrong, on exactly
  which inputs: freeing of shared data, the second \<open>play\<close>, a reconnect, a closed connection, lines of spaces, overflows.
  Of libsmf: its loader stays within its buffer, reads quantities as \<open>midifile.c\<close> does and reads back the events it writes.

  \<^bold>\<open>Not modelled.\<close> \<open>mf_sec2ticks\<close> and \<open>mf_ticks2sec\<close> (arithmetic on \<open>double\<close>, called by nothing); \<open>client/utils.c\<close> (copies
  that the client's Makefile does not link); \<open>src/main.c\<close> (prints the address of the host and returns before its calls of
  reader, splitter and writer). Of \<open>src/exp\<close>: the tempos of libsmf, which are \<open>double\<close>, and what uses them (putting
  events on tracks, removing and seeking, hence the loops of \<open>smf_load\<close> and \<open>smf_save\<close> around the events), its shell
  and its printing of events; the originals of \<open>midifile.c\<close>, kept for reference; examples of fluidsynth and PulseAudio.
\<close>

section \<open>Properties of reading and writing files\<close>



section \<open>From the server's file to the client's player\<close>



section \<open>The threads together\<close>

definition called :: system where
  "called = \<lparr>pcs = [Checking, Greeting], cur = 2, main_pc = Writing, flag = False, parties = 0, arrived = 0, accepting = False\<rparr>"

lemma called_first: "first_play called"
proof -
  have "perform_all [Connect, Connect, Greet 0] boot = Some (called\<lparr>main_pc := Prompt, accepting := True\<rparr>)"
    by (simp add: boot_def called_def at_def goto_def)
  from first_play_run [OF this first_play.start] have "first_play (called\<lparr>main_pc := Prompt, accepting := True\<rparr>)" by simp
  from first_play.act [OF this, of Play_Command called] show ?thesis by (simp add: called_def)
qed

definition whole_play :: "act list" where
  "whole_play = [Release, Main_Arrives, Check 0, Greet 1, Check 1, Acknowledged 0, Acknowledged 1, Order 0, Order 1]"

definition all_over :: system where
  "all_over = called\<lparr>pcs := [Over, Over], main_pc := Prompt, flag := True, parties := 3\<rparr>"


definition played :: system where
  "played = \<lparr>pcs = [Over], cur = 1, main_pc = Prompt, flag = True, parties = 2, arrived = 0, accepting = False\<rparr>"

lemma played_first: "first_play played" "perform_all one_client_play boot = Some played"
proof -
  have 1: "perform_all [Connect, Greet 0, Check 0] boot = Some (boot\<lparr>pcs := [Asleep], cur := 1\<rparr>)"
    by (simp add: boot_def at_def goto_def)
  have 2: "perform Play_Command (boot\<lparr>pcs := [Asleep], cur := 1\<rparr>)
      = Some (boot\<lparr>pcs := [Asleep], cur := 1, main_pc := Writing, accepting := False\<rparr>)" by (simp add: boot_def)
  have 3: "perform_all [Release, Main_Arrives, Check 0, Acknowledged 0, Order 0]
      (boot\<lparr>pcs := [Asleep], cur := 1, main_pc := Writing, accepting := False\<rparr>) = Some played"
    by (simp add: boot_def played_def at_def goto_def arrive_def)
  have "first_play (boot\<lparr>pcs := [Asleep], cur := 1\<rparr>)" by (rule first_play_run [OF 1 first_play.start]) simp_all
  from first_play.act [OF this 2] have "first_play (boot\<lparr>pcs := [Asleep], cur := 1, main_pc := Writing, accepting := False\<rparr>)"
    by (simp add: boot_def)
  from first_play_run [OF 3 this] show "first_play played" by simp
  show "perform_all one_client_play boot = Some played"
    by (simp add: one_client_play_def boot_def played_def at_def goto_def arrive_def)
qed


theorem second_play_deadlocks_witness:
  "\<exists>s'. perform_all [Play_Command, Release, Main_Arrives] played = Some s' \<and> main_pc s' = Main_At_Barrier \<and> dead s'"
  by (rule second_play_deadlocks) (simp_all add: played_def)


end
